(* ===== verification/Soketto_Prelude.thy ===== *)
theory Soketto_Prelude
  imports Main "HOL-Library.Word"
begin

text \<open>
  Shared vocabulary of the development: the machine integers and byte strings of the crate,
  big-endian byte conversions (Rust's \<^verbatim>\<open>to_be_bytes\<close>/\<^verbatim>\<open>from_be_bytes\<close>), results, and the
  generic list and word lemmas the component theories use.

  Conventions. The model fixes a 64-bit target, so \<^verbatim>\<open>usize\<close> is a 64-bit word where a value comes
  from the wire or from configuration; lengths and offsets of in-memory buffers are \<open>nat\<close>
  (Rust bounds them by \<^verbatim>\<open>isize::MAX\<close>). A \<^verbatim>\<open>Result<T, E>\<close> is the sum \<open>'e + 't\<close> with \<open>Inl\<close> the
  error. An operation that may panic or run forever returns an \<open>option\<close>, \<open>None\<close> meaning that the
  call does not return. A \<^verbatim>\<open>str\<close> is its sequence of UTF-8 bytes, as in Rust.
\<close>

unbundle bit_operations_syntax

type_synonym u8 = "8 word"
type_synonym u16 = "16 word"
type_synonym u32 = "32 word"
type_synonym u64 = "64 word"
type_synonym usize = "64 word"
type_synonym bytes = "u8 list"
type_synonym str = bytes

named_theorems model_defs \<open>unfolding equations of the setters, getters and constants\<close>
named_theorems wire \<open>facts about the bytes an operation puts on the wire\<close>

section \<open>Byte strings\<close>

text \<open>The bytes of an ASCII literal.\<close>

definition lit :: "string \<Rightarrow> bytes" where
  "lit s = map of_char s"

text \<open>
  Big-endian conversion: \<open>to_be_bytes n w\<close> is \<^verbatim>\<open>w.to_be_bytes()\<close> for an integer of \<open>n\<close> bytes, and
  \<open>from_be_bytes\<close> is \<^verbatim>\<open>uN::from_be_bytes\<close>.
\<close>

fun to_be_bytes :: "nat \<Rightarrow> 'a::len word \<Rightarrow> bytes" where
  "to_be_bytes 0 w = []"
| "to_be_bytes (Suc n) w = ucast (drop_bit (8 * n) w) # to_be_bytes n w"

definition from_be_bytes :: "bytes \<Rightarrow> 'a::len word" where
  "from_be_bytes bs = foldl (\<lambda>a b. push_bit 8 a OR ucast b) 0 bs"

lemma length_to_be_bytes [simp]: "length (to_be_bytes n w) = n"
  by (induction n) auto

lemma to_be_bytes_2: "to_be_bytes 2 w = [ucast (drop_bit 8 w), ucast w]"
  using to_be_bytes.simps(2) [of 1 w] to_be_bytes.simps(2) [of 0 w] by (simp add: numeral_2_eq_2)

lemma to_be_bytes_4: "to_be_bytes 4 w = [ucast (drop_bit 24 w), ucast (drop_bit 16 w), ucast (drop_bit 8 w), ucast w]"
  using to_be_bytes.simps(2) [of 3 w] to_be_bytes.simps(2) [of 2 w] to_be_bytes_2 [of w]
  by (simp del: to_be_bytes.simps)


lemma foldl_to_be_bytes:
  "foldl (\<lambda>a b. push_bit 8 a OR ucast b) a (to_be_bytes n w) =
     push_bit (8 * n) a OR take_bit (8 * n) (w :: 'a::len word)"
proof (induction n arbitrary: a)
  case 0
  then show ?case by simp
next
  case (Suc n)
  have "push_bit (8 * n) (push_bit 8 a OR ucast (ucast (drop_bit (8 * n) w) :: u8)) OR take_bit (8 * n) w
      = push_bit (8 * Suc n) a OR take_bit (8 * Suc n) w"
    by (rule bit_word_eqI) (auto simp: bit_simps add.commute)
  then show ?case by (simp add: Suc.IH)
qed

lemma from_to_be_bytes:
  "LENGTH('a) \<le> 8 * n \<Longrightarrow> from_be_bytes (to_be_bytes n w) = (w :: 'a::len word)"
  by (simp add: from_be_bytes_def foldl_to_be_bytes take_bit_word_eq_self)

lemma from_to_be_bytes_sized [simp]:
  "from_be_bytes (to_be_bytes 2 (a :: u16)) = a"
  "from_be_bytes (to_be_bytes 4 (b :: u32)) = b"
  "from_be_bytes (to_be_bytes 8 (c :: u64)) = c"
  by (simp_all add: from_to_be_bytes)

text \<open>A number of two bytes.\<close>

lemma be_bytes_2:
  fixes b1 b2 :: u8
  shows "(from_be_bytes [b1, b2] :: u16) = of_nat (256 * unat b1 + unat b2)"
    "to_be_bytes 2 (of_nat (256 * unat b1 + unat b2) :: u16) = [b1, b2]" "unat (of_nat (256 * unat b1 + unat b2) :: u16) = 256 * unat b1 + unat b2"
proof -
  let ?w = "push_bit 8 (ucast b1) OR ucast b2 :: u16"
  have "push_bit 8 (ucast b1) AND (ucast b2 :: u16) = 0"
    by (rule bit_word_eqI) (auto simp: bit_simps dest: bit_imp_le_length)
  then have w: "?w = of_nat (256 * unat b1 + unat b2)"
    by (simp add: disjunctive_add_eq_or [symmetric] push_bit_eq_mult)
  then show "(from_be_bytes [b1, b2] :: u16) = of_nat (256 * unat b1 + unat b2)" by (simp add: from_be_bytes_def)
  have "ucast (drop_bit 8 ?w) = b1" "ucast ?w = b2"
    by (rule bit_word_eqI, force simp: bit_simps dest: bit_imp_le_length)+
  then show "to_be_bytes 2 (of_nat (256 * unat b1 + unat b2) :: u16) = [b1, b2]" unfolding w [symmetric] by (simp only: to_be_bytes_2)
  have "256 * unat b1 + unat b2 < 2 ^ 16" using unsigned_less [of b1, where ?'a = nat] unsigned_less [of b2, where ?'a = nat] by simp
  then show "unat (of_nat (256 * unat b1 + unat b2) :: u16) = 256 * unat b1 + unat b2" by (subst unat_of_nat) (simp add: take_bit_nat_eq_self)
qed

lemma unat_ucast_small: "unat w < 2 ^ LENGTH('b) \<Longrightarrow> unat (ucast (w :: 'a::len word) :: 'b::len word) = unat w"
  by (simp add: unsigned_ucast_eq take_bit_nat_eq_self)

lemma ucast_ucast_small: "unat w < 2 ^ LENGTH('b) \<Longrightarrow> ucast (ucast (w :: 'a::len word) :: 'b::len word) = w"
proof -
  assume a: "unat w < 2 ^ LENGTH('b)"
  have "ucast (ucast w :: 'b word) = (of_nat (unat (ucast w :: 'b word)) :: 'a word)"
    by (simp only: of_nat_unat)
  also have "\<dots> = w" by (simp only: unat_ucast_small [OF a] of_nat_unat ucast_id)
  finally show ?thesis .
qed

section \<open>Lists\<close>

lemma take_append_length [simp]: "length xs = n \<Longrightarrow> take n (xs @ ys) = xs"
  by auto

lemma drop_append_length [simp]: "length xs = n \<Longrightarrow> drop n (xs @ ys) = ys"
  by auto

lemma prefix_split:
  "xs @ ys = us @ vs \<Longrightarrow> length xs \<le> length us \<Longrightarrow> \<exists>ws. us = xs @ ws \<and> ys = ws @ vs"
  by (metis append_eq_append_conv2 append_eq_append_conv_if append_take_drop_id)

section \<open>Results\<close>

fun is_ok :: "'e + 'a \<Rightarrow> bool" where
  "is_ok (Inl e) = False"
| "is_ok (Inr a) = True"

lemma is_ok_iff: "is_ok r \<longleftrightarrow> (\<exists>a. r = Inr a)"
  by (cases r) auto

end
