(* ===== verification/Soketto_Lib.thy ===== *)
theory Soketto_Lib
  imports Soketto_Prelude
begin

text \<open>
  The crate root \<^verbatim>\<open>src/lib.rs\<close>: parsing results, payload storage, the \<^verbatim>\<open>usize\<close>-to-\<^verbatim>\<open>u64\<close> cast and
  the buffer-filling \<^verbatim>\<open>read\<close>; and the environment the crate runs in. The socket
  (\<^verbatim>\<open>T: AsyncRead + AsyncWrite\<close> with the \<^verbatim>\<open>futures\<close> extension methods) and the random generator
  (\<^verbatim>\<open>rand::random\<close>) are not code of this repository, so they are a record of operations on a world
  \<open>'w\<close>, passed to every definition that performs I/O. What their documentation promises is stated by
  the predicates \<open>source_ok\<close>, \<open>source_reliable\<close> and \<open>sink_ok\<close>, the hypotheses of the theorems that
  need it. Every \<^verbatim>\<open>await\<close> is run to completion.
\<close>

section \<open>Parsing results and payload storage\<close>

datatype ('t, 'n) Parsing = Done 't nat | NeedMore 'n

datatype Storage = Shared bytes | Unique bytes | Owned bytes

fun as_ref :: "Storage \<Rightarrow> bytes" where
  "as_ref (Shared d) = d"
| "as_ref (Unique d) = d"
| "as_ref (Owned b) = b"

definition as_u64 :: "usize \<Rightarrow> u64" where
  "as_u64 a = ucast a"

lemma as_u64_id [simp]: "as_u64 a = a"
  by (simp add: as_u64_def)

section \<open>The environment\<close>

datatype io_Error = UnexpectedEof | OtherKind nat

text \<open>
  \<open>sock_read w n\<close> is \<^verbatim>\<open>reader.read(&mut buf)\<close> for a buffer of \<open>n\<close> bytes and answers the bytes read;
  \<open>sock_read_exact w n\<close> is \<^verbatim>\<open>reader.read_exact\<close> and answers, on failure, the bytes it had stored;
  \<open>sock_discard w n\<close> is \<^verbatim>\<open>copy(&mut reader.take(n), &mut sink())\<close> and answers the number copied.
\<close>

record 'w Env =
  sock_read :: "'w \<Rightarrow> nat \<Rightarrow> (io_Error + bytes) \<times> 'w"
  sock_read_exact :: "'w \<Rightarrow> nat \<Rightarrow> ((io_Error \<times> bytes) + bytes) \<times> 'w"
  sock_discard :: "'w \<Rightarrow> u64 \<Rightarrow> (io_Error + u64) \<times> 'w"
  sock_write_all :: "'w \<Rightarrow> bytes \<Rightarrow> (io_Error + unit) \<times> 'w"
  sock_flush :: "'w \<Rightarrow> (io_Error + unit) \<times> 'w"
  sock_close :: "'w \<Rightarrow> (io_Error + unit) \<times> 'w"
  random_u32 :: "'w \<Rightarrow> u32 \<times> 'w"

text \<open>
  A successful read delivers the next bytes of the peer's stream, in order, at most as many as asked
  for, and none only at the end of the stream. \<open>inp w\<close> is the part of the peer's stream not delivered
  yet and \<open>outp w\<close> what the socket has accepted.
\<close>

definition source_ok :: "'w Env \<Rightarrow> ('w \<Rightarrow> bytes) \<Rightarrow> ('w \<Rightarrow> bytes) \<Rightarrow> bool" where
  "source_ok env inp outp \<longleftrightarrow>
     (\<forall>w n bs w'. sock_read env w n = (Inr bs, w') \<longrightarrow>
        length bs \<le> n \<and> bs @ inp w' = inp w \<and> outp w' = outp w \<and> (bs = [] \<longrightarrow> n = 0 \<or> inp w = [])) \<and>
     (\<forall>w n bs w'. sock_read_exact env w n = (Inr bs, w') \<longrightarrow>
        length bs = n \<and> bs @ inp w' = inp w \<and> outp w' = outp w) \<and>
     (\<forall>w n k w'. sock_discard env w n = (Inr k, w') \<longrightarrow>
        unat k = min (unat n) (length (inp w)) \<and> inp w' = drop (unat n) (inp w) \<and> outp w' = outp w)"

text \<open>A source that raises no error but the end of its stream.\<close>

definition source_reliable :: "'w Env \<Rightarrow> ('w \<Rightarrow> bytes) \<Rightarrow> bool" where
  "source_reliable env inp \<longleftrightarrow>
     (\<forall>w n. \<exists>bs w'. sock_read env w n = (Inr bs, w')) \<and>
     (\<forall>w n. n \<le> length (inp w) \<longrightarrow> (\<exists>bs w'. sock_read_exact env w n = (Inr bs, w'))) \<and>
     (\<forall>w n. length (inp w) < n \<longrightarrow>
        (\<exists>got w'. sock_read_exact env w n = (Inl (UnexpectedEof, got), w') \<and> length (inp w') \<le> length (inp w))) \<and>
     (\<forall>w n. \<exists>k w'. sock_discard env w n = (Inr k, w'))"

text \<open>A sink that accepts everything, appends it to what it accepted before and leaves the source alone.\<close>

definition sink_ok :: "'w Env \<Rightarrow> ('w \<Rightarrow> bytes) \<Rightarrow> ('w \<Rightarrow> bytes) \<Rightarrow> bool" where
  "sink_ok env inp outp \<longleftrightarrow>
     (\<forall>w bs. \<exists>w'. sock_write_all env w bs = (Inr (), w') \<and> outp w' = outp w @ bs \<and> inp w' = inp w) \<and>
     (\<forall>w. \<exists>w'. sock_flush env w = (Inr (), w') \<and> outp w' = outp w \<and> inp w' = inp w) \<and>
     (\<forall>w. \<exists>r w'. sock_close env w = (r, w') \<and> outp w' = outp w \<and> inp w' = inp w) \<and>
     (\<forall>w m w'. random_u32 env w = (m, w') \<longrightarrow> outp w' = outp w \<and> inp w' = inp w)"

definition env_ok :: "'w Env \<Rightarrow> ('w \<Rightarrow> bytes) \<Rightarrow> ('w \<Rightarrow> bytes) \<Rightarrow> bool" where
  "env_ok env inp outp \<longleftrightarrow> source_ok env inp outp \<and> source_reliable env inp \<and> sink_ok env inp outp"

section \<open>Filling a buffer\<close>

text \<open>
  \<^verbatim>\<open>crate::read\<close>: the destination is grown by \<open>limit\<close> (the parameter \<^verbatim>\<open>max\<close>) zero bytes, read into, and cut back to what
  arrived. A failing read returns before the cut, with the zeros still in place; reading nothing is
  the error \<open>UnexpectedEof\<close>.
\<close>

definition read :: "'w Env \<Rightarrow> 'w \<Rightarrow> bytes \<Rightarrow> nat \<Rightarrow> (io_Error + unit) \<times> 'w \<times> bytes" where
  "read env w dest limit =
     (case sock_read env w limit of
        (Inl e, w') \<Rightarrow> (Inl e, w', dest @ replicate limit 0)
      | (Inr bs, w') \<Rightarrow> (if bs = [] then (Inl UnexpectedEof, w', dest) else (Inr (), w', dest @ bs)))"

lemma read_grows: "read env w dest limit = (Inr (), w', dest') \<Longrightarrow> length dest < length dest'"
  by (auto simp: read_def split: prod.splits sum.splits if_splits)

lemma read_reliable:
  assumes "source_ok env inp outp" "source_reliable env inp" "0 < limit"
  shows "if inp w = [] then \<exists>w'. read env w dest limit = (Inl UnexpectedEof, w', dest) \<and> inp w' = [] \<and> outp w' = outp w
         else \<exists>w' bs. read env w dest limit = (Inr (), w', dest @ bs) \<and> bs \<noteq> [] \<and> length bs \<le> limit \<and>
                bs @ inp w' = inp w \<and> outp w' = outp w"
proof -
  obtain bs w' where r: "sock_read env w limit = (Inr bs, w')"
    using assms(2) unfolding source_reliable_def by blast
  then have "length bs \<le> limit" "bs @ inp w' = inp w" "outp w' = outp w" "bs = [] \<longrightarrow> inp w = []"
    using assms(1,3) unfolding source_ok_def by blast+
  then show ?thesis using r by (auto simp: read_def)
qed

lemma read_exact_reliable:
  assumes "source_ok env inp outp" "source_reliable env inp" "n \<le> length (inp w)"
  shows "\<exists>w'. sock_read_exact env w n = (Inr (take n (inp w)), w') \<and> inp w' = drop n (inp w) \<and> outp w' = outp w"
proof -
  obtain bs w' where r: "sock_read_exact env w n = (Inr bs, w')"
    using assms(2,3) unfolding source_reliable_def by blast
  then have "length bs = n" "bs @ inp w' = inp w" "outp w' = outp w"
    using assms(1) unfolding source_ok_def by blast+
  then show ?thesis using r by (metis append_eq_conv_conj)
qed

end
