(* ===== verification/Base_Codec.thy ===== *)
theory Base_Codec
  imports Soketto_Lib
begin

text \<open>
  The base frame codec \<^verbatim>\<open>src/base.rs\<close>: operation codes, frame headers, and the codec that decodes a
  header from a byte buffer, encodes one into its scratch buffer and masks payload data. The theorems
  show that encoding is the RFC 6455 layout (\<open>header_bytes\<close>) and never leaves the 14-byte scratch buffer,
  that decoding inverts it whatever follows in the buffer, that a decoded header is well formed for
  the codec, that decoding is stable under more input and asks for bytes it really needs, and
  that masking is an involution.
\<close>

section \<open>Operation codes\<close>

datatype OpCode =
    Continue | Text | Binary | Close | Ping | Pong
  | Reserved3 | Reserved4 | Reserved5 | Reserved6 | Reserved7
  | Reserved11 | Reserved12 | Reserved13 | Reserved14 | Reserved15

fun is_control :: "OpCode \<Rightarrow> bool" where
  "is_control Close = True"
| "is_control Ping = True"
| "is_control Pong = True"
| "is_control _ = False"

fun is_reserved :: "OpCode \<Rightarrow> bool" where
  "is_reserved Reserved3 = True"
| "is_reserved Reserved4 = True"
| "is_reserved Reserved5 = True"
| "is_reserved Reserved6 = True"
| "is_reserved Reserved7 = True"
| "is_reserved Reserved11 = True"
| "is_reserved Reserved12 = True"
| "is_reserved Reserved13 = True"
| "is_reserved Reserved14 = True"
| "is_reserved Reserved15 = True"
| "is_reserved _ = False"

fun opcode_display :: "OpCode \<Rightarrow> string" where
  "opcode_display Continue = ''Continue''"
| "opcode_display Text = ''Text''"
| "opcode_display Binary = ''Binary''"
| "opcode_display Close = ''Close''"
| "opcode_display Ping = ''Ping''"
| "opcode_display Pong = ''Pong''"
| "opcode_display Reserved3 = ''Reserved:3''"
| "opcode_display Reserved4 = ''Reserved:4''"
| "opcode_display Reserved5 = ''Reserved:5''"
| "opcode_display Reserved6 = ''Reserved:6''"
| "opcode_display Reserved7 = ''Reserved:7''"
| "opcode_display Reserved11 = ''Reserved:11''"
| "opcode_display Reserved12 = ''Reserved:12''"
| "opcode_display Reserved13 = ''Reserved:13''"
| "opcode_display Reserved14 = ''Reserved:14''"
| "opcode_display Reserved15 = ''Reserved:15''"

datatype UnknownOpCode_error = UnknownOpCode_error unit

definition opcode_try_from :: "u8 \<Rightarrow> UnknownOpCode_error + OpCode" where
  "opcode_try_from val =
     (if val = 0 then Inr Continue
      else if val = 1 then Inr Text
      else if val = 2 then Inr Binary
      else if val = 3 then Inr Reserved3
      else if val = 4 then Inr Reserved4
      else if val = 5 then Inr Reserved5
      else if val = 6 then Inr Reserved6
      else if val = 7 then Inr Reserved7
      else if val = 8 then Inr Close
      else if val = 9 then Inr Ping
      else if val = 10 then Inr Pong
      else if val = 11 then Inr Reserved11
      else if val = 12 then Inr Reserved12
      else if val = 13 then Inr Reserved13
      else if val = 14 then Inr Reserved14
      else if val = 15 then Inr Reserved15
      else Inl (UnknownOpCode_error ()))"

fun u8_from_opcode :: "OpCode \<Rightarrow> u8" where
  "u8_from_opcode Continue = 0"
| "u8_from_opcode Text = 1"
| "u8_from_opcode Binary = 2"
| "u8_from_opcode Close = 8"
| "u8_from_opcode Ping = 9"
| "u8_from_opcode Pong = 10"
| "u8_from_opcode Reserved3 = 3"
| "u8_from_opcode Reserved4 = 4"
| "u8_from_opcode Reserved5 = 5"
| "u8_from_opcode Reserved6 = 6"
| "u8_from_opcode Reserved7 = 7"
| "u8_from_opcode Reserved11 = 11"
| "u8_from_opcode Reserved12 = 12"
| "u8_from_opcode Reserved13 = 13"
| "u8_from_opcode Reserved14 = 14"
| "u8_from_opcode Reserved15 = 15"

section \<open>Frame headers\<close>

record Header =
  h_fin :: bool
  h_rsv1 :: bool
  h_rsv2 :: bool
  h_rsv3 :: bool
  h_masked :: bool
  h_opcode :: OpCode
  h_mask :: u32
  h_payload_len :: usize

definition header_new :: "OpCode \<Rightarrow> Header" where
  "header_new oc = \<lparr>h_fin = True, h_rsv1 = False, h_rsv2 = False, h_rsv3 = False, h_masked = False,
     h_opcode = oc, h_mask = 0, h_payload_len = 0\<rparr>"

definition is_fin :: "Header \<Rightarrow> bool" where [model_defs]: "is_fin h = h_fin h"
definition set_fin :: "Header \<Rightarrow> bool \<Rightarrow> Header" where [model_defs]: "set_fin h b = h\<lparr>h_fin := b\<rparr>"
definition is_rsv1 :: "Header \<Rightarrow> bool" where [model_defs]: "is_rsv1 h = h_rsv1 h"
definition set_rsv1 :: "Header \<Rightarrow> bool \<Rightarrow> Header" where [model_defs]: "set_rsv1 h b = h\<lparr>h_rsv1 := b\<rparr>"
definition is_rsv2 :: "Header \<Rightarrow> bool" where [model_defs]: "is_rsv2 h = h_rsv2 h"
definition set_rsv2 :: "Header \<Rightarrow> bool \<Rightarrow> Header" where [model_defs]: "set_rsv2 h b = h\<lparr>h_rsv2 := b\<rparr>"
definition is_rsv3 :: "Header \<Rightarrow> bool" where [model_defs]: "is_rsv3 h = h_rsv3 h"
definition set_rsv3 :: "Header \<Rightarrow> bool \<Rightarrow> Header" where [model_defs]: "set_rsv3 h b = h\<lparr>h_rsv3 := b\<rparr>"
definition is_masked :: "Header \<Rightarrow> bool" where [model_defs]: "is_masked h = h_masked h"
definition set_masked :: "Header \<Rightarrow> bool \<Rightarrow> Header" where [model_defs]: "set_masked h b = h\<lparr>h_masked := b\<rparr>"
definition opcode :: "Header \<Rightarrow> OpCode" where [model_defs]: "opcode h = h_opcode h"
definition set_opcode :: "Header \<Rightarrow> OpCode \<Rightarrow> Header" where [model_defs]: "set_opcode h oc = h\<lparr>h_opcode := oc\<rparr>"
definition mask :: "Header \<Rightarrow> u32" where [model_defs]: "mask h = h_mask h"
definition set_mask :: "Header \<Rightarrow> u32 \<Rightarrow> Header" where [model_defs]: "set_mask h m = h\<lparr>h_mask := m\<rparr>"
definition payload_len :: "Header \<Rightarrow> usize" where [model_defs]: "payload_len h = h_payload_len h"
definition set_payload_len :: "Header \<Rightarrow> usize \<Rightarrow> Header" where [model_defs]: "set_payload_len h n = h\<lparr>h_payload_len := n\<rparr>"

section \<open>The codec\<close>

definition MAX_HEADER_SIZE :: nat where [model_defs]: "MAX_HEADER_SIZE = 14"
definition MAX_CTRL_BODY_SIZE :: u64 where [model_defs]: "MAX_CTRL_BODY_SIZE = 125"
definition TWO_EXT :: u8 where [model_defs]: "TWO_EXT = 126"
definition EIGHT_EXT :: u8 where [model_defs]: "EIGHT_EXT = 127"

record Codec =
  c_max_data_size :: usize
  c_reserved_bits :: u8
  c_header_buffer :: bytes

definition codec_new :: Codec where
  "codec_new = \<lparr>c_max_data_size = 256 * 1024 * 1024, c_reserved_bits = 0,
     c_header_buffer = replicate MAX_HEADER_SIZE 0\<rparr>"

definition max_data_size :: "Codec \<Rightarrow> usize" where [model_defs]: "max_data_size c = c_max_data_size c"
definition set_max_data_size :: "Codec \<Rightarrow> usize \<Rightarrow> Codec" where
  [model_defs]: "set_max_data_size c n = c\<lparr>c_max_data_size := n\<rparr>"

definition reserved_bits :: "Codec \<Rightarrow> bool \<times> bool \<times> bool" where
  "reserved_bits c = (let r = c_reserved_bits c in (r AND 4 = 4, r AND 2 = 2, r AND 1 = 1))"

definition add_reserved_bits :: "Codec \<Rightarrow> bool \<times> bool \<times> bool \<Rightarrow> Codec" where
  "add_reserved_bits c bits = (case bits of (r1, r2, r3) \<Rightarrow>
     c\<lparr>c_reserved_bits := c_reserved_bits c OR
        (push_bit 2 (of_bool r1) OR push_bit 1 (of_bool r2) OR of_bool r3)\<rparr>)"

definition clear_reserved_bits :: "Codec \<Rightarrow> Codec" where
  "clear_reserved_bits c = c\<lparr>c_reserved_bits := 0\<rparr>"

datatype base_Error =
    Io io_Error
  | UnknownOpCode
  | ReservedOpCode
  | FragmentedControl
  | InvalidControlFrameLen
  | InvalidReservedBit u8
  | PayloadTooLarge u64 u64

text \<open>The conversions behind the \<^verbatim>\<open>?\<close> operator.\<close>

definition base_from_io :: "io_Error \<Rightarrow> base_Error" where
  "base_from_io e = base_Error.Io e"

definition base_from_unknown :: "UnknownOpCode_error \<Rightarrow> base_Error" where
  "base_from_unknown e = UnknownOpCode"

declare base_from_unknown_def [simp]

subsection \<open>Decoding\<close>

text \<open>The length field: the length and the offset behind it, or how many bytes are missing.\<close>

definition decode_len :: "bytes \<Rightarrow> u8 \<Rightarrow> nat \<Rightarrow> (u64 \<times> nat) + nat" where
  "decode_len bytes code offset =
     (if code = TWO_EXT then
        if length bytes < offset + 2 then Inr (offset + 2 - length bytes)
        else Inl (ucast (from_be_bytes (take 2 (drop offset bytes)) :: u16), offset + 2)
      else if code = EIGHT_EXT then
        if length bytes < offset + 8 then Inr (offset + 8 - length bytes)
        else Inl (from_be_bytes (take 8 (drop offset bytes)), offset + 8)
      else Inl (ucast code, offset))"

text \<open>The part of \<^verbatim>\<open>decode_header\<close> after the length: limits, then the masking key.\<close>

definition decode_rest :: "Codec \<Rightarrow> bytes \<Rightarrow> Header \<Rightarrow> u64 \<Rightarrow> nat \<Rightarrow> base_Error + (Header, nat) Parsing" where
  "decode_rest self bytes header len offset =
     (if len > MAX_CTRL_BODY_SIZE \<and> is_control (opcode header) then Inl InvalidControlFrameLen
      else if len > as_u64 (c_max_data_size self) then Inl (PayloadTooLarge len (as_u64 (c_max_data_size self)))
      else
        let header = set_payload_len header (ucast len) in
        if is_masked header then
          if length bytes < offset + 4 then Inr (NeedMore (offset + 4 - length bytes))
          else Inr (Done (set_mask header (from_be_bytes (take 4 (drop offset bytes)))) (offset + 4))
        else Inr (Done header offset))"

text \<open>The part of \<^verbatim>\<open>decode_header\<close> before the length: opcode and flags from the first two bytes.\<close>

definition decode_flags :: "Codec \<Rightarrow> u8 \<Rightarrow> u8 \<Rightarrow> base_Error + Header" where
  "decode_flags self first second =
     (let fin = (first AND 0x80 \<noteq> 0) in
      case opcode_try_from (first AND 0xF) of
        Inl e \<Rightarrow> Inl (base_from_unknown e)
      | Inr oc \<Rightarrow>
          if is_reserved oc then Inl ReservedOpCode
          else if is_control oc \<and> \<not> fin then Inl FragmentedControl
          else
            let header = set_fin (header_new oc) fin; rsv1 = (first AND 0x40 \<noteq> 0) in
            if rsv1 \<and> c_reserved_bits self AND 4 = 0 then Inl (InvalidReservedBit 1)
            else
              let header = set_rsv1 header rsv1; rsv2 = (first AND 0x20 \<noteq> 0) in
              if rsv2 \<and> c_reserved_bits self AND 2 = 0 then Inl (InvalidReservedBit 2)
              else
                let header = set_rsv2 header rsv2; rsv3 = (first AND 0x10 \<noteq> 0) in
                if rsv3 \<and> c_reserved_bits self AND 1 = 0 then Inl (InvalidReservedBit 3)
                else Inr (set_masked (set_rsv3 header rsv3) (second AND 0x80 \<noteq> 0)))"

definition decode_header :: "Codec \<Rightarrow> bytes \<Rightarrow> base_Error + (Header, nat) Parsing" where
  "decode_header self bytes =
     (if length bytes < 2 then Inr (NeedMore (2 - length bytes))
      else
        let first = bytes ! 0; second = bytes ! 1; offset = 2 in
        case decode_flags self first second of
          Inl e \<Rightarrow> Inl e
        | Inr header \<Rightarrow>
            (case decode_len bytes (second AND 0x7F) offset of
               Inr missing \<Rightarrow> Inr (NeedMore missing)
             | Inl (len, offset) \<Rightarrow> decode_rest self bytes header len offset))"

subsection \<open>Encoding and masking\<close>

text \<open>\<^verbatim>\<open>buf[off..off + n].copy_from_slice(bs)\<close> panics when the range leaves the buffer.\<close>

definition write_at :: "bytes \<Rightarrow> nat \<Rightarrow> bytes \<Rightarrow> bytes option" where
  "write_at buf off bs =
     (if off + length bs \<le> length buf then Some (take off buf @ bs @ drop (off + length bs) buf) else None)"

definition first_byte :: "Header \<Rightarrow> u8" where
  "first_byte header =
     (if is_fin header then 0x80 else 0) OR (if is_rsv1 header then 0x40 else 0) OR
     (if is_rsv2 header then 0x20 else 0) OR (if is_rsv3 header then 0x10 else 0) OR
     u8_from_opcode (opcode header)"

text \<open>The length field is written behind the first byte; the answer is the buffer and the offset reached.\<close>

definition encode_len :: "bytes \<Rightarrow> u8 \<Rightarrow> usize \<Rightarrow> (bytes \<times> nat) option" where
  "encode_len buf second_byte len =
     (if len < ucast TWO_EXT then
        map_option (\<lambda>buf. (buf, 2)) (write_at buf 1 [second_byte OR ucast len])
      else if len \<le> 0xFFFF then
        Option.bind (write_at buf 1 [second_byte OR TWO_EXT]) (\<lambda>buf.
        map_option (\<lambda>buf. (buf, 4)) (write_at buf 2 (to_be_bytes 2 (ucast len :: u16))))
      else
        Option.bind (write_at buf 1 [second_byte OR EIGHT_EXT]) (\<lambda>buf.
        map_option (\<lambda>buf. (buf, 10)) (write_at buf 2 (to_be_bytes 8 (as_u64 len)))))"

definition encode_header :: "Codec \<Rightarrow> Header \<Rightarrow> (Codec \<times> bytes) option" where
  "encode_header self header =
     Option.bind (write_at (c_header_buffer self) 0 [first_byte header]) (\<lambda>buf.
     Option.bind (encode_len buf (if is_masked header then 0x80 else 0) (payload_len header)) (\<lambda>(buf, offset).
     Option.bind
       (if is_masked header then
          map_option (\<lambda>buf. (buf, offset + 4)) (write_at buf offset (to_be_bytes 4 (mask header)))
        else Some (buf, offset)) (\<lambda>(buf, offset).
     if offset \<le> length buf then Some (self\<lparr>c_header_buffer := buf\<rparr>, take offset buf) else None)))"

text \<open>\<^verbatim>\<open>data.iter_mut().zip(mask.iter().cycle())\<close>: \<open>ks\<close> is the key, \<open>rest\<close> what is left of this round.\<close>

fun xor_cycle :: "bytes \<Rightarrow> bytes \<Rightarrow> bytes \<Rightarrow> bytes" where
  "xor_cycle ks rest [] = []"
| "xor_cycle ks (k # rest) (b # bs) = (b XOR k) # xor_cycle ks rest bs"
| "xor_cycle [] [] (b # bs) = b # bs"
| "xor_cycle (k # ks) [] (b # bs) = (b XOR k) # xor_cycle (k # ks) ks bs"

definition apply_mask :: "Header \<Rightarrow> bytes \<Rightarrow> bytes" where
  "apply_mask header data =
     (if is_masked header then let key = to_be_bytes 4 (mask header) in xor_cycle key key data else data)"


section \<open>Operation codes and reserved bits\<close>

text \<open>The contract of a byte-valued enumeration: \<^verbatim>\<open>TryFrom<u8>\<close> and \<^verbatim>\<open>From<_> for u8\<close> invert each other.\<close>

locale byte_enum =
  fixes try_from :: "u8 \<Rightarrow> 'e + 'a" and into :: "'a \<Rightarrow> u8"
  assumes try_from_into: "try_from (into a) = Inr a"
    and into_try_from: "try_from b = Inr a \<Longrightarrow> into a = b"
begin

lemma into_eq_iff: "into a = into b \<longleftrightarrow> a = b"
  by (metis try_from_into sum.inject(2))

lemma try_from_iff: "try_from b = Inr a \<longleftrightarrow> into a = b"
  using try_from_into into_try_from by blast

lemma try_from_ok_iff: "is_ok (try_from b) \<longleftrightarrow> b \<in> range into"
  by (auto simp: is_ok_iff try_from_iff)

end

interpretation opcode: byte_enum opcode_try_from u8_from_opcode
proof
  fix oc
  show "opcode_try_from (u8_from_opcode oc) = Inr oc"
    by (cases oc) (simp_all add: opcode_try_from_def)
next
  fix b oc
  assume "opcode_try_from b = Inr oc"
  then show "u8_from_opcode oc = b"
    by (auto simp: opcode_try_from_def split: if_splits)
qed

lemma opcode_nibble: "u8_from_opcode oc AND 0xF = u8_from_opcode oc"
  by (cases oc) simp_all

lemma control_not_reserved: "is_control oc \<Longrightarrow> \<not> is_reserved oc"
  by (cases oc) simp_all

lemma opcode_try_from_nibble: "\<exists>oc. opcode_try_from (b AND 0xF) = Inr oc"
proof -
  have "list_all (\<lambda>k. is_ok (opcode_try_from (of_nat k))) [0..<16]"
    by (simp add: opcode_try_from_def upt_rec)
  then have all: "\<And>k. k < 16 \<Longrightarrow> is_ok (opcode_try_from (of_nat k))"
    by (simp only: list_all_iff set_upt) simp
  have "b AND 0xF \<le> 0xF" by (rule word_and_le1)
  then have "unat (b AND 0xF) < 16" by (simp add: word_le_nat_alt)
  from all [OF this] show ?thesis by (simp add: is_ok_iff)
qed

section \<open>The wire format of a header\<close>

text \<open>The layout of RFC 6455, section 5.2, as a reference for \<open>encode_header\<close>.\<close>

definition len_code :: "usize \<Rightarrow> u8" where
  "len_code len = (if len < 126 then ucast len else if len \<le> 0xFFFF then 126 else 127)"

definition ext_len :: "usize \<Rightarrow> bytes" where
  "ext_len len = (if len < 126 then [] else if len \<le> 0xFFFF then to_be_bytes 2 (ucast len :: u16) else to_be_bytes 8 len)"

text \<open>
  The first byte: FIN, the three reserved bits and the opcode, from the highest bit to the lowest. Opcodes are numbered as in the
  table of the RFC: the number of an opcode is its position there.
\<close>

definition rfc_opcodes :: "OpCode list" where
  "rfc_opcodes =
     [OpCode.Continue, OpCode.Text, OpCode.Binary, Reserved3, Reserved4, Reserved5, Reserved6, Reserved7,
      OpCode.Close, OpCode.Ping, OpCode.Pong, Reserved11, Reserved12, Reserved13, Reserved14, Reserved15]"

definition opcode_number :: "OpCode \<Rightarrow> nat" where
  "opcode_number oc = length (takeWhile (\<lambda>oc'. oc' \<noteq> oc) rfc_opcodes)"

definition rfc_first_byte :: "Header \<Rightarrow> u8" where
  "rfc_first_byte h =
     of_nat (128 * of_bool (h_fin h) + 64 * of_bool (h_rsv1 h) + 32 * of_bool (h_rsv2 h) + 16 * of_bool (h_rsv3 h) + opcode_number (h_opcode h))"

definition header_bytes :: "Header \<Rightarrow> bytes" where
  "header_bytes h =
     rfc_first_byte h # ((if h_masked h then 0x80 else 0) OR len_code (h_payload_len h)) #
     ext_len (h_payload_len h) @ (if h_masked h then to_be_bytes 4 (h_mask h) else [])"

text \<open>What a header must satisfy to be acceptable to a codec.\<close>

definition wf_header :: "Codec \<Rightarrow> Header \<Rightarrow> bool" where
  "wf_header c h \<longleftrightarrow>
     \<not> is_reserved (h_opcode h) \<and>
     (is_control (h_opcode h) \<longrightarrow> h_fin h \<and> h_payload_len h \<le> 125) \<and>
     (h_rsv1 h \<longrightarrow> c_reserved_bits c AND 4 \<noteq> 0) \<and>
     (h_rsv2 h \<longrightarrow> c_reserved_bits c AND 2 \<noteq> 0) \<and>
     (h_rsv3 h \<longrightarrow> c_reserved_bits c AND 1 \<noteq> 0) \<and>
     h_payload_len h \<le> c_max_data_size c \<and>
     (\<not> h_masked h \<longrightarrow> h_mask h = 0)"

definition codec_ok :: "Codec \<Rightarrow> bool" where
  "codec_ok c \<longleftrightarrow> length (c_header_buffer c) = MAX_HEADER_SIZE"

lemma length_header_bytes: "2 \<le> length (header_bytes h)" "length (header_bytes h) \<le> MAX_HEADER_SIZE"
  by (simp_all add: header_bytes_def ext_len_def model_defs)

text \<open>The code builds that byte from masks.\<close>

lemma rfc_first_byte: "rfc_first_byte h = first_byte h"
proof -
  have "(of_nat (128 * of_bool a + 64 * of_bool b + 32 * of_bool c + 16 * of_bool d + opcode_number oc) :: u8) =
      (if a then 0x80 else 0) OR (if b then 0x40 else 0) OR (if c then 0x20 else 0) OR (if d then 0x10 else 0) OR u8_from_opcode oc" for a b c d oc
    by (cases a; cases b; cases c; cases d; cases oc; simp add: opcode_number_def rfc_opcodes_def)
  then show ?thesis by (simp add: rfc_first_byte_def first_byte_def model_defs)
qed

lemma first_byte_bits:
  "(first_byte h AND 0x80 \<noteq> 0) = h_fin h" "(first_byte h AND 0x40 \<noteq> 0) = h_rsv1 h"
  "(first_byte h AND 0x20 \<noteq> 0) = h_rsv2 h" "(first_byte h AND 0x10 \<noteq> 0) = h_rsv3 h"
  "first_byte h AND 0xF = u8_from_opcode (h_opcode h)"
  unfolding first_byte_def is_fin_def is_rsv1_def is_rsv2_def is_rsv3_def opcode_def
  by (cases "h_fin h"; cases "h_rsv1 h"; cases "h_rsv2 h"; cases "h_rsv3 h"; cases "h_opcode h"; simp)+

lemma low7_and: "(w::u8) < 128 \<Longrightarrow> w AND 0x7F = w"
  using less_mask_eq [of w 7] by (simp add: mask_eq_exp_minus_1)

lemma len_code_less: "len_code n < 128"
  by (auto simp: len_code_def word_less_nat_alt unat_ucast_small)

lemma len_cases [case_names small two eight]:
  fixes n :: usize
  obtains "n < 126" "unat n < 126" "len_code n = ucast n" "len_code n \<noteq> 126" "len_code n \<noteq> 127" "ext_len n = []"
  | "\<not> n < 126" "n \<le> 0xFFFF" "unat n < 65536" "len_code n = 126" "ext_len n = to_be_bytes 2 (ucast n :: u16)"
  | "\<not> n < 126" "\<not> n \<le> 0xFFFF" "len_code n = 127" "ext_len n = to_be_bytes 8 n"
proof (cases "n < 126")
  case True
  then have u: "unat n < 126" by (simp add: word_less_nat_alt)
  then have "unat (ucast n :: u8) < 126" by (simp add: unat_ucast_small)
  then have "(ucast n :: u8) \<noteq> 126 \<and> (ucast n :: u8) \<noteq> 127" by auto
  then show ?thesis using that(1) True u by (simp add: len_code_def ext_len_def)
next
  case False
  then show ?thesis
    using that(2,3) by (cases "n \<le> 0xFFFF") (simp_all add: len_code_def ext_len_def word_le_nat_alt)
qed

lemmas len_code_low = low7_and [OF len_code_less]

lemma len_code_not80: "len_code n AND 0x80 = 0"
proof -
  have "len_code n AND 0x80 = (len_code n AND 0x7F) AND 0x80" by (simp add: len_code_low)
  also have "\<dots> = len_code n AND (0x7F AND 0x80)" by (rule and.assoc)
  finally show ?thesis by simp
qed

lemma second_byte_bits:
  "(((if m then 0x80 else 0) OR len_code n) AND 0x80 \<noteq> 0) = m"
  "((if m then 0x80 else 0) OR len_code n) AND 0x7F = len_code n"
  by (simp_all add: bit.conj_disj_distrib2 len_code_low len_code_not80)

lemma decode_len_header:
  "decode_len (a # b # ext_len n @ rest) (len_code n) 2 = Inl (n, 2 + length (ext_len n))"
  by (cases n rule: len_cases) (simp_all add: decode_len_def model_defs ucast_ucast_small)

lemma decode_flags_first_byte:
  assumes "wf_header c h"
  shows "decode_flags c (first_byte h) b =
    Inr (h\<lparr>h_masked := (b AND 0x80 \<noteq> 0), h_mask := 0, h_payload_len := 0\<rparr>)"
  using assms
  by (simp add: decode_flags_def first_byte_bits opcode.try_from_into wf_header_def Let_def model_defs header_new_def)

section \<open>Decoding\<close>

lemma decode_flags_wf:
  assumes "decode_flags c a b = Inr h"
  shows "wf_header c (h\<lparr>h_masked := True\<rparr>) \<and> h_mask h = 0"
proof (cases "opcode_try_from (a AND 0xF)")
  case (Inr oc)
  then show ?thesis using assms
    unfolding decode_flags_def Let_def wf_header_def model_defs header_new_def
    by (simp split: if_splits) (drule sym, auto)
qed (use assms in \<open>simp add: decode_flags_def\<close>)

lemma decode_len_append:
  assumes "offset \<le> length bs"
  shows "decode_len bs code offset = Inl r \<Longrightarrow> decode_len (bs @ q) code offset = Inl r"
    and "decode_len bs code offset = Inr n \<Longrightarrow> length q < n \<Longrightarrow> decode_len (bs @ q) code offset = Inr (n - length q)"
    and "decode_len bs code offset = Inr n \<Longrightarrow> 0 < n \<and> length bs + n \<le> offset + 8"
    and "decode_len bs code offset = Inl (len, off) \<Longrightarrow> offset \<le> off \<and> off \<le> length bs \<and> off \<le> offset + 8"
  using assms by (auto simp: decode_len_def split: if_splits)

lemma decode_rest_append:
  assumes "offset \<le> length bs"
  shows "decode_rest c bs h len offset = Inl e \<Longrightarrow> decode_rest c (bs @ q) h len offset = Inl e"
    and "decode_rest c bs h len offset = Inr (Done h' off) \<Longrightarrow> decode_rest c (bs @ q) h len offset = Inr (Done h' off)"
    and "decode_rest c bs h len offset = Inr (NeedMore n) \<Longrightarrow> length q < n \<Longrightarrow>
           decode_rest c (bs @ q) h len offset = Inr (NeedMore (n - length q))"
    and "decode_rest c bs h len offset = Inr (NeedMore n) \<Longrightarrow> 0 < n \<and> length bs + n \<le> offset + 4"
    and "decode_rest c bs h len offset = Inr (Done h' off) \<Longrightarrow> offset \<le> off \<and> off \<le> length bs \<and> off \<le> offset + 4"
  using assms by (auto simp: decode_rest_def Let_def split: if_splits)

lemma decode_header_long:
  "2 \<le> length bs \<Longrightarrow> decode_header c (bs @ q) =
     (case decode_flags c (bs ! 0) (bs ! 1) of
        Inl e \<Rightarrow> Inl e
      | Inr h \<Rightarrow> (case decode_len (bs @ q) (bs ! 1 AND 0x7F) 2 of
          Inr n \<Rightarrow> Inr (NeedMore n)
        | Inl (len, off) \<Rightarrow> decode_rest c (bs @ q) h len off))"
  by (cases bs; cases "tl bs"; clarsimp simp: decode_header_def split: sum.split)

lemma decode_header_cases [case_names short flags len rest]:
  obtains "length bs < 2" "decode_header c bs = Inr (NeedMore (2 - length bs))"
  | e where "2 \<le> length bs" "\<And>q. decode_header c (bs @ q) = Inl e"
  | n where "2 \<le> length bs" "decode_header c bs = Inr (NeedMore n)" "0 < n" "length bs + n \<le> 10"
      "\<And>q. length q < n \<Longrightarrow> decode_header c (bs @ q) = Inr (NeedMore (n - length q))"
  | h len off where "2 \<le> off" "off \<le> length bs" "off \<le> 10"
      "decode_flags c (bs ! 0) (bs ! 1) = Inr h"
      "\<And>q. decode_header c (bs @ q) = decode_rest c (bs @ q) h len off"
proof (cases "length bs < 2")
  case True
  then show ?thesis using that(1) by (simp add: decode_header_def)
next
  case False
  then have long: "2 \<le> length bs" by simp
  show ?thesis
  proof (cases "decode_flags c (bs ! 0) (bs ! 1)")
    case (Inl e)
    then show ?thesis using that(2) long by (simp add: decode_header_long)
  next
    case flags: (Inr h)
    show ?thesis
    proof (cases "decode_len bs (bs ! 1 AND 0x7F) 2")
      case (Inl r)
      then obtain len off where "decode_len bs (bs ! 1 AND 0x7F) 2 = Inl (len, off)" by (cases r) auto
      then show ?thesis
        using that(4) [of off h len] long flags decode_len_append [OF long]
        by (force simp: decode_header_long)
    next
      case (Inr n)
      then show ?thesis
        using that(3) [of n] long flags decode_len_append(2,3) [OF long Inr]
          decode_header_long [OF long, of c "[]"]
        by (simp add: decode_header_long)
    qed
  qed
qed

lemma decode_header_stable:
  assumes "decode_header c bs = r" "\<And>n. r \<noteq> Inr (NeedMore n)"
  shows "decode_header c (bs @ q) = r"
proof (cases rule: decode_header_cases [of bs c])
  case (flags e)
  then show ?thesis using assms(1) flags(2) [of "[]"] by simp
next
  case (rest h len off)
  have eq: "decode_rest c bs h len off = r" using rest(5) [of "[]"] assms(1) by simp
  show ?thesis
  proof (cases r)
    case (Inl e)
    with eq show ?thesis using rest(5) decode_rest_append(1) [OF rest(2)] by simp
  next
    case (Inr p)
    with eq assms(2) show ?thesis using rest(5) decode_rest_append(2) [OF rest(2)] by (cases p) auto
  qed
qed (use assms in auto)

lemma decode_header_NeedMore:
  assumes "decode_header c bs = Inr (NeedMore n)"
  shows "0 < n \<and> length bs + n \<le> 14 \<and> (\<forall>q. length q < n \<longrightarrow> decode_header c (bs @ q) = Inr (NeedMore (n - length q)))"
proof (cases rule: decode_header_cases [of bs c])
  case short
  then show ?thesis using assms by (auto simp: decode_header_def)
next
  case (flags e)
  then show ?thesis using assms by (metis append_Nil2 Inl_Inr_False)
next
  case (len m)
  then show ?thesis using assms by auto
next
  case (rest h len off)
  have "decode_rest c bs h len off = Inr (NeedMore n)" using rest(5) [of "[]"] assms by simp
  then show ?thesis using rest decode_rest_append(3,4) [OF rest(2)] by fastforce
qed

lemma decode_rest_wf:
  assumes "decode_rest c bs h len off = Inr (Done h' off')" "wf_header c (h\<lparr>h_masked := True\<rparr>) \<and> h_mask h = 0"
  shows "wf_header c h'"
proof -
  have lim: "\<not> (125 < len \<and> is_control (h_opcode h))" "\<not> c_max_data_size c < len"
    using assms(1) by (auto simp: decode_rest_def model_defs split: if_splits)
  have "h' = h\<lparr>h_payload_len := len, h_mask := h_mask h'\<rparr> \<and> (\<not> h_masked h \<longrightarrow> h_mask h' = h_mask h)"
    using assms(1) by (simp add: decode_rest_def Let_def model_defs lim split: if_splits) (auto simp: model_defs)
  then show ?thesis
    using assms(2) lim unfolding wf_header_def by (cases h; cases h') (simp add: not_less, blast)
qed

lemma decode_header_Done:
  assumes "decode_header c bs = Inr (Done h off)"
  shows "wf_header c h \<and> 2 \<le> off \<and> off \<le> length bs \<and> off \<le> 14"
proof (cases rule: decode_header_cases [of bs c])
  case short
  then show ?thesis using assms by auto
next
  case (flags e)
  then show ?thesis using assms by (metis append_Nil2 Inl_Inr_False)
next
  case (len m)
  then show ?thesis using assms by auto
next
  case (rest h' len off')
  have r: "decode_rest c bs h' len off' = Inr (Done h off)" using rest(5) [of "[]"] assms by simp
  have "wf_header c h" by (rule decode_rest_wf [OF r decode_flags_wf [OF rest(4)]])
  then show ?thesis using rest decode_rest_append(5) [OF rest(2) r] by simp
qed

section \<open>Encoding and masking\<close>

lemma length_ext_len: "length (ext_len n) \<le> 8"
  by (simp add: ext_len_def)

lemma write_at_take:
  assumes "off + length bs \<le> length buf"
  obtains buf' where "write_at buf off bs = Some buf'" "length buf' = length buf"
    "take (off + length bs) buf' = take off buf @ bs"
  using assms by (simp add: write_at_def)

lemma encode_len_take:
  assumes "length buf = 14" "take 1 buf = [a]"
  obtains buf' off where "encode_len buf s n = Some (buf', off)" "length buf' = 14" "off \<le> 10"
    "take off buf' = a # (s OR len_code n) # ext_len n"
proof -
  obtain b where b: "write_at buf 1 [s OR len_code n] = Some b" "length b = 14" "take 2 b = [a, s OR len_code n]"
    using write_at_take [of 1 "[s OR len_code n]" buf] assms by (auto simp: numeral_2_eq_2)
  obtain b' where b': "write_at b 2 (ext_len n) = Some b'" "length b' = 14"
      "take (2 + length (ext_len n)) b' = a # (s OR len_code n) # ext_len n"
    using write_at_take [of 2 "ext_len n" b] b length_ext_len [of n] by auto
  show ?thesis
  proof (cases n rule: len_cases)
    case small
    then show ?thesis using that [of b 2] b by (simp add: encode_len_def model_defs)
  next
    case two
    then show ?thesis using that [of b' 4] b b' by (simp add: encode_len_def model_defs)
  next
    case eight
    then show ?thesis using that [of b' 10] b b' by (simp add: encode_len_def model_defs)
  qed
qed

lemma encode_header_bytes:
  assumes "codec_ok c"
  shows "\<exists>buf. length buf = MAX_HEADER_SIZE \<and> encode_header c h = Some (c\<lparr>c_header_buffer := buf\<rparr>, header_bytes h)"
proof -
  let ?second = "if is_masked h then 0x80 else 0 :: u8"
  obtain b1 where b1: "write_at (c_header_buffer c) 0 [first_byte h] = Some b1" "length b1 = 14" "take 1 b1 = [first_byte h]"
    using write_at_take [of 0 "[first_byte h]" "c_header_buffer c"] assms by (auto simp: codec_ok_def model_defs)
  obtain b3 off where b3: "encode_len b1 ?second (payload_len h) = Some (b3, off)" "length b3 = 14" "off \<le> 10"
      "take off b3 = first_byte h # (?second OR len_code (payload_len h)) # ext_len (payload_len h)"
    using encode_len_take [OF b1(2,3)] by blast
  obtain b where "write_at b3 off (to_be_bytes 4 (mask h)) = Some b" "length b = 14"
      "take (off + 4) b = take off b3 @ to_be_bytes 4 (mask h)"
    using write_at_take [of off "to_be_bytes 4 (mask h)" b3] b3 by auto
  then show ?thesis using b1 b3
    by (cases "is_masked h") (auto simp: encode_header_def header_bytes_def rfc_first_byte model_defs)
qed

lemma length_xor_cycle [simp]: "length (xor_cycle ks rest bs) = length bs"
  by (induction ks rest bs rule: xor_cycle.induct) auto

lemma xor_cycle_twice: "xor_cycle ks rest (xor_cycle ks rest bs) = bs"
  by (induction ks rest bs rule: xor_cycle.induct) (auto simp: xor.assoc)

lemma length_apply_mask [simp]: "length (apply_mask h p) = length p"
  by (simp add: apply_mask_def Let_def)

lemma apply_mask_twice [simp]: "apply_mask h (apply_mask h p) = p"
  by (simp add: apply_mask_def Let_def xor_cycle_twice)

lemma nth_xor_cycle:
  assumes "ks \<noteq> []" "j \<le> length ks" "i < length bs"
  shows "xor_cycle ks (drop j ks) bs ! i = bs ! i XOR ks ! ((j + i) mod length ks)"
  using assms(2,3)
proof (induction bs arbitrary: i j)
  case (Cons b bs)
  obtain k ks' where ks: "ks = k # ks'" using assms(1) by (cases ks) auto
  show ?case
  proof (cases "j < length ks")
    case True
    then have "drop j ks = ks ! j # drop (Suc j) ks" by (simp add: Cons_nth_drop_Suc)
    then show ?thesis using Cons.IH [of "Suc j"] Cons.prems True by (cases i) auto
  next
    case False
    then have j: "j = length ks" "drop j ks = []" using Cons.prems(1) by auto
    moreover have "(length ks + i) mod length ks = i mod length ks" by simp
    ultimately show ?thesis using Cons.IH [of 1] Cons.prems(2) ks by (cases i) auto
  qed
qed simp

lemma decode_header_bytes:
  assumes "wf_header c h"
  shows "decode_header c (header_bytes h @ rest) = Inr (Done h (length (header_bytes h)))"
proof -
  have "\<not> h_payload_len h > c_max_data_size c" 
    "\<not> (h_payload_len h > 125 \<and> is_control (h_opcode h))" "\<not> h_masked h \<Longrightarrow> h_mask h = 0"
    using assms by (auto simp: wf_header_def)
  then show ?thesis
    by (cases "h_masked h") (simp_all add: decode_header_def header_bytes_def rfc_first_byte decode_flags_first_byte [OF assms]
      second_byte_bits [of True, simplified] second_byte_bits [of False, simplified] 
      decode_len_header [of _ _ _ "[]", simplified] decode_len_header decode_rest_def Let_def model_defs)
qed


section \<open>The codec as an interface\<close>

text \<open>
  What the connection relies on: a decoder over a growing buffer that inverts the encoder on
  acceptable headers, whose answers other than \<^verbatim>\<open>NeedMore\<close> do not depend on what follows, and which
  asks for a positive number of bytes.
\<close>

locale frame_codec =
  fixes decode :: "bytes \<Rightarrow> 'e + ('h, nat) Parsing"
    and encode :: "'h \<Rightarrow> bytes"
    and acceptable :: "'h \<Rightarrow> bool"
    and limit :: nat
  assumes decode_encode: "acceptable h \<Longrightarrow> decode (encode h @ rest) = Inr (Done h (length (encode h)))"
    and decode_stable: "decode bs = r \<Longrightarrow> (\<And>n. r \<noteq> Inr (NeedMore n)) \<Longrightarrow> decode (bs @ q) = r"
    and need_more: "decode bs = Inr (NeedMore n) \<Longrightarrow> 0 < n \<and> length bs + n \<le> limit"
    and need_all: "decode bs = Inr (NeedMore n) \<Longrightarrow> length q < n \<Longrightarrow> decode (bs @ q) = Inr (NeedMore (n - length q))"
    and decoded: "decode bs = Inr (Done h off) \<Longrightarrow> acceptable h \<and> 0 < off \<and> off \<le> length bs"
begin

text \<open>A prefix of an encoded header decodes to that header or asks for more, and then more is to come.\<close>

lemma prefix_decode:
  assumes "acceptable h" "bs @ q = encode h @ rest"
  shows "decode bs = Inr (Done h (length (encode h))) \<or> (\<exists>n>0. decode bs = Inr (NeedMore n) \<and> q \<noteq> [])"
proof -
  have all: "decode (bs @ q) = Inr (Done h (length (encode h)))"
    using decode_encode [OF assms(1)] assms(2) by simp
  show ?thesis
  proof (cases "\<exists>n. decode bs = Inr (NeedMore n)")
    case True
    then show ?thesis using all need_more by auto
  next
    case False
    then show ?thesis using decode_stable [OF refl, of bs q] all by auto
  qed
qed

lemma strict_prefix_decode:
  assumes "acceptable h" "encode h = bs @ q" "q \<noteq> []"
  shows "\<exists>n>0. decode bs = Inr (NeedMore n)"
  using prefix_decode [OF assms(1), of bs q "[]"] decoded [of bs h] assms(2,3) by force

text \<open>The decoder never asks for more than the rest of the header.\<close>

lemma need_within:
  assumes "acceptable h" "bs @ q = encode h @ rest" "decode bs = Inr (NeedMore n)"
  shows "length bs + n \<le> length (encode h)"
proof (rule ccontr)
  assume more: "\<not> ?thesis"
  show False
  proof (cases "length bs < length (encode h)")
    case True
    then obtain q' where q': "encode h = bs @ q'"
      using assms(2) by (metis append_eq_append_conv_if append_eq_conv_conj append_take_drop_id less_or_eq_imp_le not_less)
    then show False using need_all [OF assms(3), of q'] decode_encode [OF assms(1), of "[]"] more by simp
  next
    case False
    then obtain r where "bs = encode h @ r"
      using assms(2) by (metis append_eq_append_conv_if append_take_drop_id linorder_not_less)
    then show False using decode_encode [OF assms(1), of r] assms(3) by simp
  qed
qed

lemma encode_inj:
  assumes "acceptable h" "acceptable h'" "encode h @ rest = encode h' @ rest'"
  shows "h = h' \<and> rest = rest'"
  using decode_encode [OF assms(1), of rest] decode_encode [OF assms(2), of rest'] assms(3) by simp

end

lemma frame_codec_codec: "frame_codec (decode_header c) header_bytes (wf_header c) MAX_HEADER_SIZE"
proof
  fix h rest
  assume "wf_header c h"
  then show "decode_header c (header_bytes h @ rest) = Inr (Done h (length (header_bytes h)))"
    by (rule decode_header_bytes)
next
  fix bs :: bytes and r q
  assume "decode_header c bs = r" "\<And>n. r \<noteq> Inr (NeedMore n)"
  then show "decode_header c (bs @ q) = r" by (rule decode_header_stable)
next
  fix bs n
  assume "decode_header c bs = Inr (NeedMore n)"
  then show "0 < n \<and> length bs + n \<le> MAX_HEADER_SIZE"
    using decode_header_NeedMore by (auto simp: model_defs)
next
  fix bs n and q :: bytes
  assume "decode_header c bs = Inr (NeedMore n)" "length q < n"
  then show "decode_header c (bs @ q) = Inr (NeedMore (n - length q))"
    using decode_header_NeedMore by blast
next
  fix bs h off
  assume "decode_header c bs = Inr (Done h off)"
  then show "wf_header c h \<and> 0 < off \<and> off \<le> length bs"
    using decode_header_Done by fastforce
qed

interpretation codec: frame_codec "decode_header c" header_bytes "wf_header c" MAX_HEADER_SIZE for c
  by (rule frame_codec_codec)

section \<open>Properties of the codec\<close>

text \<open>
  C35. Round trip: what a codec encodes, any codec that accepts the header decodes back to
  the same header, consuming exactly the encoded bytes, whatever follows them.
\<close>

theorem encode_decode_header:
  assumes "codec_ok c" "wf_header d h"
  shows "\<exists>c' bs. encode_header c h = Some (c', bs) \<and>
           decode_header d (bs @ rest) = Inr (Done h (length bs))"
  using encode_header_bytes [OF assms(1), of h] codec.decode_encode [OF assms(2), of rest] by auto

definition example_header :: Header where
  "example_header = \<lparr>h_fin = True, h_rsv1 = False, h_rsv2 = False, h_rsv3 = False, h_masked = True,
     h_opcode = Text, h_mask = 0x37FA213D, h_payload_len = 300\<rparr>"

lemma codec_new_ok [simp]: "codec_ok codec_new"
  by (simp add: codec_ok_def codec_new_def)

lemma example_header_ok: "wf_header codec_new example_header"
  by (simp add: wf_header_def example_header_def codec_new_def)

theorem encode_decode_header_witness:
  "\<exists>c' bs. encode_header codec_new example_header = Some (c', bs) \<and>
     decode_header codec_new (bs @ [1, 2, 3]) = Inr (Done example_header (length bs))"
  by (rule encode_decode_header [OF codec_new_ok example_header_ok])

text \<open>
  C36. Encoding is the layout of RFC 6455, section 5.2: in the first byte FIN, the reserved bits and the number of the opcode in
  the table of the RFC; in the second the mask flag and the length, or 126 or 127 with the length in the next two or eight bytes,
  whichever is the shortest; then the mask. It never writes outside the 14-byte scratch buffer (no panic), and changes
  nothing else of the codec.
\<close>

theorem encode_header_layout:
  assumes "codec_ok c"
  shows "\<exists>c'. encode_header c h = Some (c', header_bytes h) \<and> codec_ok c' \<and>
           c_max_data_size c' = c_max_data_size c \<and> c_reserved_bits c' = c_reserved_bits c \<and>
           length (header_bytes h) =
             2 + (if unat (h_payload_len h) < 126 then 0 else if unat (h_payload_len h) < 65536 then 2 else 8) +
             (if h_masked h then 4 else 0)"
proof -
  obtain buf where "length buf = MAX_HEADER_SIZE" "encode_header c h = Some (c\<lparr>c_header_buffer := buf\<rparr>, header_bytes h)"
    using encode_header_bytes [OF assms] by blast
  then show ?thesis
    by (auto simp: codec_ok_def header_bytes_def ext_len_def word_less_nat_alt word_le_nat_alt)
qed

theorem encode_header_layout_witness:
  "\<exists>c'. encode_header codec_new example_header = Some (c', [0x81, 0xFE, 0x01, 0x2C, 0x37, 0xFA, 0x21, 0x3D])"
  using encode_header_layout [OF codec_new_ok, of example_header]
  by (auto simp: example_header_def header_bytes_def rfc_first_byte_def opcode_number_def rfc_opcodes_def ext_len_def len_code_def to_be_bytes_2 to_be_bytes_4)

text \<open>
  C37. A decoded header is acceptable to the codec: a known opcode, control frames whole and at most
  125 bytes long, reserved bits only if an extension claimed them, the payload within the
  configured maximum; the header lies within the buffer and has at most 14 bytes.
\<close>

theorem decode_header_sound:
  assumes "decode_header c bs = Inr (Done h off)"
  shows "wf_header c h \<and> 2 \<le> off \<and> off \<le> length bs \<and> off \<le> MAX_HEADER_SIZE"
  using decode_header_Done [OF assms] by (simp add: model_defs)

theorem decode_header_sound_witness:
  "wf_header codec_new example_header \<and> length (header_bytes example_header) \<le> MAX_HEADER_SIZE"
  using decode_header_sound [OF codec.decode_encode [OF example_header_ok, of "[]"]] by simp

text \<open>
  C40. Incremental decoding: when the decoder asks for \<open>n\<close> more bytes, \<open>n\<close> is positive, does not lead
  past the longest header, and is needed: with fewer it still asks for the rest.
\<close>

theorem decode_header_need_more:
  assumes "decode_header c bs = Inr (NeedMore n)"
  shows "0 < n \<and> length bs + n \<le> MAX_HEADER_SIZE \<and>
    (\<forall>q. length q < n \<longrightarrow> decode_header c (bs @ q) = Inr (NeedMore (n - length q)))"
  using decode_header_NeedMore [OF assms] by (simp add: model_defs)

theorem decode_header_need_more_witness:
  "decode_header codec_new ([0x82, 0xFE] @ [0x01]) = Inr (NeedMore 1)"
proof -
  have "decode_header codec_new [0x82, 0xFE] = Inr (NeedMore 2)"
    by (simp add: decode_header_def decode_flags_def decode_len_def opcode_try_from_def Let_def model_defs)
  from decode_header_need_more [OF this] have "\<forall>q. length q < 2 \<longrightarrow> decode_header codec_new ([0x82, 0xFE] @ q) = Inr (NeedMore (2 - length q))" by blast
  from this [rule_format, of "[0x01]"] show ?thesis by simp
qed

text \<open>
  C38. Decoding is stable: once the decoder has answered with a header or an error, bytes that arrive
  later do not change the answer.
\<close>

theorem decode_header_prefix_stable:
  assumes "decode_header c bs = r" "\<forall>n. r \<noteq> Inr (NeedMore n)"
  shows "decode_header c (bs @ q) = r"
  using assms codec.decode_stable by blast

lemma reserved_opcode_example: "decode_header codec_new [0x83, 0x00] = Inl ReservedOpCode"
  by (simp add: decode_header_def decode_flags_def opcode_try_from_def Let_def)

theorem decode_header_prefix_stable_witness:
  "decode_header codec_new ([0x83, 0x00] @ [7, 7]) = Inl ReservedOpCode"
  by (rule decode_header_prefix_stable [OF reserved_opcode_example]) simp

text \<open>
  C39. Which errors the first two bytes cause: the error for unknown opcodes cannot occur, since every
  four-bit code is named; reserved opcodes and fragmented control frames are recognised exactly.
\<close>

theorem decode_header_errors:
  assumes "2 \<le> length bs"
  shows "decode_header c bs \<noteq> Inl UnknownOpCode \<and>
   (decode_header c bs = Inl ReservedOpCode \<longleftrightarrow> bs ! 0 AND 0xF \<in> {3, 4, 5, 6, 7, 11, 12, 13, 14, 15}) \<and>
   (decode_header c bs = Inl FragmentedControl \<longleftrightarrow> bs ! 0 AND 0xF \<in> {8, 9, 10} \<and> bs ! 0 AND 0x80 = 0)"
proof -
  obtain oc where oc: "opcode_try_from (bs ! 0 AND 0xF) = Inr oc" using opcode_try_from_nibble by blast
  then have v: "bs ! 0 AND 0xF = u8_from_opcode oc" using opcode.into_try_from by metis
  have rest: "decode_rest c bs h len off \<notin> {Inl UnknownOpCode, Inl ReservedOpCode, Inl FragmentedControl}" for h len off
    by (simp add: decode_rest_def Let_def)
  have flags: "decode_flags c (bs ! 0) (bs ! 1) \<noteq> Inl UnknownOpCode"
   "decode_flags c (bs ! 0) (bs ! 1) = Inl ReservedOpCode \<longleftrightarrow> is_reserved oc"
   "decode_flags c (bs ! 0) (bs ! 1) = Inl FragmentedControl \<longleftrightarrow> is_control oc \<and> bs ! 0 AND 0x80 = 0"
    by (auto simp: decode_flags_def oc Let_def dest: control_not_reserved)
  have "bs ! 0 AND 0xF \<in> {3, 4, 5, 6, 7, 11, 12, 13, 14, 15} \<longleftrightarrow> is_reserved oc"
    "bs ! 0 AND 0xF \<in> {8, 9, 10} \<longleftrightarrow> is_control oc"
    unfolding v by (cases oc; simp)+
  then show ?thesis
    using assms decode_header_long [of bs c "[]"] flags rest by (auto split: sum.splits)
qed

theorem decode_header_errors_witness:
  "decode_header codec_new [0x09, 0x00] = Inl FragmentedControl"
  using decode_header_errors [of "[0x09, 0x00]" codec_new] by simp

text \<open>
  Masking keeps the length, combines byte \<open>i\<close> with byte \<open>i mod 4\<close> of the big-endian key, and is
  undone by masking again with the same header.
\<close>

theorem apply_mask_spec:
  "length (apply_mask h data) = length data \<and> apply_mask h (apply_mask h data) = data \<and>
   (\<forall>i < length data. apply_mask h data ! i =
      (if h_masked h then data ! i XOR to_be_bytes 4 (h_mask h) ! (i mod 4) else data ! i))"
proof -
  have "to_be_bytes 4 (h_mask h) \<noteq> []"
    by (metis length_to_be_bytes list.size(3) zero_neq_numeral)
  then show ?thesis
    using nth_xor_cycle [of "to_be_bytes 4 (h_mask h)" 0]
    by (simp add: apply_mask_def Let_def xor_cycle_twice model_defs)
qed

theorem apply_mask_spec_witness:
  "apply_mask example_header [0x48] ! 0 = 0x48 XOR to_be_bytes 4 (h_mask example_header) ! 0"
  using apply_mask_spec [of example_header "[0x48]"] by (simp add: example_header_def)

lemma and_bit:
  "(r :: u8) AND 4 = (if bit r 2 then 4 else 0)" "r AND 2 = (if bit r 1 then 2 else 0)"
  "r AND 1 = (if bit r 0 then 1 else 0)"
proof -
  have "r AND push_bit n 1 = (if bit r n then push_bit n 1 else 0)" if "n < 8" for n
    using that by (auto intro!: bit_word_eqI simp: bit_simps)
  from this [of 2] this [of 1] this [of 0]
  show "r AND 4 = (if bit r 2 then 4 else 0)" "r AND 2 = (if bit r 1 then 2 else 0)"
    "r AND 1 = (if bit r 0 then 1 else 0)"
    by simp_all
qed

lemma reserved_bits_add_one:
  "reserved_bits (add_reserved_bits c (r1, r2, r3)) =
     (case reserved_bits c of (o1, o2, o3) \<Rightarrow> (o1 \<or> r1, o2 \<or> r2, o3 \<or> r3))"
  by (cases r1; cases r2; cases r3)
     (simp_all add: reserved_bits_def add_reserved_bits_def Let_def and_bit bit_or_iff bit_simps)

lemma reserved_bits_codec_new [simp]: "reserved_bits codec_new = (False, False, False)"
  by (simp add: reserved_bits_def codec_new_def)

text \<open>
  Adding reserved bits makes exactly the added bits and those in use before allowed; a fresh or
  cleared codec allows none.
\<close>

theorem reserved_bits_add:
  "reserved_bits (add_reserved_bits c (r1, r2, r3)) =
     (case reserved_bits c of (o1, o2, o3) \<Rightarrow> (o1 \<or> r1, o2 \<or> r2, o3 \<or> r3)) \<and>
   reserved_bits codec_new = (False, False, False) \<and>
   reserved_bits (clear_reserved_bits c) = (False, False, False)"
  by (simp add: reserved_bits_add_one) (simp add: reserved_bits_def clear_reserved_bits_def)

end
