(* ===== verification/Std_Str.thy ===== *)
theory Std_Str
  imports Soketto_Prelude
begin

text \<open>
  What the crate uses of Rust's \<^verbatim>\<open>std::str\<close>, on strings as UTF-8 byte sequences: validation
  (\<^verbatim>\<open>from_utf8\<close>, with the error position and length the standard library reports), splitting at an
  ASCII separator, trimming of white space and of quotes, ASCII-case-insensitive comparison, and
  decimal printing and parsing of unsigned integers.
\<close>

section \<open>UTF-8 validation\<close>

datatype Utf8Error = Utf8Error (valid_up_to: nat) (error_len: "nat option")

definition in_range :: "u8 \<Rightarrow> u8 \<Rightarrow> u8 \<Rightarrow> bool" where
  "in_range lo hi b \<longleftrightarrow> lo \<le> b \<and> b \<le> hi"

definition is_cont :: "u8 \<Rightarrow> bool" where
  "is_cont b = in_range 0x80 0xBF b"

text \<open>The second byte allowed after a three-byte and after a four-byte lead.\<close>

definition second3 :: "u8 \<Rightarrow> u8 \<Rightarrow> bool" where
  "second3 a b =
     (if a = 0xE0 then in_range 0xA0 0xBF b
      else if a = 0xED then in_range 0x80 0x9F b
      else is_cont b)"

definition second4 :: "u8 \<Rightarrow> u8 \<Rightarrow> bool" where
  "second4 a b =
     (if a = 0xF0 then in_range 0x90 0xBF b
      else if a = 0xF4 then in_range 0x80 0x8F b
      else is_cont b)"

fun utf8_check :: "nat \<Rightarrow> bytes \<Rightarrow> Utf8Error option" where
  "utf8_check i [] = None"
| "utf8_check i (a # bs) =
     (if a < 0x80 then utf8_check (i + 1) bs
      else if in_range 0xC2 0xDF a then
        (case bs of
           [] \<Rightarrow> Some (Utf8Error i None)
         | b # cs \<Rightarrow> if is_cont b then utf8_check (i + 2) cs else Some (Utf8Error i (Some 1)))
      else if in_range 0xE0 0xEF a then
        (case bs of
           [] \<Rightarrow> Some (Utf8Error i None)
         | b # cs \<Rightarrow>
             if \<not> second3 a b then Some (Utf8Error i (Some 1))
             else (case cs of
                [] \<Rightarrow> Some (Utf8Error i None)
              | c # ds \<Rightarrow> if is_cont c then utf8_check (i + 3) ds else Some (Utf8Error i (Some 2))))
      else if in_range 0xF0 0xF4 a then
        (case bs of
           [] \<Rightarrow> Some (Utf8Error i None)
         | b # cs \<Rightarrow>
             if \<not> second4 a b then Some (Utf8Error i (Some 1))
             else (case cs of
                [] \<Rightarrow> Some (Utf8Error i None)
              | c # ds \<Rightarrow>
                  if \<not> is_cont c then Some (Utf8Error i (Some 2))
                  else (case ds of
                     [] \<Rightarrow> Some (Utf8Error i None)
                   | d # es \<Rightarrow> if is_cont d then utf8_check (i + 4) es else Some (Utf8Error i (Some 3)))))
      else Some (Utf8Error i (Some 1)))"

definition from_utf8 :: "bytes \<Rightarrow> Utf8Error + str" where
  "from_utf8 bs = (case utf8_check 0 bs of None \<Rightarrow> Inr bs | Some e \<Rightarrow> Inl e)"

lemma from_utf8_Inr: "from_utf8 bs = Inr s \<Longrightarrow> s = bs"
  by (auto simp: from_utf8_def split: option.splits)

lemma utf8_check_ascii: "\<forall>b \<in> set bs. b < 0x80 \<Longrightarrow> utf8_check i bs = None"
  by (induction bs arbitrary: i) auto

lemma from_utf8_ascii: "\<forall>b \<in> set bs. b < 0x80 \<Longrightarrow> from_utf8 bs = Inr bs"
  by (simp add: from_utf8_def utf8_check_ascii)

section \<open>Splitting, trimming and comparing\<close>

text \<open>\<^verbatim>\<open>s.split(c)\<close>: the pieces between the separators, always at least one.\<close>

fun split_on :: "u8 \<Rightarrow> bytes \<Rightarrow> bytes list" where
  "split_on c [] = [[]]"
| "split_on c (b # bs) =
     (if b = c then [] # split_on c bs
      else (case split_on c bs of p # ps \<Rightarrow> (b # p) # ps | [] \<Rightarrow> [[b]]))"

lemma split_on_nonempty [simp]: "split_on c bs \<noteq> []"
  by (induction bs) (auto split: list.splits)

lemma split_on_free: "c \<notin> set bs \<Longrightarrow> split_on c bs = [bs]"
  by (induction bs) auto

lemma split_on_append: "c \<notin> set bs \<Longrightarrow> split_on c (bs @ c # cs) = bs # split_on c cs"
  by (induction bs) auto

text \<open>
  \<^verbatim>\<open>str::trim\<close> removes Unicode white space at both ends: U+0009 to U+000D, U+0020, U+0085, U+00A0,
  U+1680, U+2000 to U+200A, U+2028, U+2029, U+202F, U+205F and U+3000, here by their encodings.
\<close>

definition ws1 :: "u8 \<Rightarrow> bool" where
  "ws1 a \<longleftrightarrow> in_range 0x09 0x0D a \<or> a = 0x20"

definition ws2 :: "u8 \<Rightarrow> u8 \<Rightarrow> bool" where
  "ws2 a b \<longleftrightarrow> a = 0xC2 \<and> (b = 0x85 \<or> b = 0xA0)"

definition ws3 :: "u8 \<Rightarrow> u8 \<Rightarrow> u8 \<Rightarrow> bool" where
  "ws3 a b c \<longleftrightarrow>
     a = 0xE1 \<and> b = 0x9A \<and> c = 0x80 \<or>
     a = 0xE2 \<and> b = 0x80 \<and> (in_range 0x80 0x8A c \<or> c = 0xA8 \<or> c = 0xA9 \<or> c = 0xAF) \<or>
     a = 0xE2 \<and> b = 0x81 \<and> c = 0x9F \<or>
     a = 0xE3 \<and> b = 0x80 \<and> c = 0x80"

fun trim_start :: "str \<Rightarrow> str" where
  "trim_start (a # b # c # s) =
     (if ws1 a then trim_start (b # c # s)
      else if ws2 a b then trim_start (c # s)
      else if ws3 a b c then trim_start s
      else a # b # c # s)"
| "trim_start [a, b] = (if ws1 a then trim_start [b] else if ws2 a b then [] else [a, b])"
| "trim_start [a] = (if ws1 a then [] else [a])"
| "trim_start [] = []"

text \<open>The same from the end, on the reversed string.\<close>

fun trim_rev :: "str \<Rightarrow> str" where
  "trim_rev (c # b # a # s) =
     (if ws1 c then trim_rev (b # a # s)
      else if ws2 b c then trim_rev (a # s)
      else if ws3 a b c then trim_rev s
      else c # b # a # s)"
| "trim_rev [b, a] = (if ws1 b then trim_rev [a] else if ws2 a b then [] else [b, a])"
| "trim_rev [a] = (if ws1 a then [] else [a])"
| "trim_rev [] = []"

definition trim :: "str \<Rightarrow> str" where
  "trim s = rev (trim_rev (rev (trim_start s)))"

definition trim_matches :: "u8 \<Rightarrow> str \<Rightarrow> str" where
  "trim_matches q s = rev (dropWhile (\<lambda>b. b = q) (rev (dropWhile (\<lambda>b. b = q) s)))"

definition to_ascii_lowercase :: "u8 \<Rightarrow> u8" where
  "to_ascii_lowercase b = (if in_range 0x41 0x5A b then b + 0x20 else b)"

definition eq_ignore_ascii_case :: "bytes \<Rightarrow> bytes \<Rightarrow> bool" where
  "eq_ignore_ascii_case a b \<longleftrightarrow> map to_ascii_lowercase a = map to_ascii_lowercase b"

lemma eq_ignore_ascii_case_refl [simp]: "eq_ignore_ascii_case a a"
  by (simp add: eq_ignore_ascii_case_def)

lemma eq_ignore_ascii_case_sym: "eq_ignore_ascii_case a b \<longleftrightarrow> eq_ignore_ascii_case b a"
  by (auto simp: eq_ignore_ascii_case_def)

lemma eq_ignore_ascii_case_trans:
  "eq_ignore_ascii_case a b \<Longrightarrow> eq_ignore_ascii_case b c \<Longrightarrow> eq_ignore_ascii_case a c"
  by (simp add: eq_ignore_ascii_case_def)

section \<open>Decimal numbers\<close>

text \<open>\<^verbatim>\<open>{}\<close> of an unsigned integer.\<close>

fun decimal :: "nat \<Rightarrow> str" where
  "decimal n = (if n < 10 then [0x30 + of_nat n] else decimal (n div 10) @ [0x30 + of_nat (n mod 10)])"

declare decimal.simps [simp del]

text \<open>\<^verbatim>\<open>n.to_string()\<close> for a \<^verbatim>\<open>u8\<close>.\<close>

definition u8_to_string :: "u8 \<Rightarrow> str" where
  "u8_to_string v = decimal (unat v)"

text \<open>
  \<^verbatim>\<open>s.parse::<u8>()\<close> and \<^verbatim>\<open>usize::from_str(s)\<close>: an optional plus sign, then at least one digit, with overflow an
  error. \<open>most\<close> is the largest value of the type.
\<close>

fun parse_digits :: "nat \<Rightarrow> nat \<Rightarrow> bytes \<Rightarrow> nat option" where
  "parse_digits most acc [] = Some acc"
| "parse_digits most acc (b # bs) =
     (if in_range 0x30 0x39 b then
        let n = acc * 10 + unat (b - 0x30) in if n \<le> most then parse_digits most n bs else None
      else None)"

definition parse_uint :: "nat \<Rightarrow> str \<Rightarrow> nat option" where
  "parse_uint most s =
     (case s of
        [] \<Rightarrow> None
      | b # bs \<Rightarrow>
          let digits = (if b = 0x2B \<and> bs \<noteq> [] then bs else s) in parse_digits most 0 digits)"

definition parse_u8 :: "str \<Rightarrow> u8 option" where
  "parse_u8 s = map_option of_nat (parse_uint 255 s)"

definition parse_usize :: "str \<Rightarrow> usize option" where
  "parse_usize s = map_option of_nat (parse_uint (2 ^ 64 - 1) s)"

text \<open>Reading back what was printed.\<close>

lemma digit_value: "k < 10 \<Longrightarrow> in_range 0x30 0x39 (0x30 + of_nat k :: u8) \<and> unat (of_nat k :: u8) = k"
proof -
  assume "k < 10"
  then have "k \<in> set [0, 1, 2, 3, 4, 5, 6, 7, 8, 9]" by auto
  then show ?thesis by (auto simp: in_range_def)
qed

lemma parse_digits_append:
  "parse_digits most acc (bs @ cs) = Option.bind (parse_digits most acc bs) (\<lambda>acc. parse_digits most acc cs)"
  by (induction bs arbitrary: acc) (auto simp: Let_def)

lemma parse_digits_decimal: "n \<le> most \<Longrightarrow> parse_digits most 0 (decimal n) = Some n"
proof (induction n rule: decimal.induct)
  case (1 n)
  show ?case
  proof (cases "n < 10")
    case True
    then show ?thesis using 1 digit_value [of n] by (simp add: decimal.simps)
  next
    case False
    have "n div 10 \<le> most" using 1 by linarith
    then show ?thesis using False 1 digit_value [of "n mod 10"] by (simp add: decimal.simps [of n] parse_digits_append)
  qed
qed

lemma decimal_starts: "\<exists>b bs. in_range 0x30 0x39 b \<and> decimal n = b # bs"
  by (induction n rule: decimal.induct) (subst decimal.simps, auto simp: digit_value)

lemma parse_uint_decimal:
  assumes "n \<le> most"
  shows "parse_uint most (decimal n) = Some n"
proof -
  obtain b bs where d: "in_range 0x30 0x39 b" "decimal n = b # bs" using decimal_starts by blast
  have "b \<noteq> 0x2B" using d(1) by (auto simp: in_range_def)
  then show ?thesis using parse_digits_decimal [OF assms] d(2) by (simp add: parse_uint_def del: parse_digits.simps)
qed

lemma parse_u8_to_string: "parse_u8 (u8_to_string v) = Some v"
proof -
  have "unat v \<le> 255" using unsigned_less [of v, where ?'a = nat] by simp
  then show ?thesis by (simp add: parse_u8_def u8_to_string_def parse_uint_decimal)
qed

lemma parse_usize_decimal: "parse_usize (decimal (unat n)) = Some n"
proof -
  have "unat n \<le> 2 ^ 64 - 1" using unsigned_less [of n, where ?'a = nat] by simp
  then show ?thesis by (simp add: parse_usize_def parse_uint_decimal del: One_nat_def)
qed

lemma decimal_ascii: "\<forall>b \<in> set (decimal n). b < 0x80"
proof (induction n rule: decimal.induct)
  case (1 n)
  have "(0x30 + of_nat (n mod 10) :: u8) < 0x80" "n < 10 \<Longrightarrow> (0x30 + of_nat n :: u8) < 0x80"
    using digit_value [of "n mod 10"] digit_value [of n] by (auto simp: in_range_def word_le_nat_alt word_less_nat_alt)
  then show ?case using 1 by (subst decimal.simps) auto
qed

end
