(* ===== verification/Extension_Trait.thy ===== *)
theory Extension_Trait
  imports Base_Codec Std_Str
begin

text \<open>
  \<^verbatim>\<open>src/extension.rs\<close>: extension parameters and the \<^verbatim>\<open>Extension\<close> trait. A boxed trait object is a value
  of a type \<open>'e\<close> with the record of the trait's methods on it; a mutating method returns the updated
  object. Errors of extensions (\<^verbatim>\<open>BoxedError\<close>) are opaque strings. \<^verbatim>\<open>encode\<close> may fail to return, which the
  compression loops of an implementation can cause.
\<close>

section \<open>Parameters\<close>

record Param =
  p_name :: str
  p_value :: "str option"

definition param_new :: "str \<Rightarrow> Param" where
  "param_new name = \<lparr>p_name = name, p_value = None\<rparr>"

definition param_name :: "Param \<Rightarrow> str" where [model_defs]: "param_name p = p_name p"
definition param_value :: "Param \<Rightarrow> str option" where [model_defs]: "param_value p = p_value p"
definition param_set_value :: "Param \<Rightarrow> str option \<Rightarrow> Param" where
  [model_defs]: "param_set_value p v = p\<lparr>p_value := v\<rparr>"
definition param_acquire :: "Param \<Rightarrow> Param" where
  [model_defs]: "param_acquire p = \<lparr>p_name = p_name p, p_value = map_option (\<lambda>v. v) (p_value p)\<rparr>"

definition param_display :: "Param \<Rightarrow> str" where
  "param_display p = (case p_value p of Some v \<Rightarrow> p_name p @ lit '' = '' @ v | None \<Rightarrow> p_name p)"

section \<open>The trait\<close>

type_synonym BoxedError = string

record 'e Extension =
  ext_is_enabled :: "'e \<Rightarrow> bool"
  ext_name :: "'e \<Rightarrow> str"
  ext_params :: "'e \<Rightarrow> Param list"
  ext_configure :: "'e \<Rightarrow> Param list \<Rightarrow> (BoxedError + unit) \<times> 'e"
  ext_encode :: "'e \<Rightarrow> Header \<Rightarrow> Storage \<Rightarrow> ((BoxedError + unit) \<times> 'e \<times> Header \<times> Storage) option"
  ext_decode :: "'e \<Rightarrow> Header \<Rightarrow> bytes \<Rightarrow> (BoxedError + unit) \<times> 'e \<times> Header \<times> bytes"
  ext_reserved_bits :: "'e \<Rightarrow> bool \<times> bool \<times> bool"

text \<open>The default method \<^verbatim>\<open>reserved_bits\<close> of the trait.\<close>

definition default_reserved_bits :: "'e \<Rightarrow> bool \<times> bool \<times> bool" where
  "default_reserved_bits e = (False, False, False)"

text \<open>\<^verbatim>\<open>impl Extension for Box<E>\<close>: every method is the one of the boxed value.\<close>

datatype 'e Box = Box 'e

fun unbox :: "'e Box \<Rightarrow> 'e" where
  "unbox (Box e) = e"

definition box_extension :: "'e Extension \<Rightarrow> 'e Box Extension" where
  "box_extension x =
     \<lparr>ext_is_enabled = (\<lambda>self. ext_is_enabled x (unbox self)),
      ext_name = (\<lambda>self. ext_name x (unbox self)),
      ext_params = (\<lambda>self. ext_params x (unbox self)),
      ext_configure = (\<lambda>self params. case ext_configure x (unbox self) params of (r, e) \<Rightarrow> (r, Box e)),
      ext_encode = (\<lambda>self h d. map_option (\<lambda>(r, e, h, d). (r, Box e, h, d)) (ext_encode x (unbox self) h d)),
      ext_decode = (\<lambda>self h d. case ext_decode x (unbox self) h d of (r, e, h, d) \<Rightarrow> (r, Box e, h, d)),
      ext_reserved_bits = (\<lambda>self. ext_reserved_bits x (unbox self))\<rparr>"

section \<open>What a connection relies on\<close>

text \<open>
  An extension may announce itself in the header by the reserved bits it has asked for. Everything else of the
  header but the payload length, which is set again when a frame is written, it leaves as it is.
\<close>

definition keeps_frame :: "bool \<times> bool \<times> bool \<Rightarrow> Header \<Rightarrow> Header \<Rightarrow> bool" where
  "keeps_frame bits h h' \<longleftrightarrow> h_fin h' = h_fin h \<and> h_opcode h' = h_opcode h \<and> h_masked h' = h_masked h \<and> h_mask h' = h_mask h \<and>
     (h_rsv1 h' = h_rsv1 h \<or> fst bits) \<and> (h_rsv2 h' = h_rsv2 h \<or> fst (snd bits)) \<and> (h_rsv3 h' = h_rsv3 h \<or> snd (snd bits))"

definition any_bits :: "(bool \<times> bool \<times> bool) list \<Rightarrow> bool \<times> bool \<times> bool" where
  "any_bits bs = (list_ex fst bs, list_ex (\<lambda>b. fst (snd b)) bs, list_ex (\<lambda>b. snd (snd b)) bs)"

lemma keeps_frame_refl [simp]: "keeps_frame bits h h"
  by (simp add: keeps_frame_def)

lemma keeps_frame_Cons:
  "keeps_frame b h h' \<Longrightarrow> keeps_frame (any_bits bs) h' h'' \<Longrightarrow> keeps_frame (any_bits (b # bs)) h h''"
  "keeps_frame b h h' \<Longrightarrow> keeps_frame (any_bits (b # bs)) h h'"
  by (auto simp: keeps_frame_def any_bits_def)

text \<open>
  The contract of an extension: an invariant of its state that every method keeps, with reserved bits that do not
  change, since the codec of a connection is told of them once, and headers changed in these bits only.
\<close>

locale extension_laws =
  fixes x :: "'e Extension" and valid :: "'e \<Rightarrow> bool"
  assumes configured: "valid e \<Longrightarrow> ext_configure x e ps = (r, e') \<Longrightarrow> valid e' \<and> ext_reserved_bits x e' = ext_reserved_bits x e"
    and encoded: "valid e \<Longrightarrow> ext_encode x e h d = Some (r, e', h', d') \<Longrightarrow>
      valid e' \<and> ext_reserved_bits x e' = ext_reserved_bits x e \<and> keeps_frame (ext_reserved_bits x e) h h'"
    and decoded: "valid e \<Longrightarrow> ext_decode x e h m = (r2, e', h', m') \<Longrightarrow>
      valid e' \<and> ext_reserved_bits x e' = ext_reserved_bits x e \<and> keeps_frame (ext_reserved_bits x e) h h'"
begin

lemma boxed: "extension_laws (box_extension x) (\<lambda>e. valid (unbox e))"
proof
  fix e :: "'e Box" and ps r e'
  assume "valid (unbox e)" "ext_configure (box_extension x) e ps = (r, e')"
  then show "valid (unbox e') \<and> ext_reserved_bits (box_extension x) e' = ext_reserved_bits (box_extension x) e"
    using configured by (auto simp: box_extension_def split: prod.splits)
next
  fix e :: "'e Box" and h d r e' h' d'
  assume "valid (unbox e)" "ext_encode (box_extension x) e h d = Some (r, e', h', d')"
  then show "valid (unbox e') \<and> ext_reserved_bits (box_extension x) e' = ext_reserved_bits (box_extension x) e \<and>
      keeps_frame (ext_reserved_bits (box_extension x) e) h h'"
    using encoded by (auto simp: box_extension_def)
next
  fix e :: "'e Box" and h m r e' h' m'
  assume "valid (unbox e)" "ext_decode (box_extension x) e h m = (r, e', h', m')"
  then show "valid (unbox e') \<and> ext_reserved_bits (box_extension x) e' = ext_reserved_bits (box_extension x) e \<and>
      keeps_frame (ext_reserved_bits (box_extension x) e) h h'"
    using decoded by (auto simp: box_extension_def split: prod.splits)
qed

end

end
