(* ===== verification/Data_Types.thy ===== *)
theory Data_Types
  imports Std_Str
begin

text \<open>
  \<^verbatim>\<open>src/data.rs\<close>: what a receiver hands to its caller, and byte slices of at most 125 bytes, the
  payload limit of control frames.
\<close>

record CloseReason =
  cr_code :: u16
  cr_descr :: "str option"

datatype Data = Text nat | Binary nat

datatype Incoming = Data Data | Pong bytes | Closed CloseReason

fun data_is_text :: "Data \<Rightarrow> bool" where
  "data_is_text (Data.Text n) = True"
| "data_is_text (Data.Binary n) = False"

fun data_is_binary :: "Data \<Rightarrow> bool" where
  "data_is_binary (Data.Binary n) = True"
| "data_is_binary (Data.Text n) = False"

fun data_len :: "Data \<Rightarrow> nat" where
  "data_len (Data.Text n) = n"
| "data_len (Data.Binary n) = n"

fun incoming_is_data :: "Incoming \<Rightarrow> bool" where
  "incoming_is_data (Incoming.Data d) = True"
| "incoming_is_data _ = False"

fun incoming_is_pong :: "Incoming \<Rightarrow> bool" where
  "incoming_is_pong (Incoming.Pong p) = True"
| "incoming_is_pong _ = False"

fun incoming_is_text :: "Incoming \<Rightarrow> bool" where
  "incoming_is_text (Incoming.Data d) = data_is_text d"
| "incoming_is_text _ = False"

fun incoming_is_binary :: "Incoming \<Rightarrow> bool" where
  "incoming_is_binary (Incoming.Data d) = data_is_binary d"
| "incoming_is_binary _ = False"

datatype ByteSlice125 = ByteSlice125 bytes

datatype SliceTooLarge = SliceTooLarge unit

definition byte_slice_125_try_from :: "bytes \<Rightarrow> SliceTooLarge + ByteSlice125" where
  "byte_slice_125_try_from value = (if length value > 125 then Inl (SliceTooLarge ()) else Inr (ByteSlice125 value))"

fun byte_slice_125_as_ref :: "ByteSlice125 \<Rightarrow> bytes" where
  "byte_slice_125_as_ref (ByteSlice125 d) = d"

text \<open>A slice obtained by the conversion holds the value and fits a control frame.\<close>

lemma byte_slice_125_try_from_Inr:
  "byte_slice_125_try_from value = Inr s \<Longrightarrow> byte_slice_125_as_ref s = value \<and> length value \<le> 125"
  by (auto simp: byte_slice_125_try_from_def split: if_splits)

end
