(* ===== verification/Connection.thy ===== *)
theory Connection
  imports Extension_Trait Data_Types
begin

text \<open>
  \<^verbatim>\<open>src/connection.rs\<close>: the builder and the sending and receiving halves of a connection. The socket
  halves and the extension list, which the halves share behind locks, are the record \<open>Shared\<close>; each
  operation takes and returns it with the half it mutates. \<open>None\<close> is an operation that does not return:
  a loop that runs on, an arithmetic underflow or an out-of-range buf (overflow checks enabled).
\<close>

definition MAX_MESSAGE_SIZE :: usize where [model_defs]: "MAX_MESSAGE_SIZE = 256 * 1024 * 1024"
definition MAX_FRAME_SIZE :: usize where [model_defs]: "MAX_FRAME_SIZE = MAX_MESSAGE_SIZE"

datatype Mode = Client | Server

fun is_client :: "Mode \<Rightarrow> bool" where
  "is_client Client = True"
| "is_client Server = False"

definition is_server :: "Mode \<Rightarrow> bool" where
  "is_server m = (\<not> is_client m)"

datatype conn_Error =
    Io io_Error
  | Codec base_Error
  | Extension BoxedError
  | UnexpectedOpCode OpCode
  | Utf8 Utf8Error
  | MessageTooLarge usize usize
  | Closed

text \<open>The conversions behind the \<^verbatim>\<open>?\<close> operator.\<close>

definition from_io :: "io_Error \<Rightarrow> conn_Error" where
  "from_io e = (if e = UnexpectedEof then conn_Error.Closed else conn_Error.Io e)"

definition from_utf8_error :: "Utf8Error \<Rightarrow> conn_Error" where
  "from_utf8_error e = Utf8 e"

definition from_base :: "base_Error \<Rightarrow> conn_Error" where
  "from_base e = conn_Error.Codec e"

section \<open>The two halves and the builder\<close>

record Sender =
  s_id :: u32
  s_mode :: Mode
  s_codec :: Codec
  s_mask_buffer :: bytes
  s_has_extensions :: bool

record Receiver =
  r_id :: u32
  r_mode :: Mode
  r_codec :: Codec
  r_has_extensions :: bool
  r_buffer :: bytes
  r_ctrl_buffer :: bytes
  r_max_message_size :: usize
  r_is_closed :: bool

record ('w, 'e) Shared =
  sh_world :: 'w
  sh_extensions :: "'e list"

record ('w, 'e) Builder =
  b_id :: u32
  b_mode :: Mode
  b_socket :: 'w
  b_codec :: Codec
  b_extensions :: "'e list"
  b_buffer :: bytes
  b_max_message_size :: usize

definition builder_new :: "'w Env \<Rightarrow> 'w \<Rightarrow> Mode \<Rightarrow> ('w, 'e) Builder" where
  "builder_new env socket mode =
     (case random_u32 env socket of (conn_id, socket) \<Rightarrow>
        \<lparr>b_id = conn_id, b_mode = mode, b_socket = socket,
         b_codec = set_max_data_size codec_new MAX_FRAME_SIZE, b_extensions = [], b_buffer = [],
         b_max_message_size = MAX_MESSAGE_SIZE\<rparr>)"

definition set_buffer :: "('w, 'e) Builder \<Rightarrow> bytes \<Rightarrow> ('w, 'e) Builder" where
  "set_buffer self b = self\<lparr>b_buffer := b\<rparr>"

definition add_extension :: "'e Extension \<Rightarrow> 'e \<Rightarrow> ('w, 'e) Builder \<Rightarrow> ('w, 'e) Builder" where
  "add_extension x e self =
     self\<lparr>b_codec := add_reserved_bits (b_codec self) (ext_reserved_bits x e),
          b_extensions := b_extensions self @ [e]\<rparr>"

definition add_extensions :: "'e Extension \<Rightarrow> ('w, 'e) Builder \<Rightarrow> 'e list \<Rightarrow> ('w, 'e) Builder" where
  "add_extensions x self extensions = fold (add_extension x) (filter (ext_is_enabled x) extensions) self"

definition set_max_message_size :: "('w, 'e) Builder \<Rightarrow> usize \<Rightarrow> ('w, 'e) Builder" where
  "set_max_message_size self n = self\<lparr>b_max_message_size := n\<rparr>"

definition set_max_frame_size :: "('w, 'e) Builder \<Rightarrow> usize \<Rightarrow> ('w, 'e) Builder" where
  "set_max_frame_size self n = self\<lparr>b_codec := set_max_data_size (b_codec self) n\<rparr>"

definition finish :: "('w, 'e) Builder \<Rightarrow> Sender \<times> Receiver \<times> ('w, 'e) Shared" where
  "finish self =
     (let has_extensions = (b_extensions self \<noteq> []);
          recv = \<lparr>r_id = b_id self, r_mode = b_mode self, r_codec = b_codec self,
                  r_has_extensions = has_extensions, r_buffer = b_buffer self, r_ctrl_buffer = [],
                  r_max_message_size = b_max_message_size self, r_is_closed = False\<rparr>;
          send = \<lparr>s_id = b_id self, s_mode = b_mode self, s_codec = b_codec self, s_mask_buffer = [],
                  s_has_extensions = has_extensions\<rparr>
      in (send, recv, \<lparr>sh_world = b_socket self, sh_extensions = b_extensions self\<rparr>))"

section \<open>Writing a frame\<close>

text \<open>\<^verbatim>\<open>w.write_all(bytes).await.or(Err(Error::Closed))\<close>\<close>

definition write_all :: "'w Env \<Rightarrow> 'w \<Rightarrow> bytes \<Rightarrow> (conn_Error + unit) \<times> 'w" where
  "write_all env w bs =
     (case sock_write_all env w bs of (Inl _, w) \<Rightarrow> (Inl conn_Error.Closed, w) | (Inr _, w) \<Rightarrow> (Inr (), w))"

text \<open>The payload goes out as it is, or masked in the caller's buffer or, if that is shared, in the mask buffer.\<close>

definition write_payload :: "'w Env \<Rightarrow> 'w \<Rightarrow> Header \<Rightarrow> Storage \<Rightarrow> bytes \<Rightarrow>
    (conn_Error + unit) \<times> 'w \<times> Storage \<times> bytes" where
  "write_payload env w header data mask_buffer =
     (if \<not> is_masked header then
        case write_all env w (as_ref data) of (r, w) \<Rightarrow> (r, w, data, mask_buffer)
      else (case data of
          Shared buf \<Rightarrow>
            let mask_buffer = apply_mask header buf in
            case write_all env w mask_buffer of (r, w) \<Rightarrow> (r, w, data, mask_buffer)
        | Unique buf \<Rightarrow>
            let buf = apply_mask header buf in
            case write_all env w buf of (r, w) \<Rightarrow> (r, w, Unique buf, mask_buffer)
        | Owned bytes \<Rightarrow>
            let bytes = apply_mask header bytes in
            case write_all env w bytes of (r, w) \<Rightarrow> (r, w, Owned bytes, mask_buffer)))"

definition write_frame :: "'w Env \<Rightarrow> Mode \<Rightarrow> Codec \<Rightarrow> 'w \<Rightarrow> Header \<Rightarrow> Storage \<Rightarrow> bytes \<Rightarrow>
    ((conn_Error + unit) \<times> Codec \<times> 'w \<times> Header \<times> Storage \<times> bytes) option" where
  "write_frame env mode codec w header data mask_buffer =
     (let (header, w) =
        (if is_client mode then
           case random_u32 env w of (m, w) \<Rightarrow> (set_mask (set_masked header True) m, w)
         else (header, w));
        header = set_payload_len header (of_nat (length (as_ref data)))
      in Option.bind (encode_header codec header) (\<lambda>(codec, hb).
         Some (case write_all env w hb of
             (Inl e, w) \<Rightarrow> (Inl e, codec, w, header, data, mask_buffer)
           | (Inr _, w) \<Rightarrow>
               (case write_payload env w header data mask_buffer of (r, w, data, mask_buffer) \<Rightarrow>
                  (r, codec, w, header, data, mask_buffer)))))"

section \<open>The sender\<close>

definition sender_write :: "'w Env \<Rightarrow> Sender \<Rightarrow> 'w \<Rightarrow> Header \<Rightarrow> Storage \<Rightarrow>
    ((conn_Error + unit) \<times> Sender \<times> 'w) option" where
  "sender_write env self w header data =
     map_option (\<lambda>(r, codec, w, header, data, mask_buffer).
         (r, self\<lparr>s_codec := codec, s_mask_buffer := mask_buffer\<rparr>, w))
       (write_frame env (s_mode self) (s_codec self) w header data (s_mask_buffer self))"

fun encode_with_extensions :: "'e Extension \<Rightarrow> 'e list \<Rightarrow> Header \<Rightarrow> Storage \<Rightarrow>
    ((conn_Error + unit) \<times> 'e list \<times> Header \<times> Storage) option" where
  "encode_with_extensions x [] header data = Some (Inr (), [], header, data)"
| "encode_with_extensions x (e # es) header data =
     Option.bind (ext_encode x e header data) (\<lambda>(r, e, header, data).
       case r of
         Inl er \<Rightarrow> Some (Inl (conn_Error.Extension er), e # es, header, data)
       | Inr _ \<Rightarrow>
           map_option (\<lambda>(r, es, header, data). (r, e # es, header, data))
             (encode_with_extensions x es header data))"

definition send_frame :: "'w Env \<Rightarrow> 'e Extension \<Rightarrow> Sender \<Rightarrow> ('w, 'e) Shared \<Rightarrow> Header \<Rightarrow> Storage \<Rightarrow>
    ((conn_Error + unit) \<times> Sender \<times> ('w, 'e) Shared) option" where
  "send_frame env x self sh header data =
     (if \<not> s_has_extensions self then
        map_option (\<lambda>(r, self, w). (r, self, sh\<lparr>sh_world := w\<rparr>)) (sender_write env self (sh_world sh) header data)
      else Option.bind (encode_with_extensions x (sh_extensions sh) header data) (\<lambda>(r, es, header, data).
        let sh = sh\<lparr>sh_extensions := es\<rparr> in
        case r of
          Inl e \<Rightarrow> Some (Inl e, self, sh)
        | Inr _ \<Rightarrow>
            map_option (\<lambda>(r, self, w). (r, self, sh\<lparr>sh_world := w\<rparr>))
              (sender_write env self (sh_world sh) header data)))"

definition send_text :: "'w Env \<Rightarrow> 'e Extension \<Rightarrow> Sender \<Rightarrow> ('w, 'e) Shared \<Rightarrow> str \<Rightarrow>
    ((conn_Error + unit) \<times> Sender \<times> ('w, 'e) Shared) option" where
  "send_text env x self sh data = send_frame env x self sh (header_new OpCode.Text) (Shared data)"

definition send_text_owned :: "'w Env \<Rightarrow> 'e Extension \<Rightarrow> Sender \<Rightarrow> ('w, 'e) Shared \<Rightarrow> str \<Rightarrow>
    ((conn_Error + unit) \<times> Sender \<times> ('w, 'e) Shared) option" where
  "send_text_owned env x self sh data = send_frame env x self sh (header_new OpCode.Text) (Owned data)"

definition send_binary :: "'w Env \<Rightarrow> 'e Extension \<Rightarrow> Sender \<Rightarrow> ('w, 'e) Shared \<Rightarrow> bytes \<Rightarrow>
    ((conn_Error + unit) \<times> Sender \<times> ('w, 'e) Shared) option" where
  "send_binary env x self sh data = send_frame env x self sh (header_new OpCode.Binary) (Shared data)"

definition send_binary_mut :: "'w Env \<Rightarrow> 'e Extension \<Rightarrow> Sender \<Rightarrow> ('w, 'e) Shared \<Rightarrow> bytes \<Rightarrow>
    ((conn_Error + unit) \<times> Sender \<times> ('w, 'e) Shared) option" where
  "send_binary_mut env x self sh data = send_frame env x self sh (header_new OpCode.Binary) (Unique data)"

definition send_ping :: "'w Env \<Rightarrow> Sender \<Rightarrow> 'w \<Rightarrow> ByteSlice125 \<Rightarrow> ((conn_Error + unit) \<times> Sender \<times> 'w) option" where
  "send_ping env self w data =
     sender_write env self w (header_new OpCode.Ping) (Shared (byte_slice_125_as_ref data))"

definition send_pong :: "'w Env \<Rightarrow> Sender \<Rightarrow> 'w \<Rightarrow> ByteSlice125 \<Rightarrow> ((conn_Error + unit) \<times> Sender \<times> 'w) option" where
  "send_pong env self w data =
     sender_write env self w (header_new OpCode.Pong) (Shared (byte_slice_125_as_ref data))"

definition sender_flush :: "'w Env \<Rightarrow> 'w \<Rightarrow> (conn_Error + unit) \<times> 'w" where
  "sender_flush env w =
     (case sock_flush env w of (Inl _, w) \<Rightarrow> (Inl conn_Error.Closed, w) | (Inr _, w) \<Rightarrow> (Inr (), w))"

definition sender_close :: "'w Env \<Rightarrow> Sender \<Rightarrow> 'w \<Rightarrow> ((conn_Error + unit) \<times> Sender \<times> 'w) option" where
  "sender_close env self w =
     (let code = to_be_bytes 2 (1000 :: u16) in
      Option.bind (sender_write env self w (header_new OpCode.Close) (Shared code)) (\<lambda>(r, self, w).
      Some (case r of
          Inl e \<Rightarrow> (Inl e, self, w)
        | Inr _ \<Rightarrow>
            (case sender_flush env w of
               (Inl e, w) \<Rightarrow> (Inl e, self, w)
             | (Inr _, w) \<Rightarrow>
                 (case sock_close env w of
                    (Inl _, w) \<Rightarrow> (Inl conn_Error.Closed, self, w)
                  | (Inr _, w) \<Rightarrow> (Inr (), self, w))))))"


section \<open>The receiver\<close>

subsection \<open>Reading headers and control payloads\<close>

function receive_header :: "'w Env \<Rightarrow> Codec \<Rightarrow> bytes \<Rightarrow> 'w \<Rightarrow> (conn_Error + Header) \<times> bytes \<times> 'w" where
  "receive_header env codec buffer w =
     (case decode_header codec buffer of
        Inl e \<Rightarrow> (Inl (from_base e), buffer, w)
      | Inr (Done header offset) \<Rightarrow> (Inr header, drop offset buffer, w)
      | Inr (NeedMore n) \<Rightarrow>
          (case read env w buffer n of
             (Inl e, w, buffer) \<Rightarrow> (Inl (from_io e), buffer, w)
           | (Inr _, w, buffer) \<Rightarrow> receive_header env codec buffer w))"
  by pat_completeness auto
termination
  by (relation "measure (\<lambda>(env, codec, buffer, w). MAX_HEADER_SIZE - length buffer)")
     (auto dest!: codec.need_more read_grows [OF sym])

declare receive_header.simps [simp del]

definition read_buffer :: "'w Env \<Rightarrow> bytes \<Rightarrow> 'w \<Rightarrow> Header \<Rightarrow> (conn_Error + unit) \<times> bytes \<times> 'w" where
  "read_buffer env buffer w header =
     (if unat (payload_len header) \<le> length buffer then (Inr (), buffer, w)
      else
        let i = length buffer; d = unat (payload_len header) - i in
        case sock_read_exact env w d of
          (Inl (e, got), w) \<Rightarrow> (Inl (from_io e), buffer @ take d (got @ replicate d 0), w)
        | (Inr bs, w) \<Rightarrow> (Inr (), buffer @ bs, w))"

definition receiver_flush :: "'w Env \<Rightarrow> Receiver \<Rightarrow> 'w \<Rightarrow> (conn_Error + unit) \<times> 'w" where
  "receiver_flush env self w =
     (if r_is_closed self then (Inr (), w)
      else case sock_flush env w of (Inl _, w) \<Rightarrow> (Inl conn_Error.Closed, w) | (Inr _, w) \<Rightarrow> (Inr (), w))"

subsection \<open>Answering control frames\<close>

definition close_answer :: "bytes \<Rightarrow> conn_Error + (Header \<times> CloseReason option)" where
  "close_answer data =
     (let answer = header_new OpCode.Close in
      if length data < 2 then Inr (answer, None)
      else (case from_utf8 (drop 2 data) of
          Inl e \<Rightarrow> Inl (from_utf8_error e)
        | Inr d \<Rightarrow>
            let c = from_be_bytes [data ! 0, data ! 1];
                reason = \<lparr>cr_code = c, cr_descr = Some d\<rparr> in
            if 1000 \<le> c \<and> c \<le> 1003 \<or> 1007 \<le> c \<and> c \<le> 1011 \<or> c = 1012 \<or> c = 1013 \<or> c = 1015 \<or>
               3000 \<le> c \<and> c \<le> 4999
            then Inr (answer, Some reason)
            else Inr (answer, Some \<lparr>cr_code = 1002, cr_descr = None\<rparr>)))"

text \<open>The branches of \<^verbatim>\<open>on_control\<close>; an error of the close frame's own write is ignored, as is closing the socket.\<close>

definition on_ping :: "'w Env \<Rightarrow> Receiver \<Rightarrow> 'w \<Rightarrow> ((conn_Error + CloseReason option) \<times> Receiver \<times> 'w) option" where
  "on_ping env self w =
     Option.bind (write_frame env (r_mode self) (r_codec self) w (header_new OpCode.Pong)
         (Unique (r_ctrl_buffer self)) []) (\<lambda>(r, codec, w, answer, data, unused).
       let self = self\<lparr>r_codec := codec, r_ctrl_buffer := as_ref data\<rparr> in
       Some (case r of
           Inl e \<Rightarrow> (Inl e, self, w)
         | Inr _ \<Rightarrow>
             (case receiver_flush env self w of
                (Inl e, w) \<Rightarrow> (Inl e, self, w)
              | (Inr _, w) \<Rightarrow> (Inr None, self, w))))"

definition on_close :: "'w Env \<Rightarrow> Receiver \<Rightarrow> 'w \<Rightarrow> ((conn_Error + CloseReason option) \<times> Receiver \<times> 'w) option" where
  "on_close env self w =
     (case close_answer (r_ctrl_buffer self) of
        Inl e \<Rightarrow> Some (Inl e, self, w)
      | Inr (header, reason) \<Rightarrow>
          let data = (case reason of Some cr \<Rightarrow> to_be_bytes 2 (cr_code cr) | None \<Rightarrow> []) in
          Option.bind (write_frame env (r_mode self) (r_codec self) w header (Unique data) [])
            (\<lambda>(ignored, codec, w, header, data, unused).
            let self = self\<lparr>r_codec := codec\<rparr> in
            Some (case receiver_flush env self w of
                (Inl e, w) \<Rightarrow> (Inl e, self, w)
              | (Inr _, w) \<Rightarrow>
                  (case sock_close env w of (ignored, w) \<Rightarrow>
                     (Inr reason, self\<lparr>r_is_closed := True\<rparr>, w)))))"

definition on_control :: "'w Env \<Rightarrow> Receiver \<Rightarrow> 'w \<Rightarrow> Header \<Rightarrow>
    ((conn_Error + CloseReason option) \<times> Receiver \<times> 'w) option" where
  "on_control env self w header =
     (case opcode header of
        OpCode.Ping \<Rightarrow> on_ping env self w
      | OpCode.Pong \<Rightarrow> Some (Inr None, self, w)
      | OpCode.Close \<Rightarrow> on_close env self w
      | oc \<Rightarrow> Some (Inl (conn_Error.UnexpectedOpCode oc), self, w))"

subsection \<open>Data frames\<close>

fun decode_extensions :: "'e Extension \<Rightarrow> 'e list \<Rightarrow> Header \<Rightarrow> bytes \<Rightarrow>
    (conn_Error + unit) \<times> 'e list \<times> Header \<times> bytes" where
  "decode_extensions x [] header message = (Inr (), [], header, message)"
| "decode_extensions x (e # es) header message =
     (case ext_decode x e header message of
        (Inl er, e, header, message) \<Rightarrow> (Inl (conn_Error.Extension er), e # es, header, message)
      | (Inr _, e, header, message) \<Rightarrow>
          (case decode_extensions x es header message of (r, es, header, message) \<Rightarrow>
             (r, e # es, header, message)))"

definition decode_with_extensions :: "'e Extension \<Rightarrow> Receiver \<Rightarrow> 'e list \<Rightarrow> Header \<Rightarrow> bytes \<Rightarrow>
    (conn_Error + unit) \<times> 'e list \<times> Header \<times> bytes" where
  "decode_with_extensions x self es header message =
     (if \<not> r_has_extensions self then (Inr (), es, header, message)
      else decode_extensions x es header message)"

definition saturating_add :: "usize \<Rightarrow> usize \<Rightarrow> usize" where
  "saturating_add a b = (if unat a + unat b < 2 ^ 64 then a + b else - 1)"

text \<open>\<^verbatim>\<open>discard_bytes\<close>\<close>

definition discard_bytes :: "'w Env \<Rightarrow> u64 \<Rightarrow> 'w \<Rightarrow> (io_Error + u64) \<times> 'w" where
  "discard_bytes env n w = sock_discard env w n"

text \<open>The payload of a data frame, from the buffer and then from the socket, appended to the message and unmasked.\<close>

definition read_payload :: "'w Env \<Rightarrow> Header \<Rightarrow> bytes \<Rightarrow> bytes \<Rightarrow> 'w \<Rightarrow> (conn_Error + unit) \<times> bytes \<times> bytes \<times> 'w" where
  "read_payload env header message buffer w =
     (let old_msg_len = length message; required = unat (payload_len header); buffered = length buffer;
          (message, buffer, bytes_to_read) =
            (if buffered = 0 then (message, buffer, required)
             else if required > buffered then (message @ buffer, [], required - buffered)
             else (message @ take required buffer, drop required buffer, 0));
          (r, message, w) =
            (if bytes_to_read > 0 then
               case sock_read_exact env w bytes_to_read of
                 (Inl (e, got), w) \<Rightarrow>
                   (Inl (from_io e), message @ take bytes_to_read (got @ replicate bytes_to_read 0), w)
               | (Inr bs, w) \<Rightarrow> (Inr (), message @ bs, w)
             else (Inr (), message, w))
      in case r of
           Inl e \<Rightarrow> (Inl e, message, buffer, w)
         | Inr _ \<Rightarrow>
             (Inr (), take old_msg_len message @ apply_mask header (drop old_msg_len message), buffer, w))"

subsection \<open>The receive loop\<close>

record ('w, 'e) Loop =
  l_first_fragment_opcode :: "OpCode option"
  l_length :: usize
  l_self :: Receiver
  l_shared :: "('w, 'e) Shared"
  l_message :: bytes

type_synonym ('w, 'e) received = "(conn_Error + Incoming) \<times> Receiver \<times> ('w, 'e) Shared \<times> bytes"

datatype ('s, 'r) flow = Again 's | Return 'r

abbreviation return_with where
  "return_with st r \<equiv> Return (r, l_self st, l_shared st, l_message st)"

text \<open>A control frame: its payload is read and unmasked into the control buffer, then answered.\<close>

definition receive_control :: "'w Env \<Rightarrow> ('w, 'e) Loop \<Rightarrow> Header \<Rightarrow>
    (('w, 'e) Loop, ('w, 'e) received) flow option" where
  "receive_control env st header =
     (let self = l_self st; sh = l_shared st in
      case read_buffer env (r_buffer self) (sh_world sh) header of (r, buffer, w) \<Rightarrow>
        let self = self\<lparr>r_buffer := buffer\<rparr>; sh = sh\<lparr>sh_world := w\<rparr>;
            st = st\<lparr>l_self := self, l_shared := sh\<rparr> in
        case r of
          Inl e \<Rightarrow> Some (return_with st (Inl e))
        | Inr _ \<Rightarrow>
            let n = unat (payload_len header) in
            if length buffer < n then None
            else
              let self = self\<lparr>r_ctrl_buffer := apply_mask header (take n buffer), r_buffer := drop n buffer\<rparr>;
                  st = st\<lparr>l_self := self\<rparr> in
              if opcode header = OpCode.Pong then Some (return_with st (Inr (Incoming.Pong (r_ctrl_buffer self))))
              else Option.bind (on_control env self w header) (\<lambda>(r, self, w).
                let st = st\<lparr>l_self := self, l_shared := sh\<lparr>sh_world := w\<rparr>\<rparr> in
                case r of
                  Inl e \<Rightarrow> Some (return_with st (Inl e))
                | Inr (Some close_reason) \<Rightarrow> Some (return_with st (Inr (Incoming.Closed close_reason)))
                | Inr None \<Rightarrow> Some (Again st)))"

text \<open>Running the extensions over the message in progress.\<close>

definition decode_step :: "'e Extension \<Rightarrow> ('w, 'e) Loop \<Rightarrow> Header \<Rightarrow> (conn_Error + Header) \<times> ('w, 'e) Loop" where
  "decode_step x st header =
     (case decode_with_extensions x (l_self st) (sh_extensions (l_shared st)) header (l_message st) of
        (r, es, header, message) \<Rightarrow>
          (case r of Inl e \<Rightarrow> Inl e | Inr _ \<Rightarrow> Inr header,
           st\<lparr>l_shared := (l_shared st)\<lparr>sh_extensions := es\<rparr>, l_message := message\<rparr>))"

text \<open>The end of a message: the number of bytes it added, which must not underflow.\<close>

definition deliver :: "nat \<Rightarrow> ('w, 'e) Loop \<Rightarrow> OpCode \<Rightarrow> (('w, 'e) Loop, ('w, 'e) received) flow option" where
  "deliver message_len st oc =
     (if length (l_message st) < message_len then None
      else
        let num_bytes = length (l_message st) - message_len in
        Some (return_with st (Inr (Incoming.Data
          (if oc = OpCode.Text then Data.Text num_bytes else Data.Binary num_bytes)))))"

text \<open>The four cases of fragment and opcode.\<close>

definition dispatch :: "'e Extension \<Rightarrow> nat \<Rightarrow> ('w, 'e) Loop \<Rightarrow> Header \<Rightarrow>
    (('w, 'e) Loop, ('w, 'e) received) flow option" where
  "dispatch x message_len st header =
     (if \<not> is_fin header then
        if opcode header = OpCode.Continue then
          if l_first_fragment_opcode st = None
          then Some (return_with st (Inl (conn_Error.UnexpectedOpCode OpCode.Continue)))
          else Some (Again st)
        else
          if l_first_fragment_opcode st \<noteq> None
          then Some (return_with st (Inl (conn_Error.UnexpectedOpCode (opcode header))))
          else
            (case decode_step x (st\<lparr>l_first_fragment_opcode := Some (opcode header)\<rparr>) header of
               (Inl e, st) \<Rightarrow> Some (return_with st (Inl e))
             | (Inr _, st) \<Rightarrow> Some (Again st))
      else if opcode header = OpCode.Continue then
        (case l_first_fragment_opcode st of
           Some oc \<Rightarrow>
             (let header = set_payload_len header (of_nat (length (l_message st))) in
              case decode_step x (st\<lparr>l_first_fragment_opcode := None\<rparr>) header of
                (Inl e, st) \<Rightarrow> Some (return_with st (Inl e))
              | (Inr header, st) \<Rightarrow> deliver message_len st (opcode (set_opcode header oc)))
         | None \<Rightarrow> Some (return_with st (Inl (conn_Error.UnexpectedOpCode OpCode.Continue))))
      else if l_first_fragment_opcode st \<noteq> None
        then Some (return_with st (Inl (conn_Error.UnexpectedOpCode (opcode header))))
      else
        (case decode_step x st header of
           (Inl e, st) \<Rightarrow> Some (return_with st (Inl e))
         | (Inr header, st) \<Rightarrow> deliver message_len st (opcode header)))"

definition receive_data_frame :: "'w Env \<Rightarrow> 'e Extension \<Rightarrow> nat \<Rightarrow> ('w, 'e) Loop \<Rightarrow> Header \<Rightarrow>
    (('w, 'e) Loop, ('w, 'e) received) flow option" where
  "receive_data_frame env x message_len st header =
     (let st = st\<lparr>l_length := saturating_add (l_length st) (payload_len header)\<rparr>;
          self = l_self st; sh = l_shared st in
      if l_length st > r_max_message_size self then
        (case discard_bytes env (ucast (l_length st)) (sh_world sh) of (r, w) \<Rightarrow>
           let st = st\<lparr>l_shared := sh\<lparr>sh_world := w\<rparr>\<rparr> in
           Some (return_with st (Inl (case r of
               Inl e \<Rightarrow> from_io e
             | Inr _ \<Rightarrow> MessageTooLarge (l_length st) (r_max_message_size self)))))
      else
        (case read_payload env header (l_message st) (r_buffer self) (sh_world sh) of (r, message, buffer, w) \<Rightarrow>
           let st = st\<lparr>l_self := self\<lparr>r_buffer := buffer\<rparr>, l_shared := sh\<lparr>sh_world := w\<rparr>, l_message := message\<rparr> in
           case r of
             Inl e \<Rightarrow> Some (return_with st (Inl e))
           | Inr _ \<Rightarrow> dispatch x message_len st header))"

definition receive_body :: "'w Env \<Rightarrow> 'e Extension \<Rightarrow> nat \<Rightarrow> ('w, 'e) Loop \<Rightarrow>
    (('w, 'e) Loop, ('w, 'e) received) flow option" where
  "receive_body env x message_len st =
     (if r_is_closed (l_self st) then Some (return_with st (Inl conn_Error.Closed))
      else
        let self = (l_self st)\<lparr>r_ctrl_buffer := []\<rparr>; sh = l_shared st in
        case receive_header env (r_codec self) (r_buffer self) (sh_world sh) of (r, buffer, w) \<Rightarrow>
          let st = st\<lparr>l_self := self\<lparr>r_buffer := buffer\<rparr>, l_shared := sh\<lparr>sh_world := w\<rparr>\<rparr> in
          case r of
            Inl e \<Rightarrow> Some (return_with st (Inl e))
          | Inr header \<Rightarrow>
              if is_control (opcode header) then receive_control env st header
              else receive_data_frame env x message_len st header)"

partial_function (option) receive_loop :: "'w Env \<Rightarrow> 'e Extension \<Rightarrow> nat \<Rightarrow> ('w, 'e) Loop \<Rightarrow>
    ('w, 'e) received option" where
  "receive_loop env x message_len st =
     Option.bind (receive_body env x message_len st) (\<lambda>f.
       case f of Return r \<Rightarrow> Some r | Again st \<Rightarrow> receive_loop env x message_len st)"

definition receive :: "'w Env \<Rightarrow> 'e Extension \<Rightarrow> Receiver \<Rightarrow> ('w, 'e) Shared \<Rightarrow> bytes \<Rightarrow>
    ('w, 'e) received option" where
  "receive env x self sh message =
     receive_loop env x (length message)
       \<lparr>l_first_fragment_opcode = None, l_length = 0, l_self = self, l_shared = sh, l_message = message\<rparr>"

partial_function (option) receive_data :: "'w Env \<Rightarrow> 'e Extension \<Rightarrow> Receiver \<Rightarrow> ('w, 'e) Shared \<Rightarrow> bytes \<Rightarrow>
    ((conn_Error + Data) \<times> Receiver \<times> ('w, 'e) Shared \<times> bytes) option" where
  "receive_data env x self sh message =
     Option.bind (receive env x self sh message) (\<lambda>(r, self, sh, message).
       case r of
         Inl e \<Rightarrow> Some (Inl e, self, sh, message)
       | Inr i \<Rightarrow>
           (case i of
              Incoming.Data d \<Rightarrow> Some (Inr d, self, sh, message)
            | Incoming.Pong p \<Rightarrow> receive_data env x self sh message
            | Incoming.Closed cr \<Rightarrow> receive_data env x self sh message))"

declare receive_loop.simps [code] receive_data.simps [code]

end
