(* ===== verification/Handshake.thy ===== *)
theory Handshake
  imports Connection
begin

text \<open>
  \<^verbatim>\<open>src/handshake.rs\<close>: what the client and server handshakes share. Parsing of HTTP heads
  (\<^verbatim>\<open>httparse\<close>), SHA-1 (\<^verbatim>\<open>sha1\<close>), base64 encoding (\<^verbatim>\<open>base64\<close>) and the random nonce (\<^verbatim>\<open>rand\<close>)
  are not code of this repository: they are the fields of the record \<open>Libs\<close>, a parameter of the
  definitions that use them.
\<close>

section \<open>The libraries\<close>

text \<open>A header of a parsed head, \<^verbatim>\<open>httparse::Header\<close>.\<close>

record http_Header =
  hdr_name :: str
  hdr_value :: bytes

record http_Request =
  rq_method :: "str option"
  rq_path :: "str option"
  rq_version :: "u8 option"
  rq_headers :: "http_Header list"

record http_Response =
  rs_version :: "u8 option"
  rs_code :: "u16 option"
  rs_headers :: "http_Header list"

datatype 'a http_Status = Complete 'a nat | Partial

text \<open>
  \<open>parse_request n buf\<close> is \<^verbatim>\<open>Request::parse(buf)\<close> with room for \<open>n\<close> headers, \<open>base64\<close> the
  standard alphabet with padding, \<open>random_16\<close> is \<^verbatim>\<open>rand::random::<[u8; 16]>()\<close>.
\<close>

record 'w Libs =
  parse_request :: "nat \<Rightarrow> bytes \<Rightarrow> BoxedError + http_Request http_Status"
  parse_response :: "nat \<Rightarrow> bytes \<Rightarrow> BoxedError + http_Response http_Status"
  sha1 :: "bytes \<Rightarrow> bytes"
  base64 :: "bytes \<Rightarrow> bytes"
  random_16 :: "'w \<Rightarrow> bytes \<times> 'w"

text \<open>
  \<^verbatim>\<open>encode_slice(data, &mut output).expect(..)\<close> for an output of \<open>size\<close> bytes that the encoding
  fills: it panics (\<open>None\<close>) when the encoding is too long.
\<close>

definition encode_slice :: "'w Libs \<Rightarrow> bytes \<Rightarrow> bytes \<Rightarrow> bytes option" where
  "encode_slice lib data output =
     (let enc = base64 lib data in
      if length enc \<le> length output then Some (enc @ drop (length enc) output) else None)"

section \<open>Constants and errors\<close>

definition KEY :: bytes where "KEY = lit ''258EAFA5-E914-47DA-95CA-C5AB0DC85B11''"
definition MAX_NUM_HEADERS :: nat where "MAX_NUM_HEADERS = 32"
definition SEC_WEBSOCKET_EXTENSIONS :: str where "SEC_WEBSOCKET_EXTENSIONS = lit ''Sec-WebSocket-Extensions''"
definition SEC_WEBSOCKET_PROTOCOL :: str where "SEC_WEBSOCKET_PROTOCOL = lit ''Sec-WebSocket-Protocol''"

definition crlf :: bytes where "crlf = [0x0D, 0x0A]"

datatype hs_Error =
    Io io_Error
  | UnsupportedHttpVersion
  | IncompleteHttpRequest
  | SecWebSocketKeyInvalidLength nat
  | InvalidRequestMethod
  | HeaderNotFound str
  | UnexpectedHeader str
  | InvalidSecWebSocketAccept
  | UnsolicitedExtension
  | UnsolicitedProtocol
  | Extension BoxedError
  | Http BoxedError
  | Utf8 Utf8Error

definition hs_from_io :: "io_Error \<Rightarrow> hs_Error" where
  "hs_from_io e = hs_Error.Io e"

definition hs_from_utf8 :: "Utf8Error \<Rightarrow> hs_Error" where
  "hs_from_utf8 e = hs_Error.Utf8 e"

section \<open>Headers\<close>

datatype header_State = Init | Name | Match

definition value_lists :: "str \<Rightarrow> str \<Rightarrow> bool" where
  "value_lists s ours = list_ex (\<lambda>v. eq_ignore_ascii_case (trim v) ours) (split_on 0x2C s)"

text \<open>The closure of the fold: a match is kept, anything else, errors included, is replaced.\<close>

definition expect_step :: "str \<Rightarrow> hs_Error + header_State \<Rightarrow> http_Header \<Rightarrow> hs_Error + header_State" where
  "expect_step ours result header =
     (if result = Inr Match then result
      else case from_utf8 (hdr_value header) of
          Inl e \<Rightarrow> Inl (hs_from_utf8 e)
        | Inr s \<Rightarrow> if value_lists s ours then Inr Match else Inr Name)"

definition expect_ascii_header :: "http_Header list \<Rightarrow> str \<Rightarrow> str \<Rightarrow> hs_Error + unit" where
  "expect_ascii_header headers name ours =
     (case foldl (expect_step ours) (Inr Init) (filter (\<lambda>h. eq_ignore_ascii_case (hdr_name h) name) headers) of
        Inl e \<Rightarrow> Inl e
      | Inr state \<Rightarrow>
          (case state of
             Init \<Rightarrow> Inl (HeaderNotFound name)
           | Name \<Rightarrow> Inl (UnexpectedHeader name)
           | Match \<Rightarrow> Inr ()))"

definition with_first_header :: "http_Header list \<Rightarrow> str \<Rightarrow> (bytes \<Rightarrow> hs_Error + 'r) \<Rightarrow> hs_Error + 'r" where
  "with_first_header headers name f =
     (case find (\<lambda>h. eq_ignore_ascii_case (hdr_name h) name) headers of
        Some h \<Rightarrow> f (hdr_value h)
      | None \<Rightarrow> Inl (HeaderNotFound name))"

section \<open>Extensions\<close>

definition parse_param :: "str \<Rightarrow> Param" where
  "parse_param p =
     (let key_value = split_on 0x3D p in
      param_set_value (param_new (trim (hd key_value)))
        (case tl key_value of [] \<Rightarrow> None | v # _ \<Rightarrow> Some (trim_matches 0x22 (trim v))))"

text \<open>The first extension with the name, if there is one, is configured.\<close>

fun configure_named :: "'e Extension \<Rightarrow> str \<Rightarrow> Param list \<Rightarrow> 'e list \<Rightarrow> (hs_Error + unit) \<times> 'e list" where
  "configure_named x name params [] = (Inr (), [])"
| "configure_named x name params (ext # es) =
     (if eq_ignore_ascii_case (ext_name x ext) name then
        (case ext_configure x ext params of
           (Inl er, ext) \<Rightarrow> (Inl (hs_Error.Extension er), ext # es)
         | (Inr _, ext) \<Rightarrow> (Inr (), ext # es))
      else (case configure_named x name params es of (r, es) \<Rightarrow> (r, ext # es)))"

fun configure_each :: "'e Extension \<Rightarrow> 'e list \<Rightarrow> str list \<Rightarrow> (hs_Error + unit) \<times> 'e list" where
  "configure_each x extensions [] = (Inr (), extensions)"
| "configure_each x extensions (e # rest) =
     (let ext_parts = split_on 0x3B e in
      case configure_named x (trim (hd ext_parts)) (map parse_param (tl ext_parts)) extensions of
        (Inl er, extensions) \<Rightarrow> (Inl er, extensions)
      | (Inr _, extensions) \<Rightarrow> configure_each x extensions rest)"

definition configure_extensions :: "'e Extension \<Rightarrow> 'e list \<Rightarrow> str \<Rightarrow> (hs_Error + unit) \<times> 'e list" where
  "configure_extensions x extensions line = configure_each x extensions (split_on 0x2C line)"

fun append_params :: "Param list \<Rightarrow> bytes \<Rightarrow> bytes" where
  "append_params [] bs = bs"
| "append_params (p # ps) bs =
     append_params ps
       (case param_value p of
          Some v \<Rightarrow> bs @ lit ''; '' @ param_name p @ lit ''='' @ v
        | None \<Rightarrow> bs @ lit ''; '' @ param_name p)"

fun append_extension_header_value :: "'e Extension \<Rightarrow> 'e list \<Rightarrow> bytes \<Rightarrow> bytes" where
  "append_extension_header_value x [] bs = bs"
| "append_extension_header_value x (e # es) bs =
     (let bs = append_params (ext_params x e) (bs @ ext_name x e) in
      append_extension_header_value x es (if es \<noteq> [] then bs @ lit '', '' else bs))"

definition append_extensions :: "'e Extension \<Rightarrow> 'e list \<Rightarrow> bytes \<Rightarrow> bytes" where
  "append_extensions x extensions bs =
     append_extension_header_value x extensions
       (if extensions \<noteq> [] then bs @ crlf @ lit ''Sec-WebSocket-Extensions: '' else bs)"

text \<open>
  The headers with the extensions' name, each configuring the extensions: the loop of both handshakes.
\<close>

fun configure_from_headers :: "'e Extension \<Rightarrow> 'e list \<Rightarrow> http_Header list \<Rightarrow> (hs_Error + unit) \<times> 'e list" where
  "configure_from_headers x extensions [] = (Inr (), extensions)"
| "configure_from_headers x extensions (h # hs) =
     (if \<not> eq_ignore_ascii_case (hdr_name h) SEC_WEBSOCKET_EXTENSIONS then configure_from_headers x extensions hs
      else case from_utf8 (hdr_value h) of
          Inl e \<Rightarrow> (Inl (hs_from_utf8 e), extensions)
        | Inr line \<Rightarrow>
            (case configure_extensions x extensions line of
               (Inl e, extensions) \<Rightarrow> (Inl e, extensions)
             | (Inr _, extensions) \<Rightarrow> configure_from_headers x extensions hs))"

section \<open>The accept key\<close>

text \<open>The encoding of a digest must fill the 28 bytes (\<^verbatim>\<open>debug_assert_eq!\<close>).\<close>

definition generate_accept_key :: "'w Libs \<Rightarrow> bytes \<Rightarrow> bytes option" where
  "generate_accept_key lib key_base64 =
     (let d = sha1 lib (key_base64 @ KEY) in
      Option.bind (encode_slice lib d (replicate 28 0)) (\<lambda>output_buf.
      if length (base64 lib d) = 28 then Some output_buf else None))"

end
