(* ===== verification/Handshake_Client.thy ===== *)
theory Handshake_Client
  imports Handshake
begin

text \<open>
  \<^verbatim>\<open>src/handshake/client.rs\<close>: the client's side. The socket is the world of the environment, as in
  the connection.
\<close>

definition client_BLOCK_SIZE :: nat where "client_BLOCK_SIZE = 8 * 1024"

record ('w, 'e) Client =
  cl_socket :: 'w
  cl_host :: str
  cl_resource :: str
  cl_headers :: "http_Header list"
  cl_nonce :: bytes
  cl_protocols :: "str list"
  cl_extensions :: "'e list"
  cl_buffer :: bytes

datatype ServerResponse =
    Accepted "str option"
  | Redirect u16 str
  | Rejected u16

definition client_new :: "'w \<Rightarrow> str \<Rightarrow> str \<Rightarrow> ('w, 'e) Client" where
  "client_new socket host resource =
     \<lparr>cl_socket = socket, cl_host = host, cl_resource = resource, cl_headers = [], cl_nonce = replicate 24 0,
      cl_protocols = [], cl_extensions = [], cl_buffer = []\<rparr>"

definition client_set_buffer :: "('w, 'e) Client \<Rightarrow> bytes \<Rightarrow> ('w, 'e) Client" where
  "client_set_buffer self b = self\<lparr>cl_buffer := b\<rparr>"

definition client_take_buffer :: "('w, 'e) Client \<Rightarrow> bytes \<times> ('w, 'e) Client" where
  "client_take_buffer self = (cl_buffer self, self\<lparr>cl_buffer := []\<rparr>)"

definition client_set_headers :: "('w, 'e) Client \<Rightarrow> http_Header list \<Rightarrow> ('w, 'e) Client" where
  "client_set_headers self h = self\<lparr>cl_headers := h\<rparr>"

definition client_add_protocol :: "('w, 'e) Client \<Rightarrow> str \<Rightarrow> ('w, 'e) Client" where
  "client_add_protocol self p = self\<lparr>cl_protocols := cl_protocols self @ [p]\<rparr>"

definition client_add_extension :: "('w, 'e) Client \<Rightarrow> 'e \<Rightarrow> ('w, 'e) Client" where
  "client_add_extension self e = self\<lparr>cl_extensions := cl_extensions self @ [e]\<rparr>"

definition client_drain_extensions :: "('w, 'e) Client \<Rightarrow> 'e list \<times> ('w, 'e) Client" where
  "client_drain_extensions self = (cl_extensions self, self\<lparr>cl_extensions := []\<rparr>)"

definition client_into_builder :: "'w Env \<Rightarrow> 'e Extension \<Rightarrow> ('w, 'e) Client \<Rightarrow> ('w, 'e) Builder" where
  "client_into_builder env x self =
     (let builder = builder_new env (cl_socket self) Client;
          builder = set_buffer builder (cl_buffer self)
      in add_extensions x builder (cl_extensions self))"

definition client_into_inner :: "('w, 'e) Client \<Rightarrow> 'w" where
  "client_into_inner self = cl_socket self"

section \<open>The request\<close>

fun append_headers :: "http_Header list \<Rightarrow> bytes \<Rightarrow> bytes" where
  "append_headers [] bs = bs"
| "append_headers (h # hs) bs = append_headers hs (bs @ crlf @ hdr_name h @ lit '': '' @ hdr_value h)"

text \<open>The protocols joined by commas: all but the last are followed by one.\<close>

definition append_protocols :: "str list \<Rightarrow> bytes \<Rightarrow> bytes" where
  "append_protocols protocols bs =
     (if protocols = [] then bs
      else fold (\<lambda>p bs. bs @ p @ lit '','') (butlast protocols) (bs @ crlf @ lit ''Sec-WebSocket-Protocol: '') @ List.last protocols)"

text \<open>\<open>None\<close> when the encoded nonce does not fit, a panic.\<close>

definition encode_request :: "'w Libs \<Rightarrow> 'e Extension \<Rightarrow> ('w, 'e) Client \<Rightarrow> ('w, 'e) Client option" where
  "encode_request lib x self =
     (case random_16 lib (cl_socket self) of (nonce, socket) \<Rightarrow>
        Option.bind (encode_slice lib nonce (cl_nonce self)) (\<lambda>nonce.
        let buffer = cl_buffer self @ lit ''GET '' @ cl_resource self @ lit '' HTTP/1.1'' @
              crlf @ lit ''Host: '' @ cl_host self @
              crlf @ lit ''Upgrade: websocket'' @ crlf @ lit ''Connection: Upgrade'' @
              crlf @ lit ''Sec-WebSocket-Key: '' @ nonce;
            buffer = append_headers (cl_headers self) buffer;
            buffer = append_protocols (cl_protocols self) buffer;
            buffer = append_extensions x (cl_extensions self) buffer;
            buffer = buffer @ crlf @ lit ''Sec-WebSocket-Version: 13'' @ crlf @ crlf
        in Some (self\<lparr>cl_socket := socket, cl_nonce := nonce, cl_buffer := buffer\<rparr>)))"

section \<open>The response\<close>

definition is_redirect :: "u16 \<Rightarrow> bool" where
  "is_redirect code \<longleftrightarrow> 301 \<le> code \<and> code \<le> 303 \<or> code = 307 \<or> code = 308"

definition check_accept :: "'w Libs \<Rightarrow> bytes \<Rightarrow> bytes \<Rightarrow> hs_Error + unit" where
  "check_accept lib nonce theirs =
     (let ours = base64 lib (sha1 lib (nonce @ KEY)) in
      if ours \<noteq> theirs then Inl InvalidSecWebSocketAccept else Inr ())"

text \<open>The protocol the server chose, which must be one the client asked for.\<close>

definition select_protocol :: "str list \<Rightarrow> http_Header list \<Rightarrow> hs_Error + str option" where
  "select_protocol protocols headers =
     (case find (\<lambda>h. eq_ignore_ascii_case (hdr_name h) SEC_WEBSOCKET_PROTOCOL) headers of
        Some tp \<Rightarrow>
          (case find (\<lambda>p. p = hdr_value tp) protocols of
             Some p \<Rightarrow> Inr (Some p)
           | None \<Rightarrow> Inl UnsolicitedProtocol)
      | None \<Rightarrow> Inr None)"

text \<open>The checks of a \<^verbatim>\<open>101\<close> answer, in order; the extensions are configured on the way.\<close>

definition accept_response :: "'w Libs \<Rightarrow> 'e Extension \<Rightarrow> ('w, 'e) Client \<Rightarrow> http_Header list \<Rightarrow>
    (hs_Error + ServerResponse) \<times> ('w, 'e) Client" where
  "accept_response lib x self headers =
     (case expect_ascii_header headers (lit ''Upgrade'') (lit ''websocket'') of
        Inl e \<Rightarrow> (Inl e, self)
      | Inr _ \<Rightarrow>
     (case expect_ascii_header headers (lit ''Connection'') (lit ''upgrade'') of
        Inl e \<Rightarrow> (Inl e, self)
      | Inr _ \<Rightarrow>
     (case with_first_header headers (lit ''Sec-WebSocket-Accept'') (check_accept lib (cl_nonce self)) of
        Inl e \<Rightarrow> (Inl e, self)
      | Inr _ \<Rightarrow>
     (case configure_from_headers x (cl_extensions self) headers of
        (Inl e, extensions) \<Rightarrow> (Inl e, self\<lparr>cl_extensions := extensions\<rparr>)
      | (Inr _, extensions) \<Rightarrow>
          (case select_protocol (cl_protocols self) headers of
             Inl e \<Rightarrow> (Inl e, self\<lparr>cl_extensions := extensions\<rparr>)
           | Inr selected_proto \<Rightarrow> (Inr (Accepted selected_proto), self\<lparr>cl_extensions := extensions\<rparr>))))))"

definition decode_response :: "'w Libs \<Rightarrow> 'e Extension \<Rightarrow> ('w, 'e) Client \<Rightarrow>
    (hs_Error + (ServerResponse, unit) Parsing) \<times> ('w, 'e) Client" where
  "decode_response lib x self =
     (case parse_response lib MAX_NUM_HEADERS (cl_buffer self) of
        Inl e \<Rightarrow> (Inl (Http e), self)
      | Inr Partial \<Rightarrow> (Inr (NeedMore ()), self)
      | Inr (Complete response offset) \<Rightarrow>
          if rs_version response \<noteq> Some 1 then (Inl UnsupportedHttpVersion, self)
          else
            (case rs_code response of
               None \<Rightarrow> (Inr (Done (Rejected 0) offset), self)
             | Some code \<Rightarrow>
                 if code = 101 then
                   (case accept_response lib x self (rs_headers response) of
                      (Inl e, self) \<Rightarrow> (Inl e, self)
                    | (Inr v, self) \<Rightarrow> (Inr (Done v offset), self))
                 else if is_redirect code then
                   (case with_first_header (rs_headers response) (lit ''Location'')
                        (\<lambda>loc. case from_utf8 loc of Inl e \<Rightarrow> Inl (hs_from_utf8 e) | Inr s \<Rightarrow> Inr s) of
                      Inl e \<Rightarrow> (Inl e, self)
                    | Inr location \<Rightarrow> (Inr (Done (Redirect code location) offset), self))
                 else (Inr (Done (Rejected code) offset), self)))"

text \<open>Reading until the head of the response is complete; advancing past the end of the buffer would panic.\<close>

partial_function (option) client_read_loop :: "'w Libs \<Rightarrow> 'w Env \<Rightarrow> 'e Extension \<Rightarrow> ('w, 'e) Client \<Rightarrow>
    ((hs_Error + ServerResponse) \<times> ('w, 'e) Client) option" where
  "client_read_loop lib env x self =
     (case read env (cl_socket self) (cl_buffer self) client_BLOCK_SIZE of (r, socket, buffer) \<Rightarrow>
        let self = self\<lparr>cl_socket := socket, cl_buffer := buffer\<rparr> in
        case r of
          Inl e \<Rightarrow> Some (Inl (hs_from_io e), self)
        | Inr _ \<Rightarrow>
            (case decode_response lib x self of (d, self) \<Rightarrow>
               (case d of
                  Inl e \<Rightarrow> Some (Inl e, self)
                | Inr p \<Rightarrow>
                    (case p of
                       Done v offset \<Rightarrow>
                         if offset \<le> length (cl_buffer self)
                         then Some (Inr v, self\<lparr>cl_buffer := drop offset (cl_buffer self)\<rparr>) else None
                     | NeedMore _ \<Rightarrow> client_read_loop lib env x self))))"

declare client_read_loop.simps [code]

definition client_handshake :: "'w Libs \<Rightarrow> 'w Env \<Rightarrow> 'e Extension \<Rightarrow> ('w, 'e) Client \<Rightarrow>
    ((hs_Error + ServerResponse) \<times> ('w, 'e) Client) option" where
  "client_handshake lib env x self =
     Option.bind (encode_request lib x (self\<lparr>cl_buffer := []\<rparr>)) (\<lambda>self.
       case sock_write_all env (cl_socket self) (cl_buffer self) of
         (Inl e, socket) \<Rightarrow> Some (Inl (hs_from_io e), self\<lparr>cl_socket := socket\<rparr>)
       | (Inr _, socket) \<Rightarrow>
           (case sock_flush env socket of
              (Inl e, socket) \<Rightarrow> Some (Inl (hs_from_io e), self\<lparr>cl_socket := socket\<rparr>)
            | (Inr _, socket) \<Rightarrow> client_read_loop lib env x (self\<lparr>cl_socket := socket, cl_buffer := []\<rparr>)))"

end
