(* ===== verification/Handshake_Server.thy ===== *)
theory Handshake_Server
  imports Handshake
begin

text \<open>
  \<^verbatim>\<open>src/handshake/server.rs\<close>: the server's side. The version in the \<^verbatim>\<open>Server\<close> header is the one of
  \<^verbatim>\<open>Cargo.toml\<close>.
\<close>

definition MAX_HEADERS_SIZE :: nat where "MAX_HEADERS_SIZE = 8 * 1024"
definition server_BLOCK_SIZE :: nat where "server_BLOCK_SIZE = 8 * 1024"

record ('w, 'e) Server =
  sv_socket :: 'w
  sv_protocols :: "str list"
  sv_extensions :: "'e list"
  sv_buffer :: bytes

record RequestHeaders =
  rh_host :: bytes
  rh_origin :: "bytes option"

record ClientRequest =
  cr_ws_key :: bytes
  cr_protocols :: "str list"
  cr_path :: str
  cr_headers :: RequestHeaders

datatype Response = Accept bytes "str option" | Reject u16

definition server_new :: "'w \<Rightarrow> ('w, 'e) Server" where
  "server_new socket = \<lparr>sv_socket = socket, sv_protocols = [], sv_extensions = [], sv_buffer = []\<rparr>"

definition server_set_buffer :: "('w, 'e) Server \<Rightarrow> bytes \<Rightarrow> ('w, 'e) Server" where
  "server_set_buffer self b = self\<lparr>sv_buffer := b\<rparr>"

definition server_take_buffer :: "('w, 'e) Server \<Rightarrow> bytes \<times> ('w, 'e) Server" where
  "server_take_buffer self = (sv_buffer self, self\<lparr>sv_buffer := []\<rparr>)"

definition server_add_protocol :: "('w, 'e) Server \<Rightarrow> str \<Rightarrow> ('w, 'e) Server" where
  "server_add_protocol self p = self\<lparr>sv_protocols := sv_protocols self @ [p]\<rparr>"

definition server_add_extension :: "('w, 'e) Server \<Rightarrow> 'e \<Rightarrow> ('w, 'e) Server" where
  "server_add_extension self e = self\<lparr>sv_extensions := sv_extensions self @ [e]\<rparr>"

definition server_drain_extensions :: "('w, 'e) Server \<Rightarrow> 'e list \<times> ('w, 'e) Server" where
  "server_drain_extensions self = (sv_extensions self, self\<lparr>sv_extensions := []\<rparr>)"

definition server_into_builder :: "'w Env \<Rightarrow> 'e Extension \<Rightarrow> ('w, 'e) Server \<Rightarrow> ('w, 'e) Builder" where
  "server_into_builder env x self =
     (let builder = builder_new env (sv_socket self) Mode.Server;
          builder = set_buffer builder (sv_buffer self)
      in add_extensions x builder (sv_extensions self))"

definition server_into_inner :: "('w, 'e) Server \<Rightarrow> 'w" where
  "server_into_inner self = sv_socket self"

definition request_key :: "ClientRequest \<Rightarrow> bytes" where "request_key self = cr_ws_key self"
definition request_protocols :: "ClientRequest \<Rightarrow> str list" where "request_protocols self = cr_protocols self"
definition request_path :: "ClientRequest \<Rightarrow> str" where "request_path self = cr_path self"
definition request_headers :: "ClientRequest \<Rightarrow> RequestHeaders" where "request_headers self = cr_headers self"

section \<open>Decoding a request\<close>

definition websocket_key :: "bytes \<Rightarrow> hs_Error + bytes" where
  "websocket_key k = (if length k = 24 then Inr k else Inl (SecWebSocketKeyInvalidLength (length k)))"

fun offered_protocols :: "str list \<Rightarrow> http_Header list \<Rightarrow> str list" where
  "offered_protocols ours [] = []"
| "offered_protocols ours (h # hs) =
     (if eq_ignore_ascii_case (hdr_name h) SEC_WEBSOCKET_PROTOCOL then
        (case find (\<lambda>p. p = hdr_value h) ours of
           Some p \<Rightarrow> p # offered_protocols ours hs
         | None \<Rightarrow> offered_protocols ours hs)
      else offered_protocols ours hs)"

text \<open>The checks of the headers, in order; the extensions are configured on the way.\<close>

definition accept_request :: "'e Extension \<Rightarrow> ('w, 'e) Server \<Rightarrow> http_Request \<Rightarrow>
    (hs_Error + ClientRequest) \<times> ('w, 'e) Server" where
  "accept_request x self request =
     (let headers = rq_headers request in
      case with_first_header headers (lit ''Host'') Inr of
        Inl e \<Rightarrow> (Inl e, self)
      | Inr host \<Rightarrow>
     (case expect_ascii_header headers (lit ''Upgrade'') (lit ''websocket'') of
        Inl e \<Rightarrow> (Inl e, self)
      | Inr _ \<Rightarrow>
     (case expect_ascii_header headers (lit ''Connection'') (lit ''upgrade'') of
        Inl e \<Rightarrow> (Inl e, self)
      | Inr _ \<Rightarrow>
     (case expect_ascii_header headers (lit ''Sec-WebSocket-Version'') (lit ''13'') of
        Inl e \<Rightarrow> (Inl e, self)
      | Inr _ \<Rightarrow>
          let origin = map_option hdr_value (find (\<lambda>h. eq_ignore_ascii_case (hdr_name h) (lit ''Origin'')) headers) in
     (case with_first_header headers (lit ''Sec-WebSocket-Key'') websocket_key of
        Inl e \<Rightarrow> (Inl e, self)
      | Inr ws_key \<Rightarrow>
     (case configure_from_headers x (sv_extensions self) headers of
        (Inl e, extensions) \<Rightarrow> (Inl e, self\<lparr>sv_extensions := extensions\<rparr>)
      | (Inr _, extensions) \<Rightarrow>
          (Inr \<lparr>cr_ws_key = ws_key, cr_protocols = offered_protocols (sv_protocols self) headers,
                cr_path = (case rq_path request of Some p \<Rightarrow> p | None \<Rightarrow> lit ''/''),
                cr_headers = \<lparr>rh_host = host, rh_origin = origin\<rparr>\<rparr>,
           self\<lparr>sv_extensions := extensions\<rparr>)))))))"

definition decode_request :: "'w Libs \<Rightarrow> 'e Extension \<Rightarrow> ('w, 'e) Server \<Rightarrow>
    (hs_Error + ClientRequest) \<times> ('w, 'e) Server" where
  "decode_request lib x self =
     (case parse_request lib MAX_NUM_HEADERS (sv_buffer self) of
        Inl e \<Rightarrow> (Inl (Http e), self)
      | Inr Partial \<Rightarrow> (Inl IncompleteHttpRequest, self)
      | Inr (Complete request _) \<Rightarrow>
          if rq_method request \<noteq> Some (lit ''GET'') then (Inl InvalidRequestMethod, self)
          else if rq_version request \<noteq> Some 1 then (Inl UnsupportedHttpVersion, self)
          else accept_request x self request)"

section \<open>Receiving a request\<close>

fun windows4 :: "bytes \<Rightarrow> bytes list" where
  "windows4 (a # b # c # d # bs) = [a, b, c, d] # windows4 (b # c # d # bs)"
| "windows4 _ = []"

definition has_tail :: "bytes \<Rightarrow> bool" where
  "has_tail bs = list_ex (\<lambda>w. w = crlf @ crlf) (rev (windows4 bs))"

text \<open>
  The loop: only the bytes from \<open>skip\<close> to the limit are searched for the end of the head. A slice
  that starts after its end panics.
\<close>

partial_function (option) receive_head :: "'w Env \<Rightarrow> nat \<Rightarrow> ('w, 'e) Server \<Rightarrow> ((hs_Error + unit) \<times> ('w, 'e) Server) option" where
  "receive_head env skip self =
     (case read env (sv_socket self) (sv_buffer self) server_BLOCK_SIZE of (r, socket, buffer) \<Rightarrow>
        let self = self\<lparr>sv_socket := socket, sv_buffer := buffer\<rparr> in
        case r of
          Inl e \<Rightarrow> Some (Inl (hs_from_io e), self)
        | Inr _ \<Rightarrow>
            let limit = min (length buffer) MAX_HEADERS_SIZE in
            if limit < skip then None
            else if has_tail (drop skip (take limit buffer)) then Some (Inr (), self)
            else if limit = MAX_HEADERS_SIZE then Some (Inr (), self)
            else receive_head env (length buffer - 4) self)"

declare receive_head.simps [code]

definition receive_request :: "'w Libs \<Rightarrow> 'w Env \<Rightarrow> 'e Extension \<Rightarrow> ('w, 'e) Server \<Rightarrow>
    ((hs_Error + ClientRequest) \<times> ('w, 'e) Server) option" where
  "receive_request lib env x self =
     map_option (\<lambda>(r, self). case r of Inl e \<Rightarrow> (Inl e, self) | Inr _ \<Rightarrow> decode_request lib x self)
       (receive_head env 0 (self\<lparr>sv_buffer := []\<rparr>))"

section \<open>Responding\<close>

definition STATUSCODES :: "(u16 \<times> str) list" where
  "STATUSCODES = [
    (100, lit ''100 Continue''), (101, lit ''101 Switching Protocols''), (102, lit ''102 Processing''),
    (200, lit ''200 OK''), (201, lit ''201 Created''), (202, lit ''202 Accepted''),
    (203, lit ''203 Non Authoritative Information''), (204, lit ''204 No Content''),
    (205, lit ''205 Reset Content''), (206, lit ''206 Partial Content''), (207, lit ''207 Multi-Status''),
    (208, lit ''208 Already Reported''), (226, lit ''226 IM Used''), (300, lit ''300 Multiple Choices''),
    (301, lit ''301 Moved Permanently''), (302, lit ''302 Found''), (303, lit ''303 See Other''),
    (304, lit ''304 Not Modified''), (305, lit ''305 Use Proxy''), (307, lit ''307 Temporary Redirect''),
    (308, lit ''308 Permanent Redirect''), (400, lit ''400 Bad Request''), (401, lit ''401 Unauthorized''),
    (402, lit ''402 Payment Required''), (403, lit ''403 Forbidden''), (404, lit ''404 Not Found''),
    (405, lit ''405 Method Not Allowed''), (406, lit ''406 Not Acceptable''),
    (407, lit ''407 Proxy Authentication Required''), (408, lit ''408 Request Timeout''),
    (409, lit ''409 Conflict''), (410, lit ''410 Gone''), (411, lit ''411 Length Required''),
    (412, lit ''412 Precondition Failed''), (413, lit ''413 Payload Too Large''),
    (414, lit ''414 URI Too Long''), (415, lit ''415 Unsupported Media Type''),
    (416, lit ''416 Range Not Satisfiable''), (417, lit ''417 Expectation Failed''),
    (418, lit (''418 I'' @ CHR 0x27 # ''m a teapot'')), (421, lit ''421 Misdirected Request''),
    (422, lit ''422 Unprocessable Entity''), (423, lit ''423 Locked''), (424, lit ''424 Failed Dependency''),
    (426, lit ''426 Upgrade Required''), (428, lit ''428 Precondition Required''),
    (429, lit ''429 Too Many Requests''), (431, lit ''431 Request Header Fields Too Large''),
    (451, lit ''451 Unavailable For Legal Reasons''), (500, lit ''500 Internal Server Error''),
    (501, lit ''501 Not Implemented''), (502, lit ''502 Bad Gateway''), (503, lit ''503 Service Unavailable''),
    (504, lit ''504 Gateway Timeout''), (505, lit ''505 HTTP Version Not Supported''),
    (506, lit ''506 Variant Also Negotiates''), (507, lit ''507 Insufficient Storage''),
    (508, lit ''508 Loop Detected''), (510, lit ''510 Not Extended''),
    (511, lit ''511 Network Authentication Required'')]"

text \<open>\<^verbatim>\<open>binary_search_by_key\<close> of the standard library on a slice with at least one element: the range is halved.\<close>

function search_from :: "('k :: linorder) list \<Rightarrow> 'k \<Rightarrow> nat \<Rightarrow> nat \<Rightarrow> nat option" where
  "search_from ks k base n =
     (if 1 < n then
        let half = n div 2; mid = base + half in
        search_from ks k (if k < ks ! mid then base else mid) (n - half)
      else if ks ! base = k then Some base else None)"
  by pat_completeness auto
termination
  by (relation "measure (\<lambda>(ks, k, base, n). n)") auto

declare search_from.simps [simp del]

definition binary_search_by_key :: "('k :: linorder \<times> 'v) list \<Rightarrow> 'k \<Rightarrow> nat option" where
  "binary_search_by_key tbl k = (if tbl = [] then None else search_from (map fst tbl) k 0 (length tbl))"

definition reason_phrase :: "u16 \<Rightarrow> str" where
  "reason_phrase status_code =
     (case binary_search_by_key STATUSCODES status_code of
        Some i \<Rightarrow> snd (STATUSCODES ! i)
      | None \<Rightarrow> lit ''500 Internal Server Error'')"

definition encode_response :: "'w Libs \<Rightarrow> 'e Extension \<Rightarrow> ('w, 'e) Server \<Rightarrow> Response \<Rightarrow> ('w, 'e) Server option" where
  "encode_response lib x self response =
     (case response of
        Accept key protocol \<Rightarrow>
          Option.bind (generate_accept_key lib key) (\<lambda>accept_value.
          let buffer = sv_buffer self @ lit ''HTTP/1.1 101 Switching Protocols'' @
                crlf @ lit ''Server: soketto-0.8.1'' @
                crlf @ lit ''Upgrade: websocket'' @ crlf @ lit ''Connection: upgrade'' @
                crlf @ lit ''Sec-WebSocket-Accept: '' @ accept_value;
              buffer = (case protocol of
                  Some p \<Rightarrow> buffer @ crlf @ lit ''Sec-WebSocket-Protocol: '' @ p
                | None \<Rightarrow> buffer);
              buffer = append_extensions x (filter (ext_is_enabled x) (sv_extensions self)) buffer
          in Some (self\<lparr>sv_buffer := buffer @ crlf @ crlf\<rparr>))
      | Reject status_code \<Rightarrow>
          Some (self\<lparr>sv_buffer := sv_buffer self @ lit ''HTTP/1.1 '' @ reason_phrase status_code @ crlf @ crlf\<rparr>))"

definition send_response :: "'w Libs \<Rightarrow> 'w Env \<Rightarrow> 'e Extension \<Rightarrow> ('w, 'e) Server \<Rightarrow> Response \<Rightarrow>
    ((hs_Error + unit) \<times> ('w, 'e) Server) option" where
  "send_response lib env x self r =
     map_option (\<lambda>self.
       case sock_write_all env (sv_socket self) (sv_buffer self) of
         (Inl e, socket) \<Rightarrow> (Inl (hs_from_io e), self\<lparr>sv_socket := socket\<rparr>)
       | (Inr _, socket) \<Rightarrow>
           (case sock_flush env socket of
              (Inl e, socket) \<Rightarrow> (Inl (hs_from_io e), self\<lparr>sv_socket := socket\<rparr>)
            | (Inr _, socket) \<Rightarrow> (Inr (), self\<lparr>sv_socket := socket, sv_buffer := []\<rparr>)))
       (encode_response lib x (self\<lparr>sv_buffer := []\<rparr>) r)"

end
