(* ===== verification/Http_Head.thy ===== *)
theory Http_Head
  imports Handshake_Client Handshake_Server
begin

text \<open>
  Heads of HTTP messages as the handshakes write them, what the libraries they use promise (\<open>libs_ok\<close>), and a
  parser of heads that keeps these promises.
\<close>

section \<open>Heads of HTTP messages\<close>

definition printable :: "u8 \<Rightarrow> bool" where
  "printable b = in_range 0x20 0x7E b"

text \<open>Letters, digits and the hyphen, of which header names consist, and those of simple paths.\<close>

definition name_byte :: "u8 \<Rightarrow> bool" where
  "name_byte b \<longleftrightarrow> in_range 0x41 0x5A b \<or> in_range 0x61 0x7A b \<or> in_range 0x30 0x39 b \<or> b = 0x2D"

definition path_byte :: "u8 \<Rightarrow> bool" where
  "path_byte b \<longleftrightarrow> name_byte b \<or> b \<in> {0x26, 0x2E, 0x2F, 0x3D, 0x3F, 0x5F}"

definition value_ok :: "bytes \<Rightarrow> bool" where
  "value_ok v \<longleftrightarrow> list_all printable v \<and> (v \<noteq> [] \<longrightarrow> hd v \<noteq> 0x20 \<and> List.last v \<noteq> 0x20)"

definition header_ok :: "http_Header \<Rightarrow> bool" where
  "header_ok h \<longleftrightarrow> hdr_name h \<noteq> [] \<and> list_all name_byte (hdr_name h) \<and> value_ok (hdr_value h)"

definition header_line :: "http_Header \<Rightarrow> bytes" where
  "header_line h = hdr_name h @ lit '': '' @ hdr_value h"

text \<open>A start line, the header lines and an empty line.\<close>

definition head :: "bytes \<Rightarrow> http_Header list \<Rightarrow> bytes" where
  "head start hs = start @ concat (map (\<lambda>h. crlf @ header_line h) hs) @ crlf @ crlf"

definition request_line :: "str \<Rightarrow> str \<Rightarrow> bytes" where
  "request_line verb path = verb @ lit '' '' @ path @ lit '' HTTP/1.1''"

definition decimal3 :: "nat \<Rightarrow> str" where
  "decimal3 n = [0x30 + of_nat (n div 100), 0x30 + of_nat (n div 10 mod 10), 0x30 + of_nat (n mod 10)]"

definition status_line :: "nat \<Rightarrow> str \<Rightarrow> bytes" where
  "status_line code reason = lit ''HTTP/1.1 '' @ decimal3 code @ lit '' '' @ reason"

section \<open>What the libraries promise\<close>

text \<open>
  A head with at most as many headers as there is room for is parsed into its parts, whatever follows it, and
  a proper prefix of a head is incomplete.
\<close>

definition parse_request_ok :: "(nat \<Rightarrow> bytes \<Rightarrow> BoxedError + http_Request http_Status) \<Rightarrow> bool" where
  "parse_request_ok parse \<longleftrightarrow>
     (\<forall>n verb path hs rest. verb \<noteq> [] \<and> list_all name_byte verb \<and> path \<noteq> [] \<and> list_all path_byte path \<and>
        list_all header_ok hs \<and> length hs \<le> n \<longrightarrow>
        parse n (head (request_line verb path) hs @ rest) =
          Inr (Complete \<lparr>rq_method = Some verb, rq_path = Some path, rq_version = Some 1, rq_headers = hs\<rparr>
            (length (head (request_line verb path) hs))))"

definition parse_response_ok :: "(nat \<Rightarrow> bytes \<Rightarrow> BoxedError + http_Response http_Status) \<Rightarrow> bool" where
  "parse_response_ok parse \<longleftrightarrow>
     (\<forall>n code reason hs rest. 100 \<le> code \<and> code < 1000 \<and> value_ok reason \<and> list_all header_ok hs \<and> length hs \<le> n \<longrightarrow>
        parse n (head (status_line code reason) hs @ rest) =
          Inr (Complete \<lparr>rs_version = Some 1, rs_code = Some (of_nat code), rs_headers = hs\<rparr>
            (length (head (status_line code reason) hs)))) \<and>
     (\<forall>n code reason hs bs rest. 100 \<le> code \<and> code < 1000 \<and> value_ok reason \<and> list_all header_ok hs \<and> length hs \<le> n \<and>
        rest \<noteq> [] \<and> bs @ rest = head (status_line code reason) hs \<longrightarrow> parse n bs = Inr Partial)"

text \<open>SHA-1 digests have 20 bytes, base64 writes 4 printable bytes for each 3, and a nonce has 16 bytes.\<close>

definition libs_ok :: "'w Libs \<Rightarrow> ('w \<Rightarrow> bytes) \<Rightarrow> ('w \<Rightarrow> bytes) \<Rightarrow> bool" where
  "libs_ok lib inp outp \<longleftrightarrow>
     parse_request_ok (parse_request lib) \<and> parse_response_ok (parse_response lib) \<and>
     (\<forall>d. length (sha1 lib d) = 20) \<and>
     (\<forall>d. length (base64 lib d) = 4 * ((length d + 2) div 3)) \<and>
     (\<forall>d. list_all (\<lambda>b. in_range 0x21 0x7E b) (base64 lib d)) \<and>
     (\<forall>w n w'. random_16 lib w = (n, w') \<longrightarrow> length n = 16 \<and> inp w' = inp w \<and> outp w' = outp w)"

lemma parse_request_okD:
  assumes "parse_request_ok parse" "verb \<noteq> []" "list_all name_byte verb" "path \<noteq> []" "list_all path_byte path"
    and "list_all header_ok hs" "length hs \<le> n"
  shows "parse n (head (request_line verb path) hs) = Inr (Complete \<lparr>rq_method = Some verb, rq_path = Some path, rq_version = Some 1,
      rq_headers = hs\<rparr> (length (head (request_line verb path) hs)))"
  using assms(1) [unfolded parse_request_ok_def, rule_format, of verb path hs n "[]"] assms(2-) by simp

lemma parse_response_okD:
  assumes "parse_response_ok parse" "100 \<le> code" "code < 1000" "value_ok reason" "list_all header_ok hs" "length hs \<le> n"
  shows "parse n (head (status_line code reason) hs) = Inr (Complete \<lparr>rs_version = Some 1, rs_code = Some (of_nat code),
      rs_headers = hs\<rparr> (length (head (status_line code reason) hs)))"
  using assms(1) [unfolded parse_response_ok_def, THEN conjunct1, rule_format, of code reason hs n "[]"] assms(2-) by simp

section \<open>A parser\<close>

fun cut_line :: "bytes \<Rightarrow> (bytes \<times> bytes) option" where
  "cut_line (a # b # bs) =
     (if a = 0x0D \<and> b = 0x0A then Some ([], bs) else map_option (\<lambda>(l, r). (a # l, r)) (cut_line (b # bs)))"
| "cut_line _ = None"

lemma cut_line_shorter: "cut_line bs = Some (l, r) \<Longrightarrow> length r < length bs"
  by (induction bs arbitrary: l r rule: cut_line.induct) (auto split: if_splits simp: less_Suc_eq)

text \<open>The lines up to the first empty one, with what follows it.\<close>

function cut_lines :: "bytes \<Rightarrow> (bytes list \<times> bytes) option" where
  "cut_lines bs =
     (case cut_line bs of
        None \<Rightarrow> None
      | Some (l, r) \<Rightarrow> if l = [] then Some ([], r) else map_option (\<lambda>(ls, r). (l # ls, r)) (cut_lines r))"
  by pat_completeness auto
termination
  by (relation "measure length") (auto dest: cut_line_shorter)

declare cut_lines.simps [simp del]

definition parse_header :: "bytes \<Rightarrow> http_Header" where
  "parse_header l = \<lparr>hdr_name = takeWhile (\<lambda>b. b \<noteq> 0x3A) l, hdr_value = drop 2 (dropWhile (\<lambda>b. b \<noteq> 0x3A) l)\<rparr>"

definition parse_decimal3 :: "bytes \<Rightarrow> u16 option" where
  "parse_decimal3 s =
     (case s of a # b # c # _ \<Rightarrow>
        if list_all (in_range 0x30 0x39) [a, b, c]
        then Some (of_nat (100 * (unat a - 48) + 10 * (unat b - 48) + (unat c - 48))) else None
      | _ \<Rightarrow> None)"

definition simple_parse :: "(bytes \<Rightarrow> BoxedError + 'a) \<Rightarrow> ('a \<Rightarrow> http_Header list \<Rightarrow> 'b) \<Rightarrow> nat \<Rightarrow> bytes \<Rightarrow>
    BoxedError + 'b http_Status" where
  "simple_parse start build n bs =
     (case cut_lines bs of
        None \<Rightarrow> Inr Partial
      | Some ([], r) \<Rightarrow> Inl ''start line''
      | Some (l # ls, r) \<Rightarrow>
          (case start l of
             Inl e \<Rightarrow> Inl e
           | Inr a \<Rightarrow>
               if n < length ls then Inl ''too many headers''
               else Inr (Complete (build a (map parse_header ls)) (length bs - length r))))"

definition simple_parse_request :: "nat \<Rightarrow> bytes \<Rightarrow> BoxedError + http_Request http_Status" where
  "simple_parse_request =
     simple_parse (\<lambda>l. case split_on 0x20 l of
         [m, p, v] \<Rightarrow> if v = lit ''HTTP/1.1'' then Inr (m, p) else Inl ''version''
       | _ \<Rightarrow> Inl ''request line'')
       (\<lambda>(m, p) hs. \<lparr>rq_method = Some m, rq_path = Some p, rq_version = Some 1, rq_headers = hs\<rparr>)"

definition simple_parse_response :: "nat \<Rightarrow> bytes \<Rightarrow> BoxedError + http_Response http_Status" where
  "simple_parse_response =
     simple_parse (\<lambda>l. if take 9 l = lit ''HTTP/1.1 '' then
         (case parse_decimal3 (drop 9 l) of Some c \<Rightarrow> Inr c | None \<Rightarrow> Inl ''status'') else Inl ''version'')
       (\<lambda>c hs. \<lparr>rs_version = Some 1, rs_code = Some c, rs_headers = hs\<rparr>)"

lemma cut_line_append: "0x0D \<notin> set l \<Longrightarrow> cut_line (l @ crlf @ r) = Some (l, r)"
proof (induction l)
  case (Cons a l)
  obtain b bs where b: "l @ crlf @ r = b # bs" by (cases l) (auto simp: crlf_def)
  show ?case using Cons b by (auto simp: crlf_def)
qed (simp add: crlf_def)

lemma cut_line_extend: "cut_line bs = Some (l, r) \<Longrightarrow> cut_line (bs @ x) = Some (l, r @ x)"
  by (induction bs arbitrary: l r rule: cut_line.induct) (auto split: if_splits)

lemma cut_lines_extend: "cut_lines bs = Some (ls, r) \<Longrightarrow> cut_lines (bs @ x) = Some (ls, r @ x)"
proof (induction bs arbitrary: ls r rule: cut_lines.induct)
  case (1 bs)
  obtain l r1 where l: "cut_line bs = Some (l, r1)"
    using 1(2) by (subst (asm) cut_lines.simps) (auto split: option.splits)
  show ?case using 1(2) "1.IH" [OF l refl] cut_line_extend [OF l, of x] l
    by (subst cut_lines.simps, subst (asm) cut_lines.simps) (auto split: if_splits)
qed

lemma cut_lines_append:
  "list_all (\<lambda>l. l \<noteq> [] \<and> 0x0D \<notin> set l) ls \<Longrightarrow> cut_lines (concat (map (\<lambda>l. l @ crlf) ls) @ crlf @ r) = Some (ls, r)"
proof (induction ls)
  case Nil
  show ?case by (subst cut_lines.simps) (simp add: crlf_def)
next
  case (Cons l ls)
  then show ?case
    using cut_line_append [of l "concat (map (\<lambda>l. l @ crlf) ls) @ crlf @ r"] by (subst cut_lines.simps) simp
qed

lemma head_lines: "head start hs = concat (map (\<lambda>l. l @ crlf) (start # map header_line hs)) @ crlf"
  unfolding head_def by (induction hs arbitrary: start) auto

lemma name_byte_printable: "name_byte b \<Longrightarrow> printable b \<and> b \<noteq> 0x20 \<and> b \<noteq> 0x3A"
  by (auto simp: name_byte_def printable_def in_range_def word_le_nat_alt)

lemma path_byte_printable: "path_byte b \<Longrightarrow> printable b \<and> b \<noteq> 0x20"
  using name_byte_printable [of b] by (auto simp: path_byte_def printable_def in_range_def)

lemma printable_no_cr: "list_all printable s \<Longrightarrow> 0x0D \<notin> set s"
  by (auto simp: list_all_iff printable_def in_range_def)

lemma list_all_lit: "list_all P (lit s) = list_all P (map of_char s)"
  by (simp add: lit_def)

lemma header_line_ok:
  assumes "header_ok h"
  shows "header_line h \<noteq> []" "0x0D \<notin> set (header_line h)" "parse_header (header_line h) = h"
proof -
  have n: "list_all printable (hdr_name h)" "\<forall>b \<in> set (hdr_name h). b \<noteq> 0x3A"
    using assms name_byte_printable by (auto simp: header_ok_def list_all_iff)
  have v: "list_all printable (hdr_value h)" using assms by (simp add: header_ok_def value_ok_def)
  show "header_line h \<noteq> []" by (simp add: header_line_def lit_def)
  show "0x0D \<notin> set (header_line h)"
    using printable_no_cr [OF n(1)] printable_no_cr [OF v] by (simp add: header_line_def lit_def)
  show "parse_header (header_line h) = h"
    using n(2) by (simp add: parse_header_def header_line_def lit_def takeWhile_append2 dropWhile_append2)
qed

lemma cut_lines_head:
  assumes "start \<noteq> []" "0x0D \<notin> set start" "list_all header_ok hs"
  shows "cut_lines (head start hs @ r) = Some (start # map header_line hs, r)"
proof -
  have "list_all (\<lambda>l. l \<noteq> [] \<and> 0x0D \<notin> set l) (start # map header_line hs)"
    using assms header_line_ok by (auto simp: list_all_iff)
  from cut_lines_append [OF this, of r] show ?thesis unfolding head_lines by simp
qed

lemma cut_lines_head_prefix:
  assumes "start \<noteq> []" "0x0D \<notin> set start" "list_all header_ok hs" "bs @ rest = head start hs" "rest \<noteq> []"
  shows "cut_lines bs = None"
proof (rule ccontr)
  assume "cut_lines bs \<noteq> None"
  then obtain ls r where "cut_lines bs = Some (ls, r)" by auto
  from cut_lines_extend [OF this, of rest] show False
    using assms(4,5) cut_lines_head [OF assms(1-3), of "[]"] by simp
qed

lemma map_parse_header: "list_all header_ok hs \<Longrightarrow> map parse_header (map header_line hs) = hs"
  by (induction hs) (auto simp: header_line_ok)

lemma simple_parse_head:
  assumes "start l = Inr a" "l \<noteq> []" "0x0D \<notin> set l" "list_all header_ok hs" "length hs \<le> n"
  shows "simple_parse start build n (head l hs @ rest) = Inr (Complete (build a hs) (length (head l hs)))"
  unfolding simple_parse_def cut_lines_head [OF assms(2-4)] using assms(1,5) map_parse_header [OF assms(4)] by simp

lemma simple_parse_request_ok: "parse_request_ok simple_parse_request"
  unfolding parse_request_ok_def
proof (intro allI impI, elim conjE)
  fix n verb path hs rest
  assume a: "verb \<noteq> []" "list_all name_byte verb" "path \<noteq> []" "list_all path_byte path" "list_all header_ok hs" "length hs \<le> n"
  have p: "list_all printable verb" "0x20 \<notin> set verb" "list_all printable path" "0x20 \<notin> set path"
    using a(2,4) name_byte_printable path_byte_printable unfolding list_all_iff by blast+
  have s: "split_on 0x20 (request_line verb path) = [verb, path, lit ''HTTP/1.1'']"
    using p by (simp add: request_line_def lit_def split_on_append split_on_free)
  have "0x0D \<notin> set (request_line verb path)"
    using printable_no_cr [OF p(1)] printable_no_cr [OF p(3)] by (simp add: request_line_def lit_def)
  then show "simple_parse_request n (head (request_line verb path) hs @ rest) =
      Inr (Complete \<lparr>rq_method = Some verb, rq_path = Some path, rq_version = Some 1, rq_headers = hs\<rparr>
        (length (head (request_line verb path) hs)))"
    unfolding simple_parse_request_def using a s by (subst simple_parse_head) (auto simp: request_line_def)
qed

lemma parse_decimal3_ok:
  assumes "100 \<le> code" "code < 1000"
  shows "parse_decimal3 (decimal3 code @ s) = Some (of_nat code)"
proof -
  have d: "in_range 0x30 0x39 (0x30 + of_nat k :: u8) \<and> unat (0x30 + of_nat k :: u8) = 48 + k" if "k < 10" for k
  proof -
    have "unat (0x30 + of_nat k :: u8) = 48 + k" using that by (simp add: unat_word_ariths unat_of_nat take_bit_eq_mod)
    then show ?thesis using that by (simp add: in_range_def word_le_nat_alt)
  qed
  have "100 * (code div 10 div 10) + 10 * (code div 10 mod 10) + code mod 10 = code"
    using div_mult_mod_eq [of "code div 10" 10] div_mult_mod_eq [of code 10] by linarith
  then have "100 * (code div 100) + 10 * (code div 10 mod 10) + code mod 10 = code"
    by (simp add: div_mult2_eq [symmetric])
  moreover have "code div 100 < 10" "code div 10 mod 10 < 10" "code mod 10 < 10" using assms(2) by auto
  ultimately show ?thesis using d by (simp add: parse_decimal3_def decimal3_def)
qed

lemma status_line_ok:
  fixes code :: nat
  assumes "code < 1000" "value_ok reason"
  shows "status_line code reason \<noteq> []" "0x0D \<notin> set (status_line code reason)"
proof -
  have "(0x30 + of_nat k :: u8) \<noteq> 0x0D" if "k < 10" for k
    using that unat_of_nat [of k, where 'a = 8] by (auto simp: word_eq_iff_unsigned unat_word_ariths take_bit_eq_mod dest!: arg_cong [where f = unat])
  moreover have "code div 100 < 10" "code div 10 mod 10 < 10" "code mod 10 < 10" using assms(1) by auto
  ultimately show "0x0D \<notin> set (status_line code reason)"
    using printable_no_cr [of reason] assms(2) by (auto simp: status_line_def decimal3_def lit_def value_ok_def dest!: sym [of "0x0D"])
qed (simp add: status_line_def lit_def)

lemma simple_parse_response_ok: "parse_response_ok simple_parse_response"
  unfolding parse_response_ok_def
proof (intro conjI allI impI; elim conjE)
  fix n code :: nat and reason hs rest
  assume a: "100 \<le> code" "code < 1000" "value_ok reason" "list_all header_ok hs" "length hs \<le> n"
  show "simple_parse_response n (head (status_line code reason) hs @ rest) =
      Inr (Complete \<lparr>rs_version = Some 1, rs_code = Some (of_nat code), rs_headers = hs\<rparr> (length (head (status_line code reason) hs)))"
    unfolding simple_parse_response_def using a status_line_ok [OF a(2,3)] parse_decimal3_ok [OF a(1,2), of "lit '' '' @ reason"]
    by (subst simple_parse_head) (auto simp: status_line_def lit_def)
next
  fix n code :: nat and reason hs bs rest
  assume a: "100 \<le> code" "code < 1000" "value_ok reason" "list_all header_ok hs" "rest \<noteq> []" "bs @ rest = head (status_line code reason) hs"
  show "simple_parse_response n bs = Inr Partial"
    unfolding simple_parse_response_def simple_parse_def cut_lines_head_prefix [OF status_line_ok [OF a(2,3)] a(4,6,5)] by simp
qed

end
