(* ===== verification/Memory_Socket.thy ===== *)
theory Memory_Socket
  imports Soketto_Lib
begin

text \<open>
  An in-memory socket that meets the assumptions on the environment: the input is a byte list that a
  single read delivers in pieces of at most a given size, the output a byte list, the random generator a
  counter. The concrete runs of the development use it.
\<close>

record Mem =
  mem_in :: bytes
  mem_out :: bytes
  mem_key :: u32

definition mem_env :: "nat \<Rightarrow> Mem Env" where
  "mem_env piece =
     \<lparr>sock_read = (\<lambda>w n. let k = min n (max 1 piece) in (Inr (take k (mem_in w)), w\<lparr>mem_in := drop k (mem_in w)\<rparr>)),
      sock_read_exact = (\<lambda>w n.
        if n \<le> length (mem_in w) then (Inr (take n (mem_in w)), w\<lparr>mem_in := drop n (mem_in w)\<rparr>)
        else (Inl (UnexpectedEof, mem_in w), w\<lparr>mem_in := []\<rparr>)),
      sock_discard = (\<lambda>w n.
        (Inr (of_nat (min (unat n) (length (mem_in w)))), w\<lparr>mem_in := drop (unat n) (mem_in w)\<rparr>)),
      sock_write_all = (\<lambda>w bs. (Inr (), w\<lparr>mem_out := mem_out w @ bs\<rparr>)),
      sock_flush = (\<lambda>w. (Inr (), w)),
      sock_close = (\<lambda>w. (Inr (), w)),
      random_u32 = (\<lambda>w. (mem_key w, w\<lparr>mem_key := mem_key w + 1\<rparr>))\<rparr>"

lemma min_unat_unat: "unat (of_nat (min (unat (n :: u64)) k) :: u64) = min (unat n) k"
proof -
  have "min (unat n) k < 2 ^ LENGTH(64)" using unsigned_less [of n, where ?'a = nat] by simp
  then show ?thesis by (simp add: unat_of_nat take_bit_nat_eq_self)
qed

lemma mem_env_ok: "env_ok (mem_env piece) mem_in mem_out"
  unfolding env_ok_def source_ok_def source_reliable_def sink_ok_def mem_env_def
  by (auto simp: Let_def min_unat_unat split: if_splits)

end
