(* ===== verification/Memory_Libs.thy ===== *)
theory Memory_Libs
  imports Http_Head Memory_Socket
begin

text \<open>
  Libraries that keep the promises the handshakes rely on, for the concrete runs of the development: the parser of
  \<open>Http_Head\<close>, base64 with the standard alphabet, and a digest of 20 bytes in place of SHA-1.
\<close>

definition base64_alphabet :: bytes where
  "base64_alphabet = lit ''ABCDEFGHIJKLMNOPQRSTUVWXYZabcdefghijklmnopqrstuvwxyz0123456789+/''"

definition base64_byte :: "nat \<Rightarrow> u8" where
  "base64_byte n = base64_alphabet ! n"

definition base64_group :: "nat \<Rightarrow> bytes" where
  "base64_group n = map base64_byte [n div 2 ^ 18 mod 64, n div 2 ^ 12 mod 64, n div 2 ^ 6 mod 64, n mod 64]"

fun base64_std :: "bytes \<Rightarrow> bytes" where
  "base64_std (a # b # c # bs) = base64_group (unat a * 2 ^ 16 + unat b * 2 ^ 8 + unat c) @ base64_std bs"
| "base64_std [a, b] = take 3 (base64_group (unat a * 2 ^ 16 + unat b * 2 ^ 8)) @ [0x3D]"
| "base64_std [a] = take 2 (base64_group (unat a * 2 ^ 16)) @ [0x3D, 0x3D]"
| "base64_std [] = []"

definition mem_libs :: "Mem Libs" where
  "mem_libs =
     \<lparr>parse_request = simple_parse_request, parse_response = simple_parse_response,
      sha1 = (\<lambda>d. take 20 (d @ replicate 20 0)), base64 = base64_std,
      random_16 = (\<lambda>w. (replicate 12 0x5A @ to_be_bytes 4 (mem_key w), w\<lparr>mem_key := mem_key w + 1\<rparr>))\<rparr>"

lemma base64_byte_graphic:
  assumes "n < 64"
  shows "in_range 0x21 0x7E (base64_byte n)"
proof -
  have "list_all (\<lambda>b. in_range 0x21 0x7E b) base64_alphabet" by (simp add: base64_alphabet_def lit_def in_range_def)
  moreover have "base64_byte n \<in> set base64_alphabet"
    unfolding base64_byte_def using assms by (intro nth_mem) (simp add: base64_alphabet_def lit_def)
  ultimately show ?thesis by (simp add: list_all_iff)
qed

lemma base64_group_graphic: "list_all (\<lambda>b. in_range 0x21 0x7E b) (base64_group n)"
  by (simp add: base64_group_def base64_byte_graphic)

lemma base64_std_graphic: "list_all (\<lambda>b. in_range 0x21 0x7E b) (base64_std bs)"
proof (induction bs rule: base64_std.induct)
  case (2 a b)
  show ?case using base64_group_graphic [of "unat a * 2 ^ 16 + unat b * 2 ^ 8"]
    by (auto simp: list_all_iff in_range_def dest: in_set_takeD)
next
  case (3 a)
  show ?case using base64_group_graphic [of "unat a * 2 ^ 16"]
    by (auto simp: list_all_iff in_range_def dest: in_set_takeD)
qed (use base64_group_graphic in auto)

lemma base64_std_length: "length (base64_std bs) = 4 * ((length bs + 2) div 3)"
proof (induction bs rule: base64_std.induct)
  case (1 a b c bs)
  have "(length (a # b # c # bs) + 2) div 3 = (length bs + 2) div 3 + 1" by simp
  then show ?case using 1 by (simp add: base64_group_def)
qed (simp_all add: base64_group_def)

lemma mem_libs_ok: "libs_ok mem_libs mem_in mem_out"
  unfolding libs_ok_def mem_libs_def
  using simple_parse_request_ok simple_parse_response_ok base64_std_length base64_std_graphic by auto

end
