(* ===== verification/Header_Lookup.thy ===== *)
theory Header_Lookup
  imports Http_Head
begin

text \<open>
  Header lookups, and the round trip of extension headers: what one side prints is what the other side parses.
\<close>

section \<open>Header lookups\<close>

definition named :: "str \<Rightarrow> http_Header \<Rightarrow> bool" where
  "named name h = eq_ignore_ascii_case (hdr_name h) name"

definition lists_value :: "str \<Rightarrow> http_Header \<Rightarrow> bool" where
  "lists_value ours h = (case from_utf8 (hdr_value h) of
       Inr s \<Rightarrow> \<exists>item \<in> set (split_on 0x2C s). eq_ignore_ascii_case (trim item) ours
     | Inl e \<Rightarrow> False)"

lemma expect_step_cases:
  "expect_step ours r h =
     (if r = Inr Match \<or> lists_value ours h then Inr Match
      else case from_utf8 (hdr_value h) of Inl e \<Rightarrow> Inl (hs_from_utf8 e) | Inr s \<Rightarrow> Inr Name)"
  by (auto simp: expect_step_def lists_value_def value_lists_def list_ex_iff split: sum.splits)

lemma foldl_expect_step:
  "foldl (expect_step ours) r hs =
     (if r = Inr Match \<or> (\<exists>h \<in> set hs. lists_value ours h) then Inr Match
      else if hs = [] then r
      else case from_utf8 (hdr_value (List.last hs)) of Inl e \<Rightarrow> Inl (hs_from_utf8 e) | Inr s \<Rightarrow> Inr Name)"
  by (induction hs rule: rev_induct) (auto simp: expect_step_cases split: sum.splits)

lemma expect_ascii_header_eq:
  "expect_ascii_header headers name ours =
     (let hs = filter (named name) headers in
      if \<exists>h \<in> set hs. lists_value ours h then Inr ()
      else if hs = [] then Inl (HeaderNotFound name)
      else case from_utf8 (hdr_value (List.last hs)) of Inl e \<Rightarrow> Inl (hs_Error.Utf8 e) | Inr s \<Rightarrow> Inl (UnexpectedHeader name))"
  unfolding expect_ascii_header_def Let_def named_def
  by (auto simp: foldl_expect_step hs_from_utf8_def split: sum.splits)

lemma expect_ascii_header_ok:
  "h \<in> set headers \<Longrightarrow> named name h \<Longrightarrow> lists_value ours h \<Longrightarrow> expect_ascii_header headers name ours = Inr ()"
  by (auto simp: expect_ascii_header_eq Let_def)

text \<open>
  C34. Looking for a value in a header that may occur several times and holds a comma-separated list: it is found exactly
  when one of the headers of that name is valid UTF-8 and lists it, up to case and white space. Otherwise the
  error tells whether there was no header of the name, or else it is decided by the last one alone.
\<close>

theorem expect_ascii_header_spec:
  "expect_ascii_header headers name ours =
     (let hs = filter (named name) headers in
      if \<exists>h \<in> set hs. lists_value ours h then Inr ()
      else if hs = [] then Inl (HeaderNotFound name)
      else case from_utf8 (hdr_value (List.last hs)) of Inl e \<Rightarrow> Inl (hs_Error.Utf8 e) | Inr s \<Rightarrow> Inl (UnexpectedHeader name))"
  by (rule expect_ascii_header_eq)

section \<open>Extension lines\<close>

definition graphic :: "u8 \<Rightarrow> bool" where
  "graphic b = in_range 0x21 0x7E b"

lemma graphic_no_space:
  assumes "graphic b"
  shows "\<not> ws1 b" "\<not> ws2 b c" "\<not> ws2 c b" "\<not> ws3 b c d" "\<not> ws3 c d b"
  using assms by (auto simp: graphic_def ws1_def ws2_def ws3_def in_range_def word_le_nat_alt)

lemma trim_start_graphic: "s = [] \<or> graphic (hd s) \<Longrightarrow> trim_start s = s"
  by (cases s rule: trim_start.cases) (auto simp: graphic_no_space)

lemma trim_rev_graphic: "s = [] \<or> graphic (hd s) \<Longrightarrow> trim_rev s = s"
  by (cases s rule: trim_rev.cases) (auto simp: graphic_no_space)

lemma trim_graphic:
  assumes "list_all graphic s"
  shows "trim s = s" "trim (0x20 # s) = s"
proof -
  have s: "s = [] \<or> graphic (hd s)" "rev s = [] \<or> graphic (hd (rev s))"
    using assms by (cases s, simp_all) (cases s rule: rev_cases, simp_all)
  have "trim_start (0x20 # s) = trim_start s"
    by (cases s rule: trim_start.cases) (auto simp: ws1_def)
  then show "trim s = s" "trim (0x20 # s) = s"
    using trim_start_graphic [OF s(1)] trim_rev_graphic [OF s(2)] by (simp_all add: trim_def)
qed

definition token_byte :: "u8 \<Rightarrow> bool" where
  "token_byte b \<longleftrightarrow> name_byte b \<or> b = 0x5F"

lemma token_byte_graphic: "token_byte b \<Longrightarrow> graphic b \<and> b \<notin> {0x22, 0x2C, 0x3B, 0x3D}"
  by (auto simp: token_byte_def name_byte_def graphic_def in_range_def word_le_nat_alt)

lemma token_no_separator:
  assumes "list_all token_byte s"
  shows "list_all graphic s" "0x2C \<notin> set s" "0x3B \<notin> set s" "0x3D \<notin> set s" "0x22 \<notin> set s"
  using assms token_byte_graphic unfolding list_all_iff by blast+

definition param_ok :: "Param \<Rightarrow> bool" where
  "param_ok p \<longleftrightarrow> list_all token_byte (param_name p) \<and>
     (case param_value p of Some v \<Rightarrow> list_all token_byte v | None \<Rightarrow> True)"

definition param_text :: "Param \<Rightarrow> bytes" where
  "param_text p = param_name p @ (case param_value p of Some v \<Rightarrow> 0x3D # v | None \<Rightarrow> [])"

lemma param_text_free:
  assumes "param_ok p"
  shows "0x2C \<notin> set (param_text p)" "0x3B \<notin> set (param_text p)"
  using assms token_no_separator [of "param_name p"] token_no_separator [of "the (param_value p)"]
  by (auto simp: param_ok_def param_text_def split: option.splits)

lemma trim_matches_free: "q \<notin> set s \<Longrightarrow> trim_matches q s = s"
proof -
  have "dropWhile (\<lambda>b. b = q) t = t" if "q \<notin> set t" for t
    using that by (cases t) auto
  then show "q \<notin> set s \<Longrightarrow> trim_matches q s = s" by (simp add: trim_matches_def)
qed

lemma parse_param_text:
  assumes "param_ok p"
  shows "parse_param (0x20 # param_text p) = p"
proof -
  have n: "list_all token_byte (param_name p)" using assms by (simp add: param_ok_def)
  note n' = token_no_separator [OF n]
  show ?thesis
  proof (cases "param_value p")
    case None
    then show ?thesis using n' trim_graphic(2) [OF n'(1)]
      by (simp add: parse_param_def param_text_def split_on_free param_new_def model_defs)
  next
    case (Some v)
    then have v: "list_all token_byte v" using assms by (simp add: param_ok_def)
    note v' = token_no_separator [OF v]
    have "split_on 0x3D (0x20 # param_name p @ 0x3D # v) = [0x20 # param_name p, v]"
      using split_on_append [of "0x3D" "0x20 # param_name p" v] n'(4) v'(4) by (simp add: split_on_free)
    then show ?thesis using Some trim_graphic(2) [OF n'(1)] trim_graphic(1) [OF v'(1)] trim_matches_free [OF v'(5)]
      by (simp add: parse_param_def param_text_def param_new_def model_defs)
  qed
qed

definition ext_text :: "str \<Rightarrow> Param list \<Rightarrow> bytes" where
  "ext_text name ps = name @ concat (map (\<lambda>p. 0x3B # 0x20 # param_text p) ps)"

definition offer_ok :: "str \<times> Param list \<Rightarrow> bool" where
  "offer_ok o' \<longleftrightarrow> list_all token_byte (fst o') \<and> list_all param_ok (snd o')"

lemma split_on_semicolons:
  "0x3B \<notin> set s \<Longrightarrow> list_all param_ok ps \<Longrightarrow>
   split_on 0x3B (s @ concat (map (\<lambda>p. 0x3B # 0x20 # param_text p) ps)) = s # map (\<lambda>p. 0x20 # param_text p) ps"
proof (induction ps arbitrary: s)
  case (Cons p ps)
  have "0x3B \<notin> set (0x20 # param_text p)"
    using Cons.prems(2) param_text_free by simp
  from Cons.IH [OF this] show ?case using Cons.prems split_on_append [OF Cons.prems(1)] by simp
qed (simp add: split_on_free)

lemma map_parse_param: "list_all param_ok ps \<Longrightarrow> map parse_param (map (\<lambda>p. 0x20 # param_text p) ps) = ps"
  by (induction ps) (auto simp: parse_param_text)

lemma split_offer:
  assumes "offer_ok (name, ps)" "lead = [] \<or> lead = [0x20]"
  shows "trim (hd (split_on 0x3B (lead @ ext_text name ps))) = name"
    "map parse_param (tl (split_on 0x3B (lead @ ext_text name ps))) = ps" "0x2C \<notin> set (lead @ ext_text name ps)"
proof -
  have o: "list_all token_byte name" "list_all param_ok ps" using assms(1) by (simp_all add: offer_ok_def)
  note n = token_no_separator [OF o(1)]
  have "0x3B \<notin> set (lead @ name)" using n(3) assms(2) by auto
  from split_on_semicolons [OF this o(2)]
  have s: "split_on 0x3B (lead @ ext_text name ps) = (lead @ name) # map (\<lambda>p. 0x20 # param_text p) ps"
    by (simp add: ext_text_def)
  show "trim (hd (split_on 0x3B (lead @ ext_text name ps))) = name"
    using s trim_graphic [OF n(1)] assms(2) by auto
  show "map parse_param (tl (split_on 0x3B (lead @ ext_text name ps))) = ps"
    unfolding s using map_parse_param [OF o(2)] by simp
  show "0x2C \<notin> set (lead @ ext_text name ps)"
    using n(2) assms(2) o(2) param_text_free(1) by (auto simp: ext_text_def list_all_iff)
qed

text \<open>What a line of offers asks for, without the text: each named extension is configured with its parameters.\<close>

fun configure_offers :: "'e Extension \<Rightarrow> 'e list \<Rightarrow> (str \<times> Param list) list \<Rightarrow> (hs_Error + unit) \<times> 'e list" where
  "configure_offers x es [] = (Inr (), es)"
| "configure_offers x es ((name, ps) # os) =
     (case configure_named x name ps es of
        (Inl e, es) \<Rightarrow> (Inl e, es)
      | (Inr _, es) \<Rightarrow> configure_offers x es os)"

fun offers_text :: "(str \<times> Param list) list \<Rightarrow> bytes" where
  "offers_text [] = []"
| "offers_text [(name, ps)] = ext_text name ps"
| "offers_text ((name, ps) # os) = ext_text name ps @ 0x2C # 0x20 # offers_text os"

lemma configure_offers_text:
  "os \<noteq> [] \<Longrightarrow> list_all offer_ok os \<Longrightarrow> lead = [] \<or> lead = [0x20] \<Longrightarrow>
   configure_each x es (split_on 0x2C (lead @ offers_text os)) = configure_offers x es os"
proof (induction os arbitrary: es lead rule: offers_text.induct)
  case (2 name ps)
  then show ?case using split_offer [of name ps lead] by (simp add: split_on_free split: prod.splits sum.splits)
next
  case (3 name ps o' os)
  let ?rest = "split_on 0x2C ([0x20] @ offers_text (o' # os))"
  have split: "split_on 0x2C (lead @ offers_text ((name, ps) # o' # os)) = (lead @ ext_text name ps) # ?rest"
    using split_on_append [of "0x2C" "lead @ ext_text name ps" "0x20 # offers_text (o' # os)"]
      split_offer(3) [of name ps lead] 3(3,4) by simp
  have rest: "configure_each x es ?rest = configure_offers x es (o' # os)" for es
    using 3 by (intro "3.IH") auto
  have "configure_each x es ((lead @ ext_text name ps) # ?rest) = configure_offers x es ((name, ps) # o' # os)"
    using split_offer [of name ps lead] 3(3,4) by (simp only: configure_each.simps configure_offers.simps Let_def rest) simp
  then show ?case unfolding split .
qed simp

definition offers_of :: "'e Extension \<Rightarrow> 'e list \<Rightarrow> (str \<times> Param list) list" where
  "offers_of x es = map (\<lambda>e. (ext_name x e, ext_params x e)) es"

lemma append_params_text: "append_params ps bs = bs @ concat (map (\<lambda>p. 0x3B # 0x20 # param_text p) ps)"
  by (induction ps arbitrary: bs) (auto simp: param_text_def lit_def split: option.splits)

lemma offers_text_Cons:
  "offers_text ((name, ps) # os) = ext_text name ps @ (if os = [] then [] else 0x2C # 0x20 # offers_text os)"
  by (cases os) auto

lemma append_extension_header_value_text: "append_extension_header_value x es bs = bs @ offers_text (offers_of x es)"
  by (induction es arbitrary: bs)
     (simp_all add: append_params_text ext_text_def offers_of_def offers_text_Cons lit_def Let_def)

text \<open>
  C30. Round trip of extension headers: the line one side writes for its extensions, read by the other side, configures
  there, in order, the first extension of each name with exactly the parameters of the writer.
\<close>

theorem extension_line_roundtrip:
  assumes "es \<noteq> []" "list_all offer_ok (offers_of y es)"
  shows "configure_extensions x exts (append_extension_header_value y es []) = configure_offers x exts (offers_of y es)"
  unfolding configure_extensions_def append_extension_header_value_text
  using configure_offers_text [of "offers_of y es" "[]"] assms by (simp add: offers_of_def)

section \<open>Names and values\<close>

lemma find_append: "find P (xs @ ys) = (case find P xs of None \<Rightarrow> find P ys | Some x \<Rightarrow> Some x)"
  by (induction xs) auto

lemma find_none: "\<forall>x \<in> set xs. \<not> P x \<Longrightarrow> find P xs = None"
  by (simp add: find_None_iff)

definition hdr :: "string \<Rightarrow> bytes \<Rightarrow> http_Header" where
  "hdr n v = \<lparr>hdr_name = lit n, hdr_value = v\<rparr>"

lemma hdr_simps [simp]: "hdr_name (hdr n v) = lit n" "hdr_value (hdr n v) = v"
  by (simp_all add: hdr_def)

lemma lit_simps [simp]: "length (lit s) = length s" "lit s = [] \<longleftrightarrow> s = []"
  by (simp_all add: lit_def)

lemma eq_ignore_ascii_case_length: "eq_ignore_ascii_case a b \<Longrightarrow> length a = length b"
  by (metis eq_ignore_ascii_case_def length_map)

lemma not_named_length: "length s \<noteq> length n \<Longrightarrow> \<not> named (lit n) (hdr s v)"
  using eq_ignore_ascii_case_length [of "lit s" "lit n"] by (auto simp: named_def)

lemma named_self [simp]: "named (lit n) (hdr n v)"
  by (simp add: named_def)

lemma find_hdr:
  "find (named (lit n)) (hdr n v # hs) = Some (hdr n v)"
  "length s \<noteq> length n \<Longrightarrow> find (named (lit n)) (hdr s v # hs) = find (named (lit n)) hs"
  by (simp_all add: not_named_length)

lemma with_first_header_named:
  "with_first_header headers name f = (case find (named name) headers of Some h \<Rightarrow> f (hdr_value h) | None \<Rightarrow> Inl (HeaderNotFound name))"
  by (simp add: with_first_header_def named_def [abs_def])

lemma select_protocol_named:
  "select_protocol protocols headers =
     (case find (named SEC_WEBSOCKET_PROTOCOL) headers of
        Some tp \<Rightarrow> (if hdr_value tp \<in> set protocols then Inr (Some (hdr_value tp)) else Inl UnsolicitedProtocol)
      | None \<Rightarrow> Inr None)"
proof -
  have "find (\<lambda>p. p = v) protocols = (if v \<in> set protocols then Some v else None)" for v
    by (induction protocols) auto
  then show ?thesis by (simp add: select_protocol_def named_def [abs_def] split: option.splits)
qed

lemma from_utf8_printable: "list_all printable v \<Longrightarrow> from_utf8 v = Inr v"
proof (rule from_utf8_ascii)
  assume p: "list_all printable v"
  have "b < 0x80" if "printable b" for b
    using that by (simp add: printable_def in_range_def word_le_nat_alt word_less_nat_alt)
  then show "\<forall>b \<in> set v. b < 0x80" using p by (simp add: list_all_iff)
qed

lemma graphic_printable: "graphic b \<Longrightarrow> printable b \<and> b \<noteq> 0x20"
  by (auto simp: graphic_def printable_def in_range_def word_le_nat_alt)

lemma graphic_list: "list_all graphic v \<Longrightarrow> list_all printable v" "list_all graphic v \<Longrightarrow> value_ok v"
  using graphic_printable by (auto simp: value_ok_def list_all_iff)

lemma lists_value_self:
  assumes "list_all graphic (hdr_value h)" "0x2C \<notin> set (hdr_value h)" "eq_ignore_ascii_case (hdr_value h) ours"
  shows "lists_value ours h"
  using assms from_utf8_printable [OF graphic_list(1) [OF assms(1)]] trim_graphic(1) [OF assms(1)]
  by (simp add: lists_value_def split_on_free)

lemma lists_value_hdr [simp]:
  "lists_value (lit ''websocket'') (hdr n (lit ''websocket''))" "lists_value (lit ''upgrade'') (hdr n (lit ''upgrade''))"
  "lists_value (lit ''upgrade'') (hdr n (lit ''Upgrade''))" "lists_value (lit ''13'') (hdr n (lit ''13''))"
  by (intro lists_value_self; simp add: lit_def graphic_def in_range_def eq_ignore_ascii_case_def to_ascii_lowercase_def)+

lemma configure_from_headers_free:
  "\<forall>h \<in> set hs. \<not> named SEC_WEBSOCKET_EXTENSIONS h \<Longrightarrow> configure_from_headers x es (hs @ hs') = configure_from_headers x es hs'"
  by (induction hs) (auto simp: named_def)

lemma configure_from_headers_one:
  "list_all printable v \<Longrightarrow> \<forall>h \<in> set hs'. \<not> named SEC_WEBSOCKET_EXTENSIONS h \<Longrightarrow>
   configure_from_headers x es (hdr ''Sec-WebSocket-Extensions'' v # hs') = configure_extensions x es v"
  using configure_from_headers_free [of hs' x _ "[]"]
  by (auto simp: SEC_WEBSOCKET_EXTENSIONS_def from_utf8_printable split: prod.splits sum.splits)

lemma offered_protocols_append: "offered_protocols ours (hs @ hs') = offered_protocols ours hs @ offered_protocols ours hs'"
  by (induction hs) (auto split: option.splits)

lemma offered_protocols_free: "\<forall>h \<in> set hs. \<not> named SEC_WEBSOCKET_PROTOCOL h \<Longrightarrow> offered_protocols ours hs = []"
  by (induction hs) (auto simp: named_def)

section \<open>The request of a client\<close>

fun protocols_text :: "str list \<Rightarrow> bytes" where
  "protocols_text [] = []"
| "protocols_text [p] = p"
| "protocols_text (p # ps) = p @ 0x2C # protocols_text ps"

definition extension_headers :: "'e Extension \<Rightarrow> 'e list \<Rightarrow> http_Header list" where
  "extension_headers x es =
     (if es = [] then [] else [hdr ''Sec-WebSocket-Extensions'' (append_extension_header_value x es [])])"

definition protocol_headers :: "str list \<Rightarrow> http_Header list" where
  "protocol_headers ps = (if ps = [] then [] else [hdr ''Sec-WebSocket-Protocol'' (protocols_text ps)])"

definition client_headers :: "'e Extension \<Rightarrow> ('w, 'e) Client \<Rightarrow> bytes \<Rightarrow> http_Header list" where
  "client_headers x c nonce =
     [hdr ''Host'' (cl_host c), hdr ''Upgrade'' (lit ''websocket''), hdr ''Connection'' (lit ''Upgrade''),
      hdr ''Sec-WebSocket-Key'' nonce] @ cl_headers c @ protocol_headers (cl_protocols c) @
      extension_headers x (cl_extensions c) @ [hdr ''Sec-WebSocket-Version'' (lit ''13'')]"

lemma append_headers_lines: "append_headers hs bs = bs @ concat (map (\<lambda>h. crlf @ header_line h) hs)"
  by (induction hs arbitrary: bs) (auto simp: header_line_def)

lemma append_protocols_lines:
  "append_protocols ps bs = bs @ concat (map (\<lambda>h. crlf @ header_line h) (protocol_headers ps))"
proof -
  have "ps \<noteq> [] \<Longrightarrow> fold (\<lambda>p bs. bs @ p @ lit '','') (butlast ps) bs @ List.last ps = bs @ protocols_text ps" for bs
    by (induction ps arbitrary: bs rule: protocols_text.induct) (auto simp: lit_def)
  then show ?thesis by (simp add: append_protocols_def protocol_headers_def header_line_def lit_def)
qed

lemma append_extensions_lines:
  "append_extensions x es bs = bs @ concat (map (\<lambda>h. crlf @ header_line h) (extension_headers x es))"
  by (simp add: append_extensions_def extension_headers_def header_line_def append_extension_header_value_text offers_of_def lit_def)

lemma encode_request_head:
  assumes "encode_slice lib n (cl_nonce c) = Some nonce" "random_16 lib (cl_socket c) = (n, w)"
  shows "encode_request lib x c = Some (c\<lparr>cl_socket := w, cl_nonce := nonce,
      cl_buffer := cl_buffer c @ head (request_line (lit ''GET'') (cl_resource c)) (client_headers x c nonce)\<rparr>)"
  using assms by (simp add: encode_request_def append_headers_lines append_protocols_lines append_extensions_lines Let_def
      client_headers_def head_def request_line_def header_line_def lit_def)

end
