(* ===== verification/Request_Head.thy ===== *)
theory Request_Head
  imports Header_Lookup
begin

text \<open>
  Reading the head of a request: the server's incremental search for the end of the head finds what a search of the
  whole buffer would, and a head is read to its end.
\<close>

section \<open>Reading the head of a request\<close>

lemma windows4_iff: "w \<in> set (windows4 bs) \<longleftrightarrow> (\<exists>i. i + 4 \<le> length bs \<and> w = take 4 (drop i bs))"
proof (induction bs rule: windows4.induct)
  case (1 a b c d bs)
  let ?bs = "a # b # c # d # bs"
  have "(\<exists>i. i + 4 \<le> length ?bs \<and> w = take 4 (drop i ?bs)) \<longleftrightarrow>
      w = [a, b, c, d] \<or> (\<exists>i. i + 4 \<le> length (tl ?bs) \<and> w = take 4 (drop i (tl ?bs)))"
    (is "(\<exists>i. ?P i) \<longleftrightarrow> _ \<or> (\<exists>i. ?Q i)")
  proof -
    have "?P 0 \<longleftrightarrow> w = [a, b, c, d]" "?P (Suc i) \<longleftrightarrow> ?Q i" for i by auto
    then show ?thesis by (metis not0_implies_Suc)
  qed
  then show ?case using 1 by simp
qed auto

lemma has_tail_iff: "has_tail bs \<longleftrightarrow> (\<exists>i. i + 4 \<le> length bs \<and> take 4 (drop i bs) = crlf @ crlf)"
  unfolding has_tail_def using windows4_iff [of _ bs] by (auto simp: list_ex_iff)

lemma has_tail_append:
  assumes "has_tail bs"
  shows "has_tail (bs @ cs)"
proof -
  obtain i where i: "i + 4 \<le> length bs" "take 4 (drop i bs) = crlf @ crlf" using assms by (auto simp: has_tail_iff)
  then have "i + 4 \<le> length (bs @ cs) \<and> take 4 (drop i (bs @ cs)) = crlf @ crlf" by simp
  then show ?thesis unfolding has_tail_iff by blast
qed

text \<open>Only the last four bytes searched before have to be searched again.\<close>

lemma has_tail_skip:
  assumes "\<not> has_tail bs"
  shows "has_tail (drop (length bs - 4) (bs @ cs)) \<longleftrightarrow> has_tail (bs @ cs)"
proof
  assume "has_tail (bs @ cs)"
  then obtain i where i: "i + 4 \<le> length (bs @ cs)" "take 4 (drop i (bs @ cs)) = crlf @ crlf" by (auto simp: has_tail_iff)
  have "\<not> i + 4 \<le> length bs"
  proof
    assume "i + 4 \<le> length bs"
    then have "take 4 (drop i bs) = crlf @ crlf" using i(2) by simp
    then show False using assms \<open>i + 4 \<le> length bs\<close> by (auto simp: has_tail_iff)
  qed
  then have "(i - (length bs - 4)) + 4 \<le> length (drop (length bs - 4) (bs @ cs)) \<and>
      take 4 (drop (i - (length bs - 4)) (drop (length bs - 4) (bs @ cs))) = crlf @ crlf"
    using i by (simp only: drop_drop) auto
  then show "has_tail (drop (length bs - 4) (bs @ cs))" unfolding has_tail_iff by blast
next
  assume "has_tail (drop (length bs - 4) (bs @ cs))"
  then obtain i where "i + 4 \<le> length (drop (length bs - 4) (bs @ cs))"
    "take 4 (drop i (drop (length bs - 4) (bs @ cs))) = crlf @ crlf" by (auto simp: has_tail_iff)
  then have "(i + (length bs - 4)) + 4 \<le> length (bs @ cs) \<and> take 4 (drop (i + (length bs - 4)) (bs @ cs)) = crlf @ crlf"
    by (simp only: drop_drop) auto
  then show "has_tail (bs @ cs)" unfolding has_tail_iff by blast
qed

text \<open>A stream has a head when the first bytes hold its end, or there are too many of them.\<close>

definition has_head :: "bytes \<Rightarrow> bool" where
  "has_head bs \<longleftrightarrow> has_tail (take MAX_HEADERS_SIZE bs) \<or> MAX_HEADERS_SIZE \<le> length bs"

lemma has_head_append: "has_head bs \<Longrightarrow> has_head (bs @ cs)"
  using has_tail_append [of bs cs] by (auto simp: has_head_def)

lemma receive_head_step:
  assumes "\<not> has_head (sv_buffer self)" "skip = length (sv_buffer self) - 4"
    and r: "read env (sv_socket self) (sv_buffer self) server_BLOCK_SIZE = (Inr (), w', sv_buffer self @ bs)"
  shows "receive_head env skip self =
    (if has_head (sv_buffer self @ bs) then Some (Inr (), self\<lparr>sv_socket := w', sv_buffer := sv_buffer self @ bs\<rparr>)
     else receive_head env (length (sv_buffer self @ bs) - 4) (self\<lparr>sv_socket := w', sv_buffer := sv_buffer self @ bs\<rparr>))"
proof -
  let ?b = "sv_buffer self" and ?b' = "sv_buffer self @ bs"
  let ?limit = "min (length ?b') MAX_HEADERS_SIZE"
  have len: "length ?b < MAX_HEADERS_SIZE" "\<not> has_tail ?b" using assms(1) by (auto simp: has_head_def)
  have take: "take ?limit ?b' = ?b @ take (MAX_HEADERS_SIZE - length ?b) bs"
    using len(1) by (simp add: min_def)
  have tail: "has_tail (drop skip (take ?limit ?b')) \<longleftrightarrow> has_tail (take MAX_HEADERS_SIZE ?b')"
    unfolding assms(2) take has_tail_skip [OF len(2)] using len(1) by simp
  have "\<not> ?limit < skip" using len(1) assms(2) by auto
  then show ?thesis
    using r tail by (auto simp: receive_head.simps [of env skip self] has_head_def Let_def min_def split: if_splits)
qed

lemma receive_head_from:
  assumes e: "source_ok env inp outp" "source_reliable env inp"
  shows "\<not> has_head (sv_buffer self) \<Longrightarrow> skip = length (sv_buffer self) - 4 \<Longrightarrow>
    \<exists>self' r. receive_head env skip self = Some (r, self') \<and>
      sv_buffer self' @ inp (sv_socket self') = sv_buffer self @ inp (sv_socket self) \<and>
      outp (sv_socket self') = outp (sv_socket self) \<and>
      self' = self\<lparr>sv_socket := sv_socket self', sv_buffer := sv_buffer self'\<rparr> \<and>
      (if has_head (sv_buffer self @ inp (sv_socket self)) then r = Inr () \<and> has_head (sv_buffer self')
       else r = Inl (hs_Error.Io UnexpectedEof))"
proof (induction "length (inp (sv_socket self))" arbitrary: self skip rule: less_induct)
  case less
  let ?w = "sv_socket self" and ?b = "sv_buffer self"
  have lim: "0 < server_BLOCK_SIZE" by (simp add: server_BLOCK_SIZE_def)
  show ?case
  proof (cases "inp ?w = []")
    case True
    then obtain w' where "read env ?w ?b server_BLOCK_SIZE = (Inl UnexpectedEof, w', ?b)" "inp w' = []" "outp w' = outp ?w"
      using read_reliable [OF e lim, of ?w ?b] by auto
    then show ?thesis using True less.prems(1)
      by (simp add: receive_head.simps [of env skip self] hs_from_io_def Let_def)
  next
    case False
    then obtain w' bs where r: "read env ?w ?b server_BLOCK_SIZE = (Inr (), w', ?b @ bs)" "bs \<noteq> []" "bs @ inp w' = inp ?w" "outp w' = outp ?w"
      using read_reliable [OF e lim, of ?w ?b] by auto
    let ?b' = "?b @ bs" and ?self = "self\<lparr>sv_socket := w', sv_buffer := ?b @ bs\<rparr>"
    note step = receive_head_step [OF less.prems r(1)]
    show ?thesis
    proof (cases "has_head ?b'")
      case True
      have "has_head (?b' @ inp w')" by (rule has_head_append [OF True])
      then show ?thesis using True r(3,4) step by auto
    next
      case False
      have "length (inp w') < length (inp ?w)" using r(2,3) by (metis length_append length_greater_0_conv less_add_same_cancel2)
      from less.hyps [of ?self "length ?b' - 4"] this False r(3,4) step show ?thesis
        by simp
    qed
  qed
qed

lemma receive_head_start:
  assumes "source_ok env inp outp" "source_reliable env inp" "sv_buffer self = []"
  shows "\<exists>self' r. receive_head env 0 self = Some (r, self') \<and>
      sv_buffer self' @ inp (sv_socket self') = inp (sv_socket self) \<and> outp (sv_socket self') = outp (sv_socket self) \<and>
      self' = self\<lparr>sv_socket := sv_socket self', sv_buffer := sv_buffer self'\<rparr> \<and>
      (if has_head (inp (sv_socket self)) then r = Inr () \<and> has_head (sv_buffer self')
       else r = Inl (hs_Error.Io UnexpectedEof))"
  using receive_head_from [OF assms(1,2), of self 0] assms(3) by (simp add: has_head_def has_tail_def MAX_HEADERS_SIZE_def)

text \<open>
  A peer that waits: no read delivers bytes from both sides of the point where \<open>n\<close> bytes are left. A client waits
  for the response to its request before it sends frames, and then none of them are read with the request.
\<close>

definition waits :: "'w Env \<Rightarrow> ('w \<Rightarrow> bytes) \<Rightarrow> nat \<Rightarrow> bool" where
  "waits env inp n \<longleftrightarrow> (\<forall>w k bs w'. sock_read env w k = (Inr bs, w') \<longrightarrow> n < length (inp w) \<longrightarrow> n \<le> length (inp w'))"

lemma receive_head_waits:
  assumes e: "source_ok env inp outp" "source_reliable env inp" and wt: "waits env inp (length rest)" and h: "has_head req"
  shows "\<not> has_head (sv_buffer self) \<Longrightarrow> skip = length (sv_buffer self) - 4 \<Longrightarrow> sv_buffer self @ inp (sv_socket self) = req @ rest \<Longrightarrow>
    receive_head env skip self = Some (r, self') \<Longrightarrow> length rest \<le> length (inp (sv_socket self'))"
proof (induction "length (inp (sv_socket self))" arbitrary: self skip rule: less_induct)
  case less
  let ?w = "sv_socket self" and ?b = "sv_buffer self"
  have lim: "0 < server_BLOCK_SIZE" by (simp add: server_BLOCK_SIZE_def)
  have more: "length rest < length (inp ?w)"
  proof (rule ccontr)
    assume "\<not> ?thesis"
    then have "length req \<le> length ?b" using arg_cong [OF less.prems(3), of length] by simp
    then obtain t where "?b = req @ t" using prefix_split [of req rest ?b "inp ?w"] less.prems(3) by auto
    then show False using has_head_append [OF h] less.prems(1) by simp
  qed
  then have "inp ?w \<noteq> []" by auto
  then obtain w' bs where r: "read env ?w ?b server_BLOCK_SIZE = (Inr (), w', ?b @ bs)" "bs \<noteq> []" "bs @ inp w' = inp ?w"
    using read_reliable [OF e lim, of ?w ?b] by auto
  have le: "length rest \<le> length (inp w')"
    using r(1) wt more by (auto simp: waits_def read_def split: prod.splits sum.splits if_splits)
  have "length (inp w') < length (inp ?w)" using r(2) arg_cong [OF r(3), of length] by (cases bs) auto
  then show ?case
    using receive_head_step [OF less.prems(1,2) r(1)] less.hyps [of "self\<lparr>sv_socket := w', sv_buffer := ?b @ bs\<rparr>"] less.prems(3,4) le r(3)
    by (auto split: if_splits)
qed

text \<open>
  C29. Reading a request: whatever pieces the socket delivers, the server never searches outside its buffer, and it stops.
  It stops with the bytes read so far when the stream has the end of a head in its first 8192 bytes, or 8192
  bytes, although it searches only the new bytes and the last four before them; otherwise the stream ends
  first, which is reported as an I/O error.
\<close>

theorem receive_head_complete:
  assumes "source_ok env inp outp" "source_reliable env inp" "sv_buffer self = []"
  shows "\<exists>self' r. receive_head env 0 self = Some (r, self') \<and>
      sv_buffer self' @ inp (sv_socket self') = inp (sv_socket self) \<and>
      (if has_head (inp (sv_socket self)) then r = Inr () \<and> has_head (sv_buffer self')
       else r = Inl (hs_Error.Io UnexpectedEof))"
  using receive_head_start [OF assms] by blast

section \<open>The end of a head\<close>

lemma cut_line_crlf:
  "\<exists>l r. cut_line (u @ crlf @ s) = Some (l, r) \<and> (r = s \<or> (\<exists>u'. length u' < length u \<and> r = u' @ crlf @ s))"
proof (induction u rule: length_induct)
  case (1 u)
  show ?case
  proof (cases u)
    case Nil
    then show ?thesis by (simp add: crlf_def)
  next
    case (Cons a u1)
    obtain b r1 where b: "u1 @ crlf @ s = b # r1" by (cases u1) (auto simp: crlf_def)
    show ?thesis
    proof (cases "a = 0x0D \<and> b = 0x0A")
      case True
      then obtain u2 where "u1 = 0x0A # u2" using b by (cases u1) (auto simp: crlf_def)
      then show ?thesis using True Cons b by auto
    next
      case False
      obtain l r where lr: "cut_line (u1 @ crlf @ s) = Some (l, r)" "r = s \<or> (\<exists>u'. length u' < length u1 \<and> r = u' @ crlf @ s)"
        using 1 Cons by auto
      have "cut_line (a # b # r1) = map_option (\<lambda>(l, r). (a # l, r)) (cut_line (b # r1))"
        using False by (subst cut_line.simps) (simp only: if_False)
      then have "cut_line (u @ crlf @ s) = Some (a # l, r)" using lr(1) b Cons by simp
      then show ?thesis using lr(2) Cons by auto
    qed
  qed
qed

lemma cut_lines_tail: "cut_lines (u @ crlf @ crlf @ v) \<noteq> None"
proof (induction u rule: length_induct)
  case (1 u)
  obtain l r where lr: "cut_line (u @ crlf @ crlf @ v) = Some (l, r)"
    "r = crlf @ v \<or> (\<exists>u'. length u' < length u \<and> r = u' @ crlf @ crlf @ v)"
    using cut_line_crlf [of u "crlf @ v"] by auto
  have "cut_lines (crlf @ v) = Some ([], v)" by (subst cut_lines.simps) (simp add: crlf_def)
  then have "cut_lines r \<noteq> None" using lr(2) 1 by auto
  then show ?case using lr(1) by (subst cut_lines.simps) auto
qed

lemma has_tail_cut_lines: "has_tail bs \<Longrightarrow> cut_lines bs \<noteq> None"
proof -
  assume "has_tail bs"
  then obtain i where i: "i + 4 \<le> length bs" "take 4 (drop i bs) = crlf @ crlf" by (auto simp: has_tail_iff)
  have "bs = take i bs @ take 4 (drop i bs) @ drop 4 (drop i bs)" by (simp only: append_take_drop_id)
  then have "bs = take i bs @ crlf @ crlf @ drop 4 (drop i bs)" using i(2) by simp
  then show ?thesis using cut_lines_tail by metis
qed

text \<open>A stream that starts with a short head is read at least up to the end of that head.\<close>

lemma head_read:
  assumes "start \<noteq> []" "0x0D \<notin> set start" "list_all header_ok hs" "length (head start hs) \<le> MAX_HEADERS_SIZE"
    and "bs @ cs = head start hs @ rest" "has_head bs"
  shows "\<exists>more. bs = head start hs @ more \<and> more @ cs = rest"
proof (cases "length (head start hs) \<le> length bs")
  case True
  then show ?thesis using prefix_split [of "head start hs" rest bs cs] assms(5) by auto
next
  case False
  then obtain t where t: "head start hs = bs @ t" "cs = t @ rest"
    using prefix_split [of bs cs "head start hs" rest] assms(5) by auto
  have "cut_lines bs = None" using False t(1) by (intro cut_lines_head_prefix [OF assms(1-3) t(1) [symmetric]]) auto
  then have "\<not> has_tail bs" using has_tail_cut_lines by blast
  then show ?thesis using False assms(4,6) by (auto simp: has_head_def)
qed

end
