(* ===== verification/Handshake_Props.thy ===== *)
theory Handshake_Props
  imports Request_Head
begin

text \<open>
  The handshake as a whole: a server reads the request of a client, answers it, and the client accepts the answer;
  and neither side accepts anything else.
\<close>

lemmas sec_names = SEC_WEBSOCKET_EXTENSIONS_def SEC_WEBSOCKET_PROTOCOL_def

text \<open>
  A client whose request is a well-formed head: the caller's own headers are well formed too and do not
  offer protocols or extensions.
\<close>

definition client_ok :: "'e Extension \<Rightarrow> ('w, 'e) Client \<Rightarrow> bool" where
  "client_ok x c \<longleftrightarrow>
     cl_resource c \<noteq> [] \<and> list_all path_byte (cl_resource c) \<and> value_ok (cl_host c) \<and> list_all header_ok (cl_headers c) \<and>
     (\<forall>h \<in> set (cl_headers c). \<not> named SEC_WEBSOCKET_EXTENSIONS h \<and> \<not> named SEC_WEBSOCKET_PROTOCOL h) \<and>
     value_ok (protocols_text (cl_protocols c)) \<and> value_ok (append_extension_header_value x (cl_extensions c) []) \<and>
     length (client_headers x c []) \<le> MAX_NUM_HEADERS \<and> length (cl_nonce c) = 24"

lemma libs_okD:
  assumes "libs_ok lib inp outp"
  shows "random_16 lib w = (n, w') \<Longrightarrow> length output = 24 \<Longrightarrow> encode_slice lib n output = Some (base64 lib n)"
    "random_16 lib w = (n, w') \<Longrightarrow> length (base64 lib n) = 24"
    "random_16 lib w = (n, w') \<Longrightarrow> inp w' = inp w \<and> outp w' = outp w"
    "list_all graphic (base64 lib d)"
    "generate_accept_key lib key = Some (base64 lib (sha1 lib (key @ KEY)))"
proof -
  have l: "length (base64 lib d) = 4 * ((length d + 2) div 3)" "length (sha1 lib d) = 20" for d
    using assms by (simp_all add: libs_ok_def)
  have r: "length n = 16" "inp w' = inp w \<and> outp w' = outp w" if "random_16 lib w = (n, w')"
    using assms that unfolding libs_ok_def by blast+
  show "length (base64 lib n) = 24" if "random_16 lib w = (n, w')" using l(1) r(1) [OF that] by simp
  then show "encode_slice lib n output = Some (base64 lib n)" if "random_16 lib w = (n, w')" "length output = 24"
    using that by (simp add: encode_slice_def)
  show "inp w' = inp w \<and> outp w' = outp w" if "random_16 lib w = (n, w')" by (rule r(2) [OF that])
  show "list_all graphic (base64 lib d)" using assms by (simp add: libs_ok_def graphic_def [abs_def])
  show "generate_accept_key lib key = Some (base64 lib (sha1 lib (key @ KEY)))"
    using l by (simp add: generate_accept_key_def encode_slice_def)
qed

lemma header_ok_hdr: "n \<noteq> [] \<Longrightarrow> list_all name_byte (lit n) \<Longrightarrow> value_ok v \<Longrightarrow> header_ok (hdr n v)"
  by (simp add: header_ok_def)

lemma names_ok [simp]:
  "list_all name_byte (lit ''Host'')" "list_all name_byte (lit ''Upgrade'')" "list_all name_byte (lit ''Connection'')"
  "list_all name_byte (lit ''Sec-WebSocket-Key'')" "list_all name_byte (lit ''Sec-WebSocket-Protocol'')"
  "list_all name_byte (lit ''Sec-WebSocket-Extensions'')" "list_all name_byte (lit ''Sec-WebSocket-Version'')"
  "list_all name_byte (lit ''Server'')" "list_all name_byte (lit ''Sec-WebSocket-Accept'')" "list_all name_byte (lit ''GET'')"
  by (simp_all add: lit_def name_byte_def in_range_def)

lemma values_ok [simp]:
  "value_ok (lit ''websocket'')" "value_ok (lit ''Upgrade'')" "value_ok (lit ''upgrade'')" "value_ok (lit ''13'')"
  "value_ok (lit ''soketto-0.8.1'')" "value_ok (lit ''Switching Protocols'')"
  by (simp_all add: lit_def value_ok_def printable_def in_range_def)

lemma client_headers_ok:
  assumes "client_ok x c" "list_all graphic nonce"
  shows "list_all header_ok (client_headers x c nonce)" "length (client_headers x c nonce) \<le> MAX_NUM_HEADERS"
  using assms graphic_list(2) [OF assms(2)]
  by (auto simp: client_ok_def client_headers_def protocol_headers_def extension_headers_def header_ok_hdr)

section \<open>The server reads the request\<close>

definition negotiate :: "'e Extension \<Rightarrow> 'e list \<Rightarrow> 'e list \<Rightarrow> (hs_Error + unit) \<times> 'e list" where
  "negotiate x es peer =
     (if peer = [] then (Inr (), es) else configure_extensions x es (append_extension_header_value x peer []))"

lemma configure_extension_headers:
  assumes "value_ok (append_extension_header_value x peer [])" "\<forall>h \<in> set hs \<union> set hs'. \<not> named SEC_WEBSOCKET_EXTENSIONS h"
  shows "configure_from_headers x es (hs @ extension_headers x peer @ hs') = negotiate x es peer"
  using assms configure_from_headers_free [of hs x es] configure_from_headers_free [of hs' x es "[]"]
    configure_from_headers_one [of "append_extension_header_value x peer []" hs' x es]
  by (auto simp: extension_headers_def negotiate_def value_ok_def)

text \<open>The protocol header is compared as a whole with the protocols of the server.\<close>

definition read_request :: "('w, 'e) Server \<Rightarrow> ('w, 'e) Client \<Rightarrow> bytes \<Rightarrow> ClientRequest" where
  "read_request s c nonce =
     \<lparr>cr_ws_key = nonce,
      cr_protocols = (if cl_protocols c \<noteq> [] \<and> protocols_text (cl_protocols c) \<in> set (sv_protocols s)
        then [protocols_text (cl_protocols c)] else []),
      cr_path = cl_resource c,
      cr_headers = \<lparr>rh_host = cl_host c, rh_origin = map_option hdr_value (find (named (lit ''Origin'')) (cl_headers c))\<rparr>\<rparr>"

lemma named_eta: "(\<lambda>h. eq_ignore_ascii_case (hdr_name h) n) = named n"
  by (simp add: named_def [abs_def])

lemma find_in: "find (\<lambda>p. p = v) ps = (if v \<in> set ps then Some v else None)"
  by (induction ps) auto

lemma client_headers_find:
  "find (named (lit ''Host'')) (client_headers x c nonce) = Some (hdr ''Host'' (cl_host c))"
  "find (named (lit ''Sec-WebSocket-Key'')) (client_headers x c nonce) = Some (hdr ''Sec-WebSocket-Key'' nonce)"
  "find (named (lit ''Origin'')) (client_headers x c nonce) = find (named (lit ''Origin'')) (cl_headers c)"
proof -
  have "find (named (lit ''Origin'')) (protocol_headers (cl_protocols c) @ extension_headers x (cl_extensions c) @
      [hdr ''Sec-WebSocket-Version'' (lit ''13'')]) = None"
    by (rule find_none) (auto simp: protocol_headers_def extension_headers_def not_named_length)
  then show "find (named (lit ''Origin'')) (client_headers x c nonce) = find (named (lit ''Origin'')) (cl_headers c)"
    by (simp add: client_headers_def not_named_length find_append split: option.split)
qed (simp_all add: client_headers_def not_named_length)

lemma client_headers_offered:
  assumes "client_ok x c"
  shows "offered_protocols ps (client_headers x c nonce) = offered_protocols ps (protocol_headers (cl_protocols c))"
proof -
  have "offered_protocols ps (cl_headers c) = []"
    using assms by (intro offered_protocols_free) (simp add: client_ok_def)
  moreover have "offered_protocols ps (extension_headers x (cl_extensions c) @ [hdr ''Sec-WebSocket-Version'' (lit ''13'')]) = []"
    by (rule offered_protocols_free) (auto simp: extension_headers_def sec_names not_named_length)
  moreover have "offered_protocols ps [hdr ''Host'' (cl_host c), hdr ''Upgrade'' (lit ''websocket''), hdr ''Connection'' (lit ''Upgrade''),
      hdr ''Sec-WebSocket-Key'' nonce] = []"
    by (rule offered_protocols_free) (auto simp: sec_names not_named_length)
  ultimately show ?thesis unfolding client_headers_def by (simp only: offered_protocols_append append_Nil append_Nil2)
qed

lemma client_headers_configure:
  assumes "client_ok x c"
  shows "configure_from_headers x es (client_headers x c nonce) = negotiate x es (cl_extensions c)"
proof -
  let ?hs = "[hdr ''Host'' (cl_host c), hdr ''Upgrade'' (lit ''websocket''), hdr ''Connection'' (lit ''Upgrade''),
      hdr ''Sec-WebSocket-Key'' nonce] @ cl_headers c @ protocol_headers (cl_protocols c)"
  have "configure_from_headers x es (?hs @ extension_headers x (cl_extensions c) @ [hdr ''Sec-WebSocket-Version'' (lit ''13'')]) =
      negotiate x es (cl_extensions c)"
    using assms by (intro configure_extension_headers) (auto simp: client_ok_def protocol_headers_def sec_names not_named_length)
  then show ?thesis by (simp add: client_headers_def)
qed

lemma client_headers_expected:
  "expect_ascii_header (client_headers x c nonce) (lit ''Upgrade'') (lit ''websocket'') = Inr ()"
  "expect_ascii_header (client_headers x c nonce) (lit ''Connection'') (lit ''upgrade'') = Inr ()"
  "expect_ascii_header (client_headers x c nonce) (lit ''Sec-WebSocket-Version'') (lit ''13'') = Inr ()"
  by (rule expect_ascii_header_ok [where h = "hdr ''Upgrade'' (lit ''websocket'')"], simp_all add: client_headers_def)
     (rule expect_ascii_header_ok [where h = "hdr ''Connection'' (lit ''Upgrade'')"], simp_all,
      rule expect_ascii_header_ok [where h = "hdr ''Sec-WebSocket-Version'' (lit ''13'')"], simp_all)

lemma accept_request_ok:
  assumes "client_ok x c" "length nonce = 24" "negotiate x (sv_extensions s) (cl_extensions c) = (Inr (), es)"
    and "rq_headers rq = client_headers x c nonce" "rq_path rq = Some (cl_resource c)"
  shows "accept_request x s rq = (Inr (read_request s c nonce), s\<lparr>sv_extensions := es\<rparr>)"
  using assms
  by (simp add: accept_request_def with_first_header_named client_headers_find client_headers_expected client_headers_configure
      client_headers_offered websocket_key_def read_request_def protocol_headers_def find_in Let_def SEC_WEBSOCKET_PROTOCOL_def
      named_eta)

text \<open>
  C31. Protocols: the server recognises a protocol only when it is the only one the client offers. A client that offers
  several sends them as one comma-separated value, which the server compares as a whole with its own
  protocols, so that none of them is reported.
\<close>

theorem protocols_offered:
  fixes c :: "('w, 'e) Client" and s :: "('w, 'e) Server"
  assumes "client_ok x c" "length nonce = 24" "negotiate x (sv_extensions s) (cl_extensions c) = (Inr (), es)"
    and "rq_headers rq = client_headers x c nonce" "rq_path rq = Some (cl_resource c)"
    and "\<forall>p \<in> set (sv_protocols s). 0x2C \<notin> set p"
  shows "\<exists>req s'. accept_request x s rq = (Inr req, s') \<and>
    request_protocols req = (case cl_protocols c of [p] \<Rightarrow> if p \<in> set (sv_protocols s) then [p] else [] | _ \<Rightarrow> [])"
proof -
  have "protocols_text (p # q # ps) \<notin> set (sv_protocols s)" for p q ps using assms(6) by auto
  then have "request_protocols (read_request s c nonce) =
      (case cl_protocols c of [p] \<Rightarrow> if p \<in> set (sv_protocols s) then [p] else [] | _ \<Rightarrow> [])"
    by (auto simp: read_request_def request_protocols_def split: list.splits)
  then show ?thesis using accept_request_ok [OF assms(1-5)] by blast
qed

section \<open>The server's side\<close>

abbreviation client_request where
  "client_request x c nonce \<equiv> head (request_line (lit ''GET'') (cl_resource c)) (client_headers x c nonce)"

lemma request_line_ok:
  assumes "list_all path_byte p"
  shows "request_line (lit ''GET'') p \<noteq> []" "0x0D \<notin> set (request_line (lit ''GET'') p)"
proof -
  have "list_all printable p" using assms path_byte_printable by (auto simp: list_all_iff)
  then show "0x0D \<notin> set (request_line (lit ''GET'') p)" using printable_no_cr [of p] by (simp add: request_line_def lit_def)
qed (simp add: request_line_def lit_def)

lemma receive_request_ok:
  assumes env: "source_ok env inp outp" "source_reliable env inp" and lib: "libs_ok lib inp outp"
    and c: "client_ok x c" "list_all graphic nonce" "length nonce = 24"
    and short: "length (client_request x c nonce) \<le> MAX_HEADERS_SIZE"
    and inp: "inp (sv_socket s) = client_request x c nonce @ rest"
    and ext: "negotiate x (sv_extensions s) (cl_extensions c) = (Inr (), es)"
  shows "\<exists>w b. receive_request lib env x s = Some (Inr (read_request s c nonce), s\<lparr>sv_socket := w, sv_buffer := b, sv_extensions := es\<rparr>) \<and>
    b @ inp w = inp (sv_socket s) \<and> outp w = outp (sv_socket s) \<and> (waits env inp (length rest) \<longrightarrow> inp w = rest)"
proof -
  have path: "cl_resource c \<noteq> []" "list_all path_byte (cl_resource c)" using c(1) by (simp_all add: client_ok_def)
  note hs = client_headers_ok [OF c(1,2)]
  have head: "has_head (client_request x c nonce)"
  proof -
    have "has_tail (client_request x c nonce)"
      unfolding has_tail_iff by (rule exI [of _ "length (client_request x c nonce) - 4"]) (simp add: head_def crlf_def)
    then show ?thesis using short by (simp add: has_head_def)
  qed
  have ends: "has_head (inp (sv_socket s))" unfolding inp by (rule has_head_append [OF head])
  let ?s = "s\<lparr>sv_buffer := []\<rparr>"
  obtain s' where s': "receive_head env 0 ?s = Some (Inr (), s')" "sv_buffer s' @ inp (sv_socket s') = inp (sv_socket s)"
    "outp (sv_socket s') = outp (sv_socket s)" "s' = ?s\<lparr>sv_socket := sv_socket s', sv_buffer := sv_buffer s'\<rparr>" "has_head (sv_buffer s')"
    using receive_head_start [OF env, of ?s] ends by auto
  define w where "w = sv_socket s'"
  define b where "b = sv_buffer s'"
  have r: "receive_head env 0 ?s = Some (Inr (), ?s\<lparr>sv_socket := w, sv_buffer := b\<rparr>)" "b @ inp w = inp (sv_socket s)"
    "outp w = outp (sv_socket s)" "has_head b"
    using s' unfolding w_def b_def by simp_all
  obtain more where more: "b = client_request x c nonce @ more" "more @ inp w = rest"
    using head_read [OF request_line_ok [OF path(2)] hs(1) short] r(2,4) inp by metis
  have wait: "inp w = rest" if "waits env inp (length rest)"
  proof -
    have "length rest \<le> length (inp w)"
      using receive_head_waits [OF env that head, of ?s 0] r(1) inp by (simp add: has_head_def has_tail_def MAX_HEADERS_SIZE_def)
    then show ?thesis using more(2) by auto
  qed
  from more(1) have "parse_request lib MAX_NUM_HEADERS b = Inr (Complete \<lparr>rq_method = Some (lit ''GET''), rq_path = Some (cl_resource c),
      rq_version = Some 1, rq_headers = client_headers x c nonce\<rparr> (length (client_request x c nonce)))"
    using lib path hs unfolding libs_ok_def parse_request_ok_def by simp
  then have "decode_request lib x (?s\<lparr>sv_socket := w, sv_buffer := b\<rparr>) =
      (Inr (read_request s c nonce), s\<lparr>sv_socket := w, sv_buffer := b, sv_extensions := es\<rparr>)"
    using accept_request_ok [OF c(1,3), where es = es and s = "?s\<lparr>sv_socket := w, sv_buffer := b\<rparr>"] ext by (simp add: decode_request_def read_request_def)
  then show ?thesis using r wait by (intro exI [of _ w] exI [of _ b]) (simp add: receive_request_def)
qed

definition response_headers :: "'e Extension \<Rightarrow> bytes \<Rightarrow> str option \<Rightarrow> 'e list \<Rightarrow> http_Header list" where
  "response_headers x accept_value protocol es =
     [hdr ''Server'' (lit ''soketto-0.8.1''), hdr ''Upgrade'' (lit ''websocket''), hdr ''Connection'' (lit ''upgrade''),
      hdr ''Sec-WebSocket-Accept'' accept_value] @
     (case protocol of Some p \<Rightarrow> [hdr ''Sec-WebSocket-Protocol'' p] | None \<Rightarrow> []) @
     extension_headers x (filter (ext_is_enabled x) es)"

abbreviation server_response where
  "server_response x accept_value protocol es \<equiv>
     head (status_line 101 (lit ''Switching Protocols'')) (response_headers x accept_value protocol es)"

lemma encode_response_head:
  assumes "generate_accept_key lib key = Some accept_value"
  shows "encode_response lib x s (Accept key protocol) =
    Some (s\<lparr>sv_buffer := sv_buffer s @ server_response x accept_value protocol (sv_extensions s)\<rparr>)"
  using assms by (simp add: encode_response_def append_extensions_lines Let_def response_headers_def head_def status_line_def
      header_line_def lit_def decimal3_def split: option.split)

lemma send_response_ok:
  assumes "sink_ok env inp outp" "libs_ok lib inp outp"
  shows "\<exists>w. send_response lib env x s (Accept key protocol) = Some (Inr (), s\<lparr>sv_socket := w, sv_buffer := []\<rparr>) \<and>
    outp w = outp (sv_socket s) @ server_response x (base64 lib (sha1 lib (key @ KEY))) protocol (sv_extensions s) \<and>
    inp w = inp (sv_socket s)"
proof -
  let ?bs = "server_response x (base64 lib (sha1 lib (key @ KEY))) protocol (sv_extensions s)"
  obtain w1 where w1: "sock_write_all env (sv_socket s) ?bs = (Inr (), w1)" "outp w1 = outp (sv_socket s) @ ?bs" "inp w1 = inp (sv_socket s)"
    using assms(1) unfolding sink_ok_def by blast
  obtain w2 where "sock_flush env w1 = (Inr (), w2)" "outp w2 = outp w1" "inp w2 = inp w1"
    using assms(1) unfolding sink_ok_def by blast
  then show ?thesis using w1
    by (intro exI [of _ w2]) (simp add: send_response_def encode_response_head [OF libs_okD(5) [OF assms(2)]])
qed

section \<open>The client reads the response\<close>

lemma response_headers_find:
  "find (named (lit ''Sec-WebSocket-Accept'')) (response_headers x a protocol es) = Some (hdr ''Sec-WebSocket-Accept'' a)"
  "find (named SEC_WEBSOCKET_PROTOCOL) (response_headers x a protocol es) = map_option (hdr ''Sec-WebSocket-Protocol'') protocol"
  by (simp_all add: response_headers_def extension_headers_def sec_names not_named_length split: option.split)

lemma response_headers_configure:
  assumes "value_ok (append_extension_header_value x (filter (ext_is_enabled x) es) [])"
  shows "configure_from_headers x exts (response_headers x a protocol es) = negotiate x exts (filter (ext_is_enabled x) es)"
proof -
  let ?hs = "[hdr ''Server'' (lit ''soketto-0.8.1''), hdr ''Upgrade'' (lit ''websocket''), hdr ''Connection'' (lit ''upgrade''),
      hdr ''Sec-WebSocket-Accept'' a] @ (case protocol of Some p \<Rightarrow> [hdr ''Sec-WebSocket-Protocol'' p] | None \<Rightarrow> [])"
  have "configure_from_headers x exts (?hs @ extension_headers x (filter (ext_is_enabled x) es) @ []) =
      negotiate x exts (filter (ext_is_enabled x) es)"
    by (intro configure_extension_headers assms) (auto simp: sec_names not_named_length split: option.splits)
  then show ?thesis by (simp add: response_headers_def)
qed

lemma response_headers_expected:
  "expect_ascii_header (response_headers x a protocol es) (lit ''Upgrade'') (lit ''websocket'') = Inr ()"
  "expect_ascii_header (response_headers x a protocol es) (lit ''Connection'') (lit ''upgrade'') = Inr ()"
  by (rule expect_ascii_header_ok [where h = "hdr ''Upgrade'' (lit ''websocket'')"], simp_all add: response_headers_def)
     (rule expect_ascii_header_ok [where h = "hdr ''Connection'' (lit ''upgrade'')"], simp_all)

definition asked_for :: "str list \<Rightarrow> str option \<Rightarrow> bool" where
  "asked_for protocols protocol \<longleftrightarrow> (case protocol of Some p \<Rightarrow> p \<in> set protocols \<and> value_ok p | None \<Rightarrow> True)"

lemma accept_response_ok:
  assumes "asked_for (cl_protocols c) protocol" "value_ok (append_extension_header_value x (filter (ext_is_enabled x) es) [])"
    and "negotiate x (cl_extensions c) (filter (ext_is_enabled x) es) = (Inr (), es')"
  shows "accept_response lib x c (response_headers x (base64 lib (sha1 lib (cl_nonce c @ KEY))) protocol es) =
    (Inr (Accepted protocol), c\<lparr>cl_extensions := es'\<rparr>)"
  using assms
  by (auto simp: accept_response_def with_first_header_named select_protocol_named response_headers_find response_headers_expected
      response_headers_configure check_accept_def asked_for_def split: option.splits)

lemma response_headers_ok:
  assumes "list_all graphic a" "asked_for protocols protocol" "value_ok (append_extension_header_value x (filter (ext_is_enabled x) es) [])"
  shows "list_all header_ok (response_headers x a protocol es)" "length (response_headers x a protocol es) \<le> MAX_NUM_HEADERS"
  using assms graphic_list(2) [OF assms(1)]
  by (auto simp: response_headers_def extension_headers_def header_ok_hdr asked_for_def MAX_NUM_HEADERS_def split: option.splits)

text \<open>
  The reading loop: if the client decodes every buffer that starts with a head to the same answer, and waits
  for more before, then it ends with that answer and keeps what follows the head.
\<close>

lemma client_read_loop_ok:
  assumes env: "source_ok env inp outp" "source_reliable env inp"
    and whole: "\<And>w more. decode_response lib x (c\<lparr>cl_socket := w, cl_buffer := hd' @ more\<rparr>) =
      (Inr (Done v (length hd')), c'\<lparr>cl_socket := w, cl_buffer := hd' @ more\<rparr>)"
    and part: "\<And>w bs t. bs @ t = hd' \<Longrightarrow> t \<noteq> [] \<Longrightarrow>
      decode_response lib x (c\<lparr>cl_socket := w, cl_buffer := bs\<rparr>) = (Inr (NeedMore ()), c\<lparr>cl_socket := w, cl_buffer := bs\<rparr>)"
  shows "length bs < length hd' \<Longrightarrow> bs @ inp w = hd' @ rest \<Longrightarrow>
    \<exists>w' more. client_read_loop lib env x (c\<lparr>cl_socket := w, cl_buffer := bs\<rparr>) = Some (Inr v, c'\<lparr>cl_socket := w', cl_buffer := more\<rparr>) \<and>
      more @ inp w' = rest \<and> outp w' = outp w"
proof (induction "length (inp w)" arbitrary: w bs rule: less_induct)
  case less
  have lim: "0 < client_BLOCK_SIZE" by (simp add: client_BLOCK_SIZE_def)
  have "inp w \<noteq> []"
  proof
    assume "inp w = []"
    then have "length bs = length hd' + length rest" using arg_cong [OF less.prems(2), of length] by simp
    then show False using less.prems(1) by simp
  qed
  then obtain w' new where r: "read env w bs client_BLOCK_SIZE = (Inr (), w', bs @ new)" "new \<noteq> []" "new @ inp w' = inp w" "outp w' = outp w"
    using read_reliable [OF env lim, of w bs] by auto
  have eq: "(bs @ new) @ inp w' = hd' @ rest" using less.prems(2) r(3) by simp
  show ?case
  proof (cases "length hd' \<le> length (bs @ new)")
    case True
    then obtain more where more: "bs @ new = hd' @ more" "rest = more @ inp w'"
      using prefix_split [of hd' rest "bs @ new" "inp w'"] eq by auto
    then show ?thesis using r(1,4) whole [where w = w' and more = more]
      by (intro exI [of _ w'] exI [of _ more]) (simp add: client_read_loop.simps [of lib env x "c\<lparr>cl_socket := w, cl_buffer := bs\<rparr>"] Let_def)
  next
    case False
    then obtain t where t: "hd' = (bs @ new) @ t" "t \<noteq> []"
      using prefix_split [of "bs @ new" "inp w'" hd' rest] eq by fastforce
    then have step: "client_read_loop lib env x (c\<lparr>cl_socket := w, cl_buffer := bs\<rparr>) =
        client_read_loop lib env x (c\<lparr>cl_socket := w', cl_buffer := bs @ new\<rparr>)"
      using r(1) part [where bs = "bs @ new" and t = t and w = w'] by (simp add: client_read_loop.simps [of lib env x "c\<lparr>cl_socket := w, cl_buffer := bs\<rparr>"] Let_def)
    have "length (inp w') < length (inp w)"
      using r(2) arg_cong [OF r(3), of length] by (metis length_append length_greater_0_conv less_add_same_cancel2)
    from less.hyps [OF this _ eq] False r(4) show ?thesis unfolding step by simp
  qed
qed

lemma client_handshake_ok:
  assumes env: "env_ok env inp outp" and lib: "libs_ok lib inp outp" and c: "client_ok x c"
    and n: "random_16 lib (cl_socket c) = (n, w0)"
    and inp: "inp (cl_socket c) = server_response x (base64 lib (sha1 lib (base64 lib n @ KEY))) protocol es @ rest"
    and p: "asked_for (cl_protocols c) protocol" "value_ok (append_extension_header_value x (filter (ext_is_enabled x) es) [])"
    and ext: "negotiate x (cl_extensions c) (filter (ext_is_enabled x) es) = (Inr (), es')"
  shows "\<exists>w more. client_handshake lib env x c = Some (Inr (Accepted protocol),
      c\<lparr>cl_socket := w, cl_nonce := base64 lib n, cl_buffer := more, cl_extensions := es'\<rparr>) \<and>
    more @ inp w = rest \<and> outp w = outp (cl_socket c) @ client_request x c (base64 lib n)"
proof -
  have e: "source_ok env inp outp" "source_reliable env inp" "sink_ok env inp outp" using env by (simp_all add: env_ok_def)
  let ?acc = "base64 lib (sha1 lib (base64 lib n @ KEY))"
  let ?hd = "server_response x ?acc protocol es" and ?req = "client_request x c (base64 lib n)"
  let ?c = "c\<lparr>cl_nonce := base64 lib n\<rparr>"
  note hs = response_headers_ok [OF libs_okD(4) [OF lib] p]
  have w0: "inp w0 = inp (cl_socket c)" "outp w0 = outp (cl_socket c)" using libs_okD(3) [OF lib n] by auto
  have enc: "encode_request lib x (c\<lparr>cl_buffer := []\<rparr>) = Some (?c\<lparr>cl_socket := w0, cl_buffer := ?req\<rparr>)"
    using encode_request_head [of lib n "c\<lparr>cl_buffer := []\<rparr>" "base64 lib n" w0 x] libs_okD(1) [OF lib n, of "cl_nonce c"] n c
    by (simp add: client_ok_def client_headers_def)
  obtain w1 where w1: "sock_write_all env w0 ?req = (Inr (), w1)" "outp w1 = outp w0 @ ?req" "inp w1 = inp w0"
    using e(3) unfolding sink_ok_def by blast
  obtain w2 where w2: "sock_flush env w1 = (Inr (), w2)" "outp w2 = outp w1" "inp w2 = inp w1"
    using e(3) unfolding sink_ok_def by blast
  have parse: "parse_response lib MAX_NUM_HEADERS (?hd @ more) = Inr (Complete \<lparr>rs_version = Some 1, rs_code = Some 101,
      rs_headers = response_headers x ?acc protocol es\<rparr> (length ?hd))"
    "bs @ t = ?hd \<Longrightarrow> t \<noteq> [] \<Longrightarrow> parse_response lib MAX_NUM_HEADERS bs = Inr Partial" for more bs t
  proof -
    have ok: "100 \<le> (101 :: nat)" "(101 :: nat) < 1000" "value_ok (lit ''Switching Protocols'')" by simp_all
    have "parse_response_ok (parse_response lib)" using lib by (simp add: libs_ok_def)
    then show "parse_response lib MAX_NUM_HEADERS (?hd @ more) = Inr (Complete \<lparr>rs_version = Some 1, rs_code = Some 101,
        rs_headers = response_headers x ?acc protocol es\<rparr> (length ?hd))"
      "bs @ t = ?hd \<Longrightarrow> t \<noteq> [] \<Longrightarrow> parse_response lib MAX_NUM_HEADERS bs = Inr Partial"
      unfolding parse_response_ok_def using ok hs by (simp, blast)
  qed
  have "\<exists>w' more. client_read_loop lib env x (?c\<lparr>cl_socket := w2, cl_buffer := []\<rparr>) =
        Some (Inr (Accepted protocol), (?c\<lparr>cl_extensions := es'\<rparr>)\<lparr>cl_socket := w', cl_buffer := more\<rparr>) \<and>
      more @ inp w' = rest \<and> outp w' = outp w2"
  proof (rule client_read_loop_ok [OF e(1,2)])
    show "decode_response lib x (?c\<lparr>cl_socket := w, cl_buffer := ?hd @ more\<rparr>) =
        (Inr (Done (Accepted protocol) (length ?hd)), (?c\<lparr>cl_extensions := es'\<rparr>)\<lparr>cl_socket := w, cl_buffer := ?hd @ more\<rparr>)" for w more
      using accept_response_ok [where c = "?c\<lparr>cl_socket := w, cl_buffer := ?hd @ more\<rparr>" and lib = lib, OF _ p(2), of protocol es'] p(1) ext
      by (simp add: decode_response_def parse(1))
    show "length [] < length ?hd" by (simp add: head_def crlf_def)
    show "[] @ inp w2 = ?hd @ rest" using w0 w1(3) w2(3) inp by simp
  qed (simp add: decode_response_def parse(2))
  then obtain w' more where "client_read_loop lib env x (?c\<lparr>cl_socket := w2, cl_buffer := []\<rparr>) =
      Some (Inr (Accepted protocol), (?c\<lparr>cl_extensions := es'\<rparr>)\<lparr>cl_socket := w', cl_buffer := more\<rparr>)"
    "more @ inp w' = rest" "outp w' = outp w2" by blast
  then show ?thesis using w0 w1 w2
    by (intro exI [of _ w'] exI [of _ more]) (simp add: client_handshake_def enc)
qed

section \<open>Both sides\<close>

lemma handshake_completes:
  assumes "env_ok env inp outp" "libs_ok lib inp outp" "client_ok x c" "random_16 lib (cl_socket c) = (n, w0)"
    and "length (client_request x c (base64 lib n)) \<le> MAX_HEADERS_SIZE"
    and "negotiate x (sv_extensions s) (cl_extensions c) = (Inr (), ses)"
    and "negotiate x (cl_extensions c) (filter (ext_is_enabled x) ses) = (Inr (), ces)"
    and "value_ok (append_extension_header_value x (filter (ext_is_enabled x) ses) [])" "asked_for (cl_protocols c) protocol"
    and "inp (sv_socket s) = client_request x c (base64 lib n)"
    and "inp (cl_socket c) = server_response x (base64 lib (sha1 lib (base64 lib n @ KEY))) protocol ses @ rest"
  shows "\<exists>req s1 s2 c'. receive_request lib env x s = Some (Inr req, s1) \<and>
    request_key req = base64 lib n \<and> request_path req = cl_resource c \<and> rh_host (request_headers req) = cl_host c \<and>
    send_response lib env x s1 (Accept (request_key req) protocol) = Some (Inr (), s2) \<and>
    outp (sv_socket s2) = outp (sv_socket s) @ server_response x (base64 lib (sha1 lib (base64 lib n @ KEY))) protocol ses \<and>
    client_handshake lib env x c = Some (Inr (Accepted protocol), c') \<and>
    outp (cl_socket c') = outp (cl_socket c) @ client_request x c (base64 lib n) \<and>
    sv_extensions s2 = ses \<and> cl_extensions c' = ces \<and> cl_buffer c' @ inp (cl_socket c') = rest"
proof -
  have e: "source_ok env inp outp" "source_reliable env inp" "sink_ok env inp outp" using assms(1) by (simp_all add: env_ok_def)
  obtain w b where r: "receive_request lib env x s =
      Some (Inr (read_request s c (base64 lib n)), s\<lparr>sv_socket := w, sv_buffer := b, sv_extensions := ses\<rparr>)"
    "outp w = outp (sv_socket s)"
    using receive_request_ok [OF e(1,2) assms(2,3) libs_okD(4) [OF assms(2)] libs_okD(2) [OF assms(2,4)] assms(5), of s "[]"] assms(6,10)
    by auto
  let ?s1 = "s\<lparr>sv_socket := w, sv_buffer := b, sv_extensions := ses\<rparr>"
  obtain w2 where "send_response lib env x ?s1 (Accept (base64 lib n) protocol) = Some (Inr (), ?s1\<lparr>sv_socket := w2, sv_buffer := []\<rparr>)"
    "outp w2 = outp w @ server_response x (base64 lib (sha1 lib (base64 lib n @ KEY))) protocol ses"
    using send_response_ok [OF e(3) assms(2), where s = ?s1 and x = x and key = "base64 lib n" and protocol = protocol] by auto
  moreover obtain w3 more where "client_handshake lib env x c = Some (Inr (Accepted protocol),
      c\<lparr>cl_socket := w3, cl_nonce := base64 lib n, cl_buffer := more, cl_extensions := ces\<rparr>)"
    "more @ inp w3 = rest" "outp w3 = outp (cl_socket c) @ client_request x c (base64 lib n)"
    using client_handshake_ok [OF assms(1-4,11,9,8,7)] by blast
  ultimately show ?thesis using r
    by (intro exI [of _ "read_request s c (base64 lib n)"] exI)
       (auto simp: read_request_def request_key_def request_path_def request_headers_def)
qed

text \<open>
  C26. Agreement: a client and a server that read what the other wrote complete the handshake. The server reads the request
  with the client's nonce, path and host; it answers with the accept key for that nonce; the client accepts the
  answer, with the protocol the server chose. Each side ends with its extensions configured by what the other
  side wrote, and the client keeps the bytes that follow the response for the connection.
\<close>

theorem handshake_agreement:
  assumes "env_ok env inp outp" "libs_ok lib inp outp" "client_ok x c" "random_16 lib (cl_socket c) = (n, w0)"
    and "length (client_request x c (base64 lib n)) \<le> MAX_HEADERS_SIZE"
    and "negotiate x (sv_extensions s) (cl_extensions c) = (Inr (), ses)"
    and "negotiate x (cl_extensions c) (filter (ext_is_enabled x) ses) = (Inr (), ces)"
    and "value_ok (append_extension_header_value x (filter (ext_is_enabled x) ses) [])" "asked_for (cl_protocols c) protocol"
    and "inp (sv_socket s) = client_request x c (base64 lib n)"
    and "inp (cl_socket c) = server_response x (base64 lib (sha1 lib (base64 lib n @ KEY))) protocol ses @ rest"
  shows "\<exists>req s1 s2 c'. receive_request lib env x s = Some (Inr req, s1) \<and>
    request_key req = base64 lib n \<and> request_path req = cl_resource c \<and> rh_host (request_headers req) = cl_host c \<and>
    send_response lib env x s1 (Accept (request_key req) protocol) = Some (Inr (), s2) \<and>
    outp (sv_socket s2) = outp (sv_socket s) @ server_response x (base64 lib (sha1 lib (base64 lib n @ KEY))) protocol ses \<and>
    client_handshake lib env x c = Some (Inr (Accepted protocol), c') \<and>
    outp (cl_socket c') = outp (cl_socket c) @ client_request x c (base64 lib n) \<and>
    sv_extensions s2 = ses \<and> cl_extensions c' = ces \<and> cl_buffer c' @ inp (cl_socket c') = rest"
  by (rule handshake_completes [OF assms])

section \<open>What is accepted\<close>

lemma expect_ascii_header_Inr:
  "expect_ascii_header headers name ours = Inr () \<longleftrightarrow> (\<exists>h \<in> set headers. named name h \<and> lists_value ours h)"
  by (auto simp: expect_ascii_header_eq Let_def split: sum.splits if_splits)

text \<open>
  C27. Safety of the client: it reports an accepted handshake only for a complete HTTP/1.1 response with status 101 whose
  headers upgrade to a websocket, whose first accept key is the one for the client's own nonce, and whose
  protocol, if it has one, is one the client asked for.
\<close>

theorem client_accepts_only:
  assumes "decode_response lib x c = (Inr (Done (Accepted protocol) offset), c')"
  shows "\<exists>rs key. parse_response lib MAX_NUM_HEADERS (cl_buffer c) = Inr (Complete rs offset) \<and>
    rs_version rs = Some 1 \<and> rs_code rs = Some 101 \<and>
    (\<exists>h \<in> set (rs_headers rs). named (lit ''Upgrade'') h \<and> lists_value (lit ''websocket'') h) \<and>
    (\<exists>h \<in> set (rs_headers rs). named (lit ''Connection'') h \<and> lists_value (lit ''upgrade'') h) \<and>
    find (named (lit ''Sec-WebSocket-Accept'')) (rs_headers rs) = Some key \<and>
    hdr_value key = base64 lib (sha1 lib (cl_nonce c @ KEY)) \<and>
    map_option hdr_value (find (named SEC_WEBSOCKET_PROTOCOL) (rs_headers rs)) = protocol \<and>
    (\<forall>p. protocol = Some p \<longrightarrow> p \<in> set (cl_protocols c))"
proof -
  obtain rs where rs: "parse_response lib MAX_NUM_HEADERS (cl_buffer c) = Inr (Complete rs offset)" "rs_version rs = Some 1"
    "rs_code rs = Some 101" "accept_response lib x c (rs_headers rs) = (Inr (Accepted protocol), c')"
    using assms by (auto simp: decode_response_def split: sum.splits http_Status.splits if_splits option.splits prod.splits)
  then show ?thesis
    by (auto simp: accept_response_def expect_ascii_header_Inr with_first_header_named select_protocol_named check_accept_def Let_def
        split: sum.splits prod.splits option.splits if_splits)
qed

text \<open>
  C28. Safety of the server: it answers a request only when that is a complete HTTP/1.1 GET request with a host, whose headers
  upgrade to version 13 of the protocol, with a key of 24 bytes; it reports the first host, key and origin, and
  only protocols the server supports.
\<close>

theorem server_accepts_only:
  assumes "decode_request lib x s = (Inr req, s')"
  shows "\<exists>rq offset host key. parse_request lib MAX_NUM_HEADERS (sv_buffer s) = Inr (Complete rq offset) \<and>
    rq_method rq = Some (lit ''GET'') \<and> rq_version rq = Some 1 \<and>
    (\<exists>h \<in> set (rq_headers rq). named (lit ''Upgrade'') h \<and> lists_value (lit ''websocket'') h) \<and>
    (\<exists>h \<in> set (rq_headers rq). named (lit ''Connection'') h \<and> lists_value (lit ''upgrade'') h) \<and>
    (\<exists>h \<in> set (rq_headers rq). named (lit ''Sec-WebSocket-Version'') h \<and> lists_value (lit ''13'') h) \<and>
    find (named (lit ''Host'')) (rq_headers rq) = Some host \<and> rh_host (request_headers req) = hdr_value host \<and>
    find (named (lit ''Sec-WebSocket-Key'')) (rq_headers rq) = Some key \<and> request_key req = hdr_value key \<and>
    length (request_key req) = 24 \<and>
    rh_origin (request_headers req) = map_option hdr_value (find (named (lit ''Origin'')) (rq_headers rq)) \<and>
    set (request_protocols req) \<subseteq> set (sv_protocols s)"
proof -
  have p: "q \<in> set (offered_protocols ps hs) \<Longrightarrow> q \<in> set ps" for q ps hs
    by (induction hs) (auto simp: find_in split: option.splits if_splits)
  obtain rq offset where rq: "parse_request lib MAX_NUM_HEADERS (sv_buffer s) = Inr (Complete rq offset)" "rq_method rq = Some (lit ''GET'')"
    "rq_version rq = Some 1" "accept_request x s rq = (Inr req, s')"
    using assms by (auto simp: decode_request_def split: sum.splits http_Status.splits if_splits)
  then show ?thesis
    by (auto simp: accept_request_def expect_ascii_header_Inr with_first_header_named websocket_key_def Let_def named_eta
        request_key_def request_headers_def request_protocols_def
        dest: p split: sum.splits prod.splits option.splits if_splits)
qed

end
