(* ===== verification/Deflate_Ext.thy ===== *)
theory Deflate_Ext
  imports Connection
begin

text \<open>
  \<^verbatim>\<open>src/extension/deflate.rs\<close>: the permessage-deflate extension of RFC 7692. The compressor and decompressor of
  the \<^verbatim>\<open>flate2\<close> crate are not code of this repository: they are the record \<open>Flate\<close>, a parameter of
  encoding and decoding, with their state of type \<open>'z\<close>. \<open>compress_vec\<close> may only write as many bytes as its
  output vector has spare capacity, so the capacity of the extension's buffer is part of its state
  (\<open>d_capacity\<close>); how much a vector grows, and the capacity of vectors that come from elsewhere, are
  parameters too.
\<close>

section \<open>The compression library\<close>

datatype FlushCompress = NoFlush | SyncFlush

datatype Status = StatusOk | BufError | StreamEnd

text \<open>
  \<open>new_with_window_bits\<close> answers \<open>None\<close> when it panics. \<open>compress_vec z input spare flush\<close> is
  \<^verbatim>\<open>encoder.compress_vec(input, &mut vec, flush)\<close> for a vector with \<open>spare\<close> unused bytes, and answers the
  bytes appended. \<open>inflate data\<close> is a new \<^verbatim>\<open>DeflateDecoder\<close>, \<^verbatim>\<open>write_all(data)\<close> and \<^verbatim>\<open>finish()\<close>, and
  answers what was put in the output vector. \<open>grow cap required\<close> is the capacity after growing to
  \<open>required\<close>, and \<open>capacity_of v\<close> the capacity of the caller's vector \<open>v\<close>.
\<close>

record 'z Flate =
  new_with_window_bits :: "u8 \<Rightarrow> 'z option"
  total_in :: "'z \<Rightarrow> u64"
  compress_vec :: "'z \<Rightarrow> bytes \<Rightarrow> nat \<Rightarrow> FlushCompress \<Rightarrow> (BoxedError + Status) \<times> 'z \<times> bytes"
  inflate :: "bytes \<Rightarrow> (BoxedError + unit) \<times> bytes"
  grow :: "nat \<Rightarrow> nat \<Rightarrow> nat"
  capacity_of :: "bytes \<Rightarrow> nat"

text \<open>\<^verbatim>\<open>Vec::reserve\<close>, for a vector of length \<open>n\<close> and capacity \<open>cap\<close>.\<close>

definition reserve :: "'z Flate \<Rightarrow> nat \<Rightarrow> nat \<Rightarrow> nat \<Rightarrow> nat" where
  "reserve f n cap additional = (if additional \<le> cap - n then cap else grow f cap (n + additional))"

section \<open>State and parameters\<close>

definition SERVER_NO_CONTEXT_TAKEOVER :: str where "SERVER_NO_CONTEXT_TAKEOVER = lit ''server_no_context_takeover''"
definition SERVER_MAX_WINDOW_BITS :: str where "SERVER_MAX_WINDOW_BITS = lit ''server_max_window_bits''"
definition CLIENT_NO_CONTEXT_TAKEOVER :: str where "CLIENT_NO_CONTEXT_TAKEOVER = lit ''client_no_context_takeover''"
definition CLIENT_MAX_WINDOW_BITS :: str where "CLIENT_MAX_WINDOW_BITS = lit ''client_max_window_bits''"

record Deflate =
  d_mode :: Mode
  d_enabled :: bool
  d_buffer :: bytes
  d_params :: "Param list"
  d_our_max_window_bits :: u8
  d_their_max_window_bits :: u8
  d_await_last_fragment :: bool
  d_capacity :: nat

definition deflate_new :: "Mode \<Rightarrow> Deflate" where
  "deflate_new mode =
     \<lparr>d_mode = mode, d_enabled = False, d_buffer = [],
      d_params = (case mode of
          Server \<Rightarrow> []
        | Client \<Rightarrow> [param_new SERVER_NO_CONTEXT_TAKEOVER, param_new CLIENT_NO_CONTEXT_TAKEOVER, param_new CLIENT_MAX_WINDOW_BITS]),
      d_our_max_window_bits = 15, d_their_max_window_bits = 15, d_await_last_fragment = False, d_capacity = 0\<rparr>"

text \<open>The setters panic (\<open>None\<close>) in server mode and for values outside 9 to 15.\<close>

definition set_max_server_window_bits :: "Deflate \<Rightarrow> u8 \<Rightarrow> Deflate option" where
  "set_max_server_window_bits self n =
     (if d_mode self = Client \<and> n > 8 \<and> n \<le> 15
      then Some (self\<lparr>d_their_max_window_bits := n,
                      d_params := d_params self @
                        [param_set_value (param_new SERVER_MAX_WINDOW_BITS) (Some (u8_to_string n))]\<rparr>)
      else None)"

text \<open>The first parameter with the given name gets the value, or a new one is added.\<close>

fun set_or_push :: "str \<Rightarrow> str \<Rightarrow> Param list \<Rightarrow> Param list" where
  "set_or_push name v [] = [param_set_value (param_new name) (Some v)]"
| "set_or_push name v (p # ps) =
     (if param_name p = name then param_set_value p (Some v) # ps else p # set_or_push name v ps)"

definition set_max_client_window_bits :: "Deflate \<Rightarrow> u8 \<Rightarrow> Deflate option" where
  "set_max_client_window_bits self n =
     (if d_mode self = Client \<and> n > 8 \<and> n \<le> 15
      then Some (self\<lparr>d_our_max_window_bits := n,
                      d_params := set_or_push CLIENT_MAX_WINDOW_BITS (u8_to_string n) (d_params self)\<rparr>)
      else None)"

definition set_their_max_window_bits :: "Deflate \<Rightarrow> Param \<Rightarrow> u8 option \<Rightarrow> (unit + unit) \<times> Deflate" where
  "set_their_max_window_bits self p expected =
     (case Option.bind (param_value p) parse_u8 of
        Some v \<Rightarrow>
          if v < 8 \<or> v > 15 then (Inl (), self)
          else if (case expected of Some x \<Rightarrow> v > x | None \<Rightarrow> False) then (Inl (), self)
          else (Inr (), self\<lparr>d_their_max_window_bits := max 9 v\<rparr>)
      | None \<Rightarrow> (Inr (), self))"

section \<open>Negotiation\<close>

text \<open>
  The loops over the offered parameters, with whether they ran to the end: every early return of
  \<^verbatim>\<open>configure\<close> is \<^verbatim>\<open>Ok(())\<close> and leaves the extension disabled.
\<close>

fun configure_server :: "Deflate \<Rightarrow> Param list \<Rightarrow> bool \<times> Deflate" where
  "configure_server self [] = (True, self)"
| "configure_server self (p # ps) =
     (if param_name p = CLIENT_MAX_WINDOW_BITS then
        (case set_their_max_window_bits self p None of
           (Inl _, self) \<Rightarrow> (False, self)
         | (Inr _, self) \<Rightarrow> configure_server self ps)
      else if param_name p = SERVER_MAX_WINDOW_BITS then
        (case Option.bind (param_value p) parse_u8 of
           Some v \<Rightarrow>
             if v < 9 \<or> v > 15 then (False, self)
             else configure_server
               (self\<lparr>d_params := d_params self @
                       [param_set_value (param_new SERVER_MAX_WINDOW_BITS) (Some (u8_to_string v))],
                     d_our_max_window_bits := v\<rparr>) ps
         | None \<Rightarrow> (False, self))
      else if param_name p = CLIENT_NO_CONTEXT_TAKEOVER then
        configure_server (self\<lparr>d_params := d_params self @ [param_new CLIENT_NO_CONTEXT_TAKEOVER]\<rparr>) ps
      else if param_name p = SERVER_NO_CONTEXT_TAKEOVER then
        configure_server (self\<lparr>d_params := d_params self @ [param_new SERVER_NO_CONTEXT_TAKEOVER]\<rparr>) ps
      else (False, self))"

fun configure_client :: "Deflate \<Rightarrow> bool \<Rightarrow> Param list \<Rightarrow> bool \<times> Deflate" where
  "configure_client self server_no_context_takeover [] = (server_no_context_takeover, self)"
| "configure_client self server_no_context_takeover (p # ps) =
     (if param_name p = SERVER_NO_CONTEXT_TAKEOVER then configure_client self True ps
      else if param_name p = CLIENT_NO_CONTEXT_TAKEOVER then configure_client self server_no_context_takeover ps
      else if param_name p = SERVER_MAX_WINDOW_BITS then
        (case set_their_max_window_bits self p (Some (d_their_max_window_bits self)) of
           (Inl _, self) \<Rightarrow> (False, self)
         | (Inr _, self) \<Rightarrow> configure_client self server_no_context_takeover ps)
      else if param_name p = CLIENT_MAX_WINDOW_BITS then
        (case Option.bind (param_value p) parse_u8 of
           Some v \<Rightarrow>
             if v < 8 \<or> v > 15 then (False, self)
             else configure_client (self\<lparr>d_our_max_window_bits := min (d_our_max_window_bits self) (max 9 v)\<rparr>)
               server_no_context_takeover ps
         | None \<Rightarrow> configure_client self server_no_context_takeover ps)
      else (False, self))"

definition deflate_configure :: "Deflate \<Rightarrow> Param list \<Rightarrow> (BoxedError + unit) \<times> Deflate" where
  "deflate_configure self params =
     (case (case d_mode self of
              Server \<Rightarrow> configure_server (self\<lparr>d_params := []\<rparr>) params
            | Client \<Rightarrow> configure_client self False params) of
        (False, self) \<Rightarrow> (Inr (), self)
      | (True, self) \<Rightarrow> (Inr (), self\<lparr>d_enabled := True\<rparr>))"

definition deflate_reserved_bits :: "Deflate \<Rightarrow> bool \<times> bool \<times> bool" where
  "deflate_reserved_bits self = (True, False, False)"

definition deflate_name :: "Deflate \<Rightarrow> str" where
  "deflate_name self = lit ''permessage-deflate''"

section \<open>Decoding and encoding\<close>

definition end_marker :: bytes where
  "end_marker = [0, 0, 0xFF, 0xFF]"

definition ends_with :: "bytes \<Rightarrow> bytes \<Rightarrow> bool" where
  "ends_with bs suf \<longleftrightarrow> length suf \<le> length bs \<and> drop (length bs - length suf) bs = suf"

text \<open>The part of \<^verbatim>\<open>decode\<close> after the decision to decompress.\<close>

definition decompress :: "'z Flate \<Rightarrow> Deflate \<Rightarrow> Header \<Rightarrow> bytes \<Rightarrow> (BoxedError + unit) \<times> Deflate \<times> Header \<times> bytes" where
  "decompress f self header data =
     (let data = data @ end_marker in
      case inflate f data of
        (Inl e, out) \<Rightarrow> (Inl e, self\<lparr>d_buffer := out, d_capacity := capacity_of f out\<rparr>, header, data)
      | (Inr _, out) \<Rightarrow>
          (Inr (), self\<lparr>d_buffer := data, d_capacity := capacity_of f data\<rparr>,
           set_payload_len (set_rsv1 header False) (of_nat (length out)), out))"

definition deflate_decode :: "'z Flate \<Rightarrow> Deflate \<Rightarrow> Header \<Rightarrow> bytes \<Rightarrow> (BoxedError + unit) \<times> Deflate \<times> Header \<times> bytes" where
  "deflate_decode f self header data =
     (if data = [] then (Inr (), self, header, data)
      else if (opcode header = OpCode.Binary \<or> opcode header = OpCode.Text) \<and> is_rsv1 header then
        if \<not> is_fin header then (Inr (), self\<lparr>d_await_last_fragment := True\<rparr>, header, data)
        else decompress f self header data
      else if opcode header = OpCode.Continue \<and> is_fin header \<and> d_await_last_fragment self then
        decompress f (self\<lparr>d_await_last_fragment := False\<rparr>) header data
      else (Inr (), self, header, data))"

text \<open>The two loops of \<^verbatim>\<open>encode\<close>, on the compressor, the output and its capacity.\<close>

type_synonym 'z compressed = "(BoxedError + unit) \<times> 'z \<times> bytes \<times> nat"

partial_function (option) compress_all :: "'z Flate \<Rightarrow> bytes \<Rightarrow> 'z \<Rightarrow> bytes \<Rightarrow> nat \<Rightarrow> 'z compressed option" where
  "compress_all f data z buf cap =
     (if total_in f z < as_u64 (of_nat (length data)) then
        case compress_vec f z (drop (unat (total_in f z)) data) (cap - length buf) NoFlush of (r, z, out) \<Rightarrow>
          (let buf = buf @ out in
           case r of
             Inl e \<Rightarrow> Some (Inl e, z, buf, cap)
           | Inr s \<Rightarrow>
               (case s of
                  BufError \<Rightarrow> compress_all f data z buf (reserve f (length buf) cap 4096)
                | StatusOk \<Rightarrow> compress_all f data z buf cap
                | StreamEnd \<Rightarrow> Some (Inr (), z, buf, cap)))
      else Some (Inr (), z, buf, cap))"

partial_function (option) flush_all :: "'z Flate \<Rightarrow> 'z \<Rightarrow> bytes \<Rightarrow> nat \<Rightarrow> 'z compressed option" where
  "flush_all f z buf cap =
     (if \<not> ends_with buf end_marker then
        let cap = reserve f (length buf) cap 5 in
        case compress_vec f z [] (cap - length buf) SyncFlush of (r, z, out) \<Rightarrow>
          (let buf = buf @ out in
           case r of
             Inl e \<Rightarrow> Some (Inl e, z, buf, cap)
           | Inr s \<Rightarrow>
               (case s of
                  StatusOk \<Rightarrow> flush_all f z buf cap
                | BufError \<Rightarrow> flush_all f z buf cap
                | StreamEnd \<Rightarrow> Some (Inr (), z, buf, cap)))
      else Some (Inr (), z, buf, cap))"

declare compress_all.simps [code] flush_all.simps [code]

text \<open>Replacing the payload: an owned vector is swapped with the buffer, otherwise the buffer is moved out.\<close>

definition replace_payload :: "'z Flate \<Rightarrow> Deflate \<Rightarrow> bytes \<Rightarrow> Storage \<Rightarrow> Deflate \<times> Storage" where
  "replace_payload f self buf data =
     (case data of
        Owned d \<Rightarrow> (self\<lparr>d_buffer := d, d_capacity := capacity_of f d\<rparr>, Owned buf)
      | _ \<Rightarrow> (self\<lparr>d_buffer := [], d_capacity := 0\<rparr>, Owned buf))"

text \<open>The end of \<^verbatim>\<open>encode\<close>: the empty block must be there, is cut off, and the frame becomes a compressed one.\<close>

definition store_compressed :: "'z Flate \<Rightarrow> Deflate \<Rightarrow> Header \<Rightarrow> Storage \<Rightarrow> 'z compressed \<Rightarrow>
    (BoxedError + unit) \<times> Deflate \<times> Header \<times> Storage" where
  "store_compressed f self header data c =
     (case c of (r, z, buf, cap) \<Rightarrow>
        case r of
          Inl e \<Rightarrow> (Inl e, self\<lparr>d_buffer := buf, d_capacity := cap\<rparr>, header, data)
        | Inr _ \<Rightarrow>
            if \<not> ends_with buf end_marker
            then (Inl ''missing 00 00 FF FF'', self\<lparr>d_buffer := buf, d_capacity := cap\<rparr>, header, data)
            else
              (case replace_payload f self (take (length buf - 4) buf) data of (self, data) \<Rightarrow>
                 (Inr (), self, set_payload_len (set_rsv1 header True) (of_nat (length (as_ref data))), data)))"

definition deflate_encode :: "'z Flate \<Rightarrow> Deflate \<Rightarrow> Header \<Rightarrow> Storage \<Rightarrow>
    ((BoxedError + unit) \<times> Deflate \<times> Header \<times> Storage) option" where
  "deflate_encode f self header data =
     (if as_ref data = [] then Some (Inr (), self, header, data)
      else if opcode header \<noteq> OpCode.Binary \<and> opcode header \<noteq> OpCode.Text then Some (Inr (), self, header, data)
      else
        let cap = reserve f 0 (d_capacity self) (length (as_ref data)) in
        Option.bind (new_with_window_bits f (d_our_max_window_bits self)) (\<lambda>z.
        Option.bind (compress_all f (as_ref data) z [] cap) (\<lambda>(r, z, buf, cap).
        case r of
          Inl e \<Rightarrow> Some (Inl e, self\<lparr>d_buffer := buf, d_capacity := cap\<rparr>, header, data)
        | Inr _ \<Rightarrow> map_option (store_compressed f self header data) (flush_all f z buf cap))))"

definition deflate_extension :: "'z Flate \<Rightarrow> Deflate Extension" where
  "deflate_extension f =
     \<lparr>ext_is_enabled = d_enabled, ext_name = deflate_name, ext_params = d_params, ext_configure = deflate_configure,
      ext_encode = deflate_encode f, ext_decode = deflate_decode f, ext_reserved_bits = deflate_reserved_bits\<rparr>"

end
