(* ===== verification/Deflate_Props.thy ===== *)
theory Deflate_Props
  imports Deflate_Ext "HOL-Library.Sublist"
begin

text \<open>
  The permessage-deflate extension: its window sizes stay ones the compressor accepts, both sides of a negotiation
  agree on them, and encoding a frame returns, with a payload that decompresses to the message or is cut at a marker inside
  the compressed message, for a compressor that keeps the contract \<open>flate_ok\<close>. A compressor that does is given
  (\<open>store_flate\<close>).
\<close>

section \<open>The window sizes\<close>

text \<open>Both window sizes are ones the compressor accepts.\<close>

definition deflate_ok :: "Deflate \<Rightarrow> bool" where
  "deflate_ok d \<longleftrightarrow> d_our_max_window_bits d \<in> {9..15} \<and> d_their_max_window_bits d \<in> {9..15}"

lemma deflate_okD:
  assumes "deflate_ok d"
  shows "9 \<le> d_our_max_window_bits d" "d_our_max_window_bits d \<le> 15"
    "9 \<le> d_their_max_window_bits d" "d_their_max_window_bits d \<le> 15"
  using assms by (simp_all add: deflate_ok_def)

lemma deflate_new_ok [simp]: "deflate_ok (deflate_new mode)"
  by (simp add: deflate_ok_def deflate_new_def)

lemma window_clamp: "v \<le> 15 \<Longrightarrow> max 9 v \<in> {9..15 :: u8}"
  by (auto simp: max_def)

lemma set_their_ok:
  "deflate_ok d \<Longrightarrow> set_their_max_window_bits d p x = (r, d') \<Longrightarrow> deflate_ok d' \<and> d_mode d' = d_mode d \<and> d_enabled d' = d_enabled d"
  using window_clamp by (auto simp: set_their_max_window_bits_def deflate_ok_def not_less split: option.splits if_splits)

lemma deflate_ok_params [simp]: "deflate_ok (d\<lparr>d_params := q\<rparr>) = deflate_ok d"
  by (simp add: deflate_ok_def)

lemma deflate_ok_our: "deflate_ok d \<Longrightarrow> 9 \<le> v \<Longrightarrow> v \<le> 15 \<Longrightarrow> deflate_ok (d\<lparr>d_our_max_window_bits := v\<rparr>)"
  by (simp add: deflate_ok_def)

lemma configure_server_ok:
  "deflate_ok d \<Longrightarrow> configure_server d ps = (r, d') \<Longrightarrow> deflate_ok d' \<and> d_mode d' = d_mode d \<and> d_enabled d' = d_enabled d"
proof (induction ps arbitrary: d)
  case (Cons p ps)
  obtain r1 d1 where s: "set_their_max_window_bits d p None = (r1, d1)" by force
  note IH = Cons.IH [of d1] Cons.IH [of "d\<lparr>d_params := q\<rparr>" for q] Cons.IH [of "d\<lparr>d_params := q, d_our_max_window_bits := v\<rparr>" for q v]
  have v: "deflate_ok (d\<lparr>d_params := q, d_our_max_window_bits := v\<rparr>)" if "\<not> (v < 9 \<or> v > 15)" for q v
    using deflate_ok_our [of "d\<lparr>d_params := q\<rparr>" v] Cons.prems(1) that by (simp add: not_less)
  show ?case using Cons.prems s set_their_ok [OF Cons.prems(1) s] IH v
    by (simp split: if_splits sum.splits option.splits) blast
qed simp

lemma configure_client_ok:
  "deflate_ok d \<Longrightarrow> configure_client d b ps = (r, d') \<Longrightarrow> deflate_ok d' \<and> d_mode d' = d_mode d \<and> d_enabled d' = d_enabled d"
proof (induction ps arbitrary: d b)
  case (Cons p ps)
  obtain r1 d1 where s: "set_their_max_window_bits d p (Some (d_their_max_window_bits d)) = (r1, d1)" by force
  have v: "deflate_ok (d\<lparr>d_our_max_window_bits := min (d_our_max_window_bits d) (max 9 v)\<rparr>)" if "\<not> (v < 8 \<or> v > 15)" for v
    using deflate_okD [OF Cons.prems(1)] window_clamp [of v] that Cons.prems(1)
    by (intro deflate_ok_our) (auto simp: min_def)
  show ?case
    using Cons.prems s set_their_ok [OF Cons.prems(1) s] Cons.IH [of d1] Cons.IH [of d] v
      Cons.IH [of "d\<lparr>d_our_max_window_bits := min (d_our_max_window_bits d) (max 9 v)\<rparr>" for v]
    by (simp split: if_splits sum.splits option.splits) blast
qed simp

lemma configure_ok:
  assumes "deflate_ok d" "deflate_configure d ps = (r, d')"
  shows "deflate_ok d' \<and> d_mode d' = d_mode d \<and> r = Inr ()"
proof -
  obtain b d1 where c: "(case d_mode d of Server \<Rightarrow> configure_server (d\<lparr>d_params := []\<rparr>) ps | Client \<Rightarrow> configure_client d False ps) = (b, d1)"
    by force
  then have "deflate_ok d1 \<and> d_mode d1 = d_mode d"
    using configure_server_ok [of "d\<lparr>d_params := []\<rparr>" ps b d1] configure_client_ok [OF assms(1), of False ps b d1] assms(1)
    by (simp split: Mode.splits)
  moreover have "d' = (if b then d1\<lparr>d_enabled := True\<rparr> else d1)" "r = Inr ()"
    using assms(2) c by (auto simp: deflate_configure_def split: bool.splits)
  ultimately show ?thesis by (simp add: deflate_ok_def)
qed

lemma above_8: "8 < (n :: u8) \<longleftrightarrow> 9 \<le> n"
  by (simp add: word_less_nat_alt word_le_nat_alt) linarith

text \<open>The operations that change a deflate extension, as a sequence a program may run.\<close>

datatype deflate_op =
    MaxServer u8 | MaxClient u8 | Configure "Param list" | Decode Header bytes | Encode Header Storage

fun deflate_run :: "'z Flate \<Rightarrow> Deflate \<Rightarrow> deflate_op \<Rightarrow> Deflate option" where
  "deflate_run f d (MaxServer n) = set_max_server_window_bits d n"
| "deflate_run f d (MaxClient n) = set_max_client_window_bits d n"
| "deflate_run f d (Configure ps) = Some (snd (deflate_configure d ps))"
| "deflate_run f d (Decode h data) = Some (fst (snd (deflate_decode f d h data)))"
| "deflate_run f d (Encode h data) = map_option (\<lambda>(r, d, h, data). d) (deflate_encode f d h data)"

lemma decode_keeps: "d_our_max_window_bits (fst (snd (deflate_decode f d h data))) = d_our_max_window_bits d \<and>
    d_their_max_window_bits (fst (snd (deflate_decode f d h data))) = d_their_max_window_bits d"
  by (simp add: deflate_decode_def decompress_def Let_def split: prod.splits sum.splits)

lemma store_compressed_keeps: "store_compressed f d h data c = (r, d', h', data') \<Longrightarrow>
    d_our_max_window_bits d' = d_our_max_window_bits d \<and> d_their_max_window_bits d' = d_their_max_window_bits d"
  by (auto simp: store_compressed_def replace_payload_def split: if_splits prod.splits sum.splits Storage.splits)

text \<open>The ways \<open>deflate_encode\<close> returns.\<close>

lemma deflate_encode_cases:
  assumes "deflate_encode f d h data = Some y"
  obtains (unchanged) "y = (Inr (), d, h, data)"
    | (failed) e buf cap where "y = (Inl e, d\<lparr>d_buffer := buf, d_capacity := cap\<rparr>, h, data)"
    | (stored) z buf cap c where "flush_all f z buf cap = Some c" "y = store_compressed f d h data c"
proof (cases "as_ref data = [] \<or> opcode h \<noteq> OpCode.Binary \<and> opcode h \<noteq> OpCode.Text")
  case True
  then show ?thesis using assms unchanged by (auto simp: deflate_encode_def split: if_splits)
next
  case False
  let ?cap = "reserve f 0 (d_capacity d) (length (as_ref data))"
  obtain z r z' buf cap where c: "new_with_window_bits f (d_our_max_window_bits d) = Some z"
    "compress_all f (as_ref data) z [] ?cap = Some (r, z', buf, cap)"
    using assms False by (auto simp: deflate_encode_def Let_def bind_eq_Some_conv)
  then show ?thesis using assms False failed stored
    by (cases r) (auto simp: deflate_encode_def Let_def)
qed

lemma encode_keeps: "deflate_encode f d h data = Some (r, d', h', data') \<Longrightarrow>
    d_our_max_window_bits d' = d_our_max_window_bits d \<and> d_their_max_window_bits d' = d_their_max_window_bits d"
  by (erule deflate_encode_cases) (auto dest: store_compressed_keeps [OF sym])

lemma deflate_run_ok:
  assumes "deflate_ok d" "deflate_run f d op = Some d'"
  shows "deflate_ok d'"
proof (cases op)
  case (Configure ps)
  obtain r d1 where "deflate_configure d ps = (r, d1)" by force
  then show ?thesis using assms configure_ok [OF assms(1)] Configure by simp
next
  case (Decode h data)
  then show ?thesis using assms decode_keeps [of f d h data] by (auto simp: deflate_ok_def)
next
  case (Encode h data)
  then show ?thesis using assms encode_keeps [of f d h data] by (auto simp: deflate_ok_def)
next
  case (MaxServer n)
  then show ?thesis using assms
    by (auto simp: set_max_server_window_bits_def deflate_ok_def above_8 split: if_splits)
next
  case (MaxClient n)
  then show ?thesis using assms
    by (auto simp: set_max_client_window_bits_def deflate_ok_def above_8 split: if_splits)
qed

text \<open>
  C20. Invariant: whatever sequence of setter calls, negotiations, encodings and decodings an extension goes through,
  its window sizes stay within 9 to 15, so that the compressor, which panics otherwise, can always be made.
\<close>

theorem deflate_window_bits:
  assumes "foldl (\<lambda>d op. Option.bind d (\<lambda>d. deflate_run f d op)) (Some (deflate_new mode)) ops = Some d"
  shows "9 \<le> d_our_max_window_bits d \<and> d_our_max_window_bits d \<le> 15 \<and>
    9 \<le> d_their_max_window_bits d \<and> d_their_max_window_bits d \<le> 15"
proof -
  have none: "foldl (\<lambda>d op. Option.bind d (\<lambda>d. deflate_run f d op)) None ops = None" for ops by (induction ops) auto
  have "deflate_ok d0 \<Longrightarrow> foldl (\<lambda>d op. Option.bind d (\<lambda>d. deflate_run f d op)) (Some d0) ops = Some d \<Longrightarrow> deflate_ok d" for d0
  proof (induction ops arbitrary: d0)
    case (Cons op ops)
    then show ?case using deflate_run_ok [OF Cons.prems(1)] by (cases "deflate_run f d0 op") (auto simp: none)
  qed simp
  from this [OF deflate_new_ok assms] show ?thesis using deflate_okD by blast
qed

section \<open>The contract of extensions\<close>

lemma store_compressed_frame: "store_compressed f d h data c = (r, d', h', data') \<Longrightarrow> keeps_frame (True, False, False) h h'"
  by (auto simp: store_compressed_def keeps_frame_def model_defs split: if_splits prod.splits sum.splits)

lemma deflate_encode_frame: "deflate_encode f d h data = Some (r, d', h', data') \<Longrightarrow> keeps_frame (True, False, False) h h'"
  by (erule deflate_encode_cases) (auto dest: store_compressed_frame [OF sym])

lemma deflate_decode_frame: "deflate_decode f d h data = (r, d', h', data') \<Longrightarrow> keeps_frame (True, False, False) h h'"
  by (auto simp: deflate_decode_def decompress_def Let_def keeps_frame_def model_defs split: if_splits prod.splits sum.splits)

interpretation deflated: extension_laws "deflate_extension f" deflate_ok for f
proof
  fix e ps r e'
  assume "deflate_ok e" "ext_configure (deflate_extension f) e ps = (r, e')"
  then show "deflate_ok e' \<and> ext_reserved_bits (deflate_extension f) e' = ext_reserved_bits (deflate_extension f) e"
    using configure_ok by (simp add: deflate_extension_def deflate_reserved_bits_def)
next
  fix e h d r e' h' d'
  assume "deflate_ok e" "ext_encode (deflate_extension f) e h d = Some (r, e', h', d')"
  then show "deflate_ok e' \<and> ext_reserved_bits (deflate_extension f) e' = ext_reserved_bits (deflate_extension f) e \<and>
      keeps_frame (ext_reserved_bits (deflate_extension f) e) h h'"
    using encode_keeps [of f e h d r e' h' d'] deflate_encode_frame [of f e h d r e' h' d']
    by (simp add: deflate_extension_def deflate_reserved_bits_def deflate_ok_def)
next
  fix e h m r e' h' m'
  assume "deflate_ok e" "ext_decode (deflate_extension f) e h m = (r, e', h', m')"
  then show "deflate_ok e' \<and> ext_reserved_bits (deflate_extension f) e' = ext_reserved_bits (deflate_extension f) e \<and>
      keeps_frame (ext_reserved_bits (deflate_extension f) e) h h'"
    using decode_keeps [of f e h m] deflate_decode_frame [of f e h m r e' h' m']
    by (simp add: deflate_extension_def deflate_reserved_bits_def deflate_ok_def)
qed

interpretation boxed_deflate: extension_laws "box_extension (deflate_extension f)" "\<lambda>e. deflate_ok (unbox e)" for f
  by (rule deflated.boxed)

section \<open>Negotiation\<close>

lemma names_distinct [simp]:
  "SERVER_NO_CONTEXT_TAKEOVER \<noteq> SERVER_MAX_WINDOW_BITS" "SERVER_NO_CONTEXT_TAKEOVER \<noteq> CLIENT_NO_CONTEXT_TAKEOVER"
  "SERVER_NO_CONTEXT_TAKEOVER \<noteq> CLIENT_MAX_WINDOW_BITS" "SERVER_MAX_WINDOW_BITS \<noteq> CLIENT_NO_CONTEXT_TAKEOVER"
  "SERVER_MAX_WINDOW_BITS \<noteq> CLIENT_MAX_WINDOW_BITS" "CLIENT_NO_CONTEXT_TAKEOVER \<noteq> CLIENT_MAX_WINDOW_BITS"
  by (simp_all add: SERVER_NO_CONTEXT_TAKEOVER_def SERVER_MAX_WINDOW_BITS_def CLIENT_NO_CONTEXT_TAKEOVER_def
      CLIENT_MAX_WINDOW_BITS_def lit_def)

lemmas names_distinct' [simp] = names_distinct [symmetric]

text \<open>A client that may have limited the server's window, its own, or both.\<close>

definition offering :: "u8 option \<Rightarrow> u8 option \<Rightarrow> Deflate option" where
  "offering server_bits client_bits =
     Option.bind (case server_bits of Some n \<Rightarrow> set_max_server_window_bits (deflate_new Client) n | None \<Rightarrow> Some (deflate_new Client))
       (\<lambda>d. case client_bits of Some n \<Rightarrow> set_max_client_window_bits d n | None \<Rightarrow> Some d)"

definition window_bits_or :: "u8 option \<Rightarrow> bool" where
  "window_bits_or b \<longleftrightarrow> (case b of Some n \<Rightarrow> 9 \<le> n \<and> n \<le> 15 | None \<Rightarrow> True)"

lemma negotiation_agrees:
  assumes "window_bits_or server_bits" "window_bits_or client_bits"
  shows "\<exists>client server client'. offering server_bits client_bits = Some client \<and>
    deflate_configure (deflate_new Server) (d_params client) = (Inr (), server) \<and>
    deflate_configure client (d_params server) = (Inr (), client') \<and> d_enabled server \<and> d_enabled client' \<and>
    d_our_max_window_bits server = (case server_bits of Some n \<Rightarrow> n | None \<Rightarrow> 15) \<and>
    d_their_max_window_bits client' = d_our_max_window_bits server \<and>
    d_our_max_window_bits client' = (case client_bits of Some n \<Rightarrow> n | None \<Rightarrow> 15) \<and>
    d_their_max_window_bits server = d_our_max_window_bits client'"
proof -
  have r: "8 < n \<and> n \<le> 15" "\<not> n < 8" "\<not> n < 9" "\<not> 15 < n" "max 9 n = n" "parse_u8 (u8_to_string n) = Some n"
    if "9 \<le> n" "n \<le> 15" for n :: u8
    using that parse_u8_to_string [of n] by (auto simp: above_8 max_def not_less word_le_nat_alt word_less_nat_alt)
  note defs = offering_def deflate_new_def set_max_server_window_bits_def set_max_client_window_bits_def deflate_configure_def
    set_their_max_window_bits_def param_new_def model_defs
  show ?thesis
  proof (cases server_bits; cases client_bits)
    assume "server_bits = None" "client_bits = None"
    then show ?thesis by (simp add: defs)
  next
    fix m assume m: "server_bits = None" "client_bits = Some m"
    then have "9 \<le> m" "m \<le> 15" using assms(2) by (simp_all add: window_bits_or_def)
    from m r [OF this] show ?thesis by (simp add: defs)
  next
    fix n assume n: "server_bits = Some n" "client_bits = None"
    then have "9 \<le> n" "n \<le> 15" using assms(1) by (simp_all add: window_bits_or_def)
    from n r [OF this] show ?thesis by (simp add: defs)
  next
    fix n m assume nm: "server_bits = Some n" "client_bits = Some m"
    then have "9 \<le> n" "n \<le> 15" "9 \<le> m" "m \<le> 15" using assms by (simp_all add: window_bits_or_def)
    from nm r [OF this(1,2)] r [OF this(3,4)] show ?thesis by (simp add: defs)
  qed
qed

text \<open>
  Negotiation: a server that gets a client's offer accepts it, the client accepts the server's answer, and afterwards
  they agree: each side compresses with the window size the other side expects, which is the size the client asked
  for, or 15.
\<close>

theorem deflate_negotiation:
  assumes "window_bits_or server_bits" "window_bits_or client_bits"
  shows "\<exists>client server client'. offering server_bits client_bits = Some client \<and>
    deflate_configure (deflate_new Server) (d_params client) = (Inr (), server) \<and>
    deflate_configure client (d_params server) = (Inr (), client') \<and> d_enabled server \<and> d_enabled client' \<and>
    d_our_max_window_bits server = (case server_bits of Some n \<Rightarrow> n | None \<Rightarrow> 15) \<and>
    d_their_max_window_bits client' = d_our_max_window_bits server \<and>
    d_our_max_window_bits client' = (case client_bits of Some n \<Rightarrow> n | None \<Rightarrow> 15) \<and>
    d_their_max_window_bits server = d_our_max_window_bits client'"
  by (rule negotiation_agrees [OF assms])

theorem deflate_negotiation_witness:
  "\<exists>client server client'. offering (Some 10) None = Some client \<and>
    deflate_configure (deflate_new Server) (d_params client) = (Inr (), server) \<and>
    deflate_configure client (d_params server) = (Inr (), client') \<and> d_enabled server \<and> d_enabled client' \<and>
    d_our_max_window_bits server = 10 \<and> d_their_max_window_bits client' = d_our_max_window_bits server \<and>
    d_our_max_window_bits client' = 15 \<and> d_their_max_window_bits server = d_our_max_window_bits client'"
  using deflate_negotiation [of "Some 10" None] by (simp add: window_bits_or_def)

section \<open>What the compression library promises\<close>

text \<open>
  How a compressor's state is read: \<open>consumed z\<close> is the input it has taken, \<open>produced z\<close> the output it has given,
  \<open>fresh z\<close> that it has not been flushed yet and \<open>flushing z\<close> that it has taken no input since it was first flushed;
  \<open>out_bound n\<close> bounds the output for an input of length \<open>n\<close>.
\<close>

record 'z view =
  consumed :: "'z \<Rightarrow> bytes"
  produced :: "'z \<Rightarrow> bytes"
  fresh :: "'z \<Rightarrow> bool"
  flushing :: "'z \<Rightarrow> bool"
  out_bound :: "nat \<Rightarrow> nat"

text \<open>A flush is complete when the output ends with an empty block and inflates to all of the input.\<close>

definition complete :: "'z Flate \<Rightarrow> 'z view \<Rightarrow> 'z \<Rightarrow> bool" where
  "complete f v z \<longleftrightarrow>
     ends_with (produced v z) end_marker \<and> 4 < length (produced v z) \<and> inflate f (produced v z) = (Inr (), consumed v z)"

text \<open>
  A call takes a prefix of its input and writes at most the room it has. \<open>StatusOk\<close> is progress and \<open>BufError\<close> that
  none was possible; without \<^verbatim>\<open>Finish\<close> the stream does not end. A sync flush that leaves room is complete.
\<close>

definition compress_step_ok :: "'z Flate \<Rightarrow> 'z view \<Rightarrow> 'z \<Rightarrow> bytes \<Rightarrow> nat \<Rightarrow> FlushCompress \<Rightarrow>
    (BoxedError + Status) \<times> 'z \<times> bytes \<Rightarrow> bool" where
  "compress_step_ok f v z input spare fl y \<longleftrightarrow>
     (case y of (r, z', out) \<Rightarrow>
        (r = Inr StatusOk \<or> r = Inr BufError) \<and> length out \<le> spare \<and> produced v z' = produced v z @ out \<and>
        (\<exists>k \<le> length input. consumed v z' = consumed v z @ take k input \<and> (r = Inr StatusOk \<longrightarrow> 0 < k \<or> out \<noteq> [])) \<and>
        length (produced v z') \<le> out_bound v (length (consumed v z')) \<and>
        (r = Inr BufError \<longrightarrow> spare = 0 \<or> input = [] \<and> (fl = NoFlush \<or> complete f v z)) \<and>
        (fl = SyncFlush \<and> r = Inr StatusOk \<and> length out < spare \<longrightarrow> complete f v z'))"

definition flate_ok :: "'z Flate \<Rightarrow> 'z view \<Rightarrow> bool" where
  "flate_ok f v \<longleftrightarrow>
     (\<forall>b. 9 \<le> b \<and> b \<le> 15 \<longrightarrow> (\<exists>z. new_with_window_bits f b = Some z \<and> fresh v z \<and> consumed v z = [] \<and> produced v z = [])) \<and>
     (\<forall>z. fresh v z \<longrightarrow> total_in f z = of_nat (length (consumed v z))) \<and>
     (\<forall>z input spare. fresh v z \<longrightarrow> compress_step_ok f v z input spare NoFlush (compress_vec f z input spare NoFlush) \<and>
        fresh v (fst (snd (compress_vec f z input spare NoFlush)))) \<and>
     (\<forall>z spare. fresh v z \<or> flushing v z \<longrightarrow> compress_step_ok f v z [] spare SyncFlush (compress_vec f z [] spare SyncFlush) \<and>
        flushing v (fst (snd (compress_vec f z [] spare SyncFlush)))) \<and>
     (\<forall>cap n. n \<le> grow f cap n) \<and> mono (out_bound v)"

lemma flate_okD:
  assumes "flate_ok f v"
  shows "9 \<le> b \<Longrightarrow> b \<le> 15 \<Longrightarrow> \<exists>z. new_with_window_bits f b = Some z \<and> fresh v z \<and> consumed v z = [] \<and> produced v z = []"
    "fresh v z \<Longrightarrow> total_in f z = of_nat (length (consumed v z))" "n \<le> grow f cap n" "a \<le> c \<Longrightarrow> out_bound v a \<le> out_bound v c"
  using assms unfolding flate_ok_def mono_def by blast+

lemma flate_ok_compress:
  assumes "flate_ok f v" "fresh v z" "compress_vec f z input spare NoFlush = (r, z', out)"
  shows "compress_step_ok f v z input spare NoFlush (r, z', out)" "fresh v z'"
  using assms unfolding flate_ok_def by (metis fst_conv snd_conv)+

lemma flate_ok_flush:
  assumes "flate_ok f v" "fresh v z \<or> flushing v z" "compress_vec f z [] spare SyncFlush = (r, z', out)"
  shows "compress_step_ok f v z [] spare SyncFlush (r, z', out)" "flushing v z'"
  using assms unfolding flate_ok_def by (metis fst_conv snd_conv)+

lemma reserve_room: "flate_ok f v \<Longrightarrow> additional \<le> reserve f n cap additional - n"
  using flate_okD(3) [of f v "n + additional" cap] by (auto simp: reserve_def)

section \<open>The loops of encoding\<close>

lemma bit_less: "m + 2 \<le> (n :: nat) \<Longrightarrow> m + (if P then 1 else 0) < n + (if Q then 1 else 0)"
  by simp

lemma progress_by: "a' + k = a \<Longrightarrow> b' + l = b \<Longrightarrow> 0 < k + l \<Longrightarrow> 2 * (a' + b') + 2 \<le> 2 * (a + (b :: nat))"
  by presburger

lemma compress_all_ok:
  assumes f: "flate_ok f v" and short: "length data < 2 ^ 64"
  shows "fresh v z \<Longrightarrow> consumed v z = take (length (consumed v z)) data \<Longrightarrow> length (consumed v z) \<le> length data \<Longrightarrow> buf = produced v z \<Longrightarrow>
    length (produced v z) \<le> out_bound v (length data) \<Longrightarrow>
    \<exists>z' cap'. compress_all f data z buf cap = Some (Inr (), z', produced v z', cap') \<and> fresh v z' \<and> consumed v z' = data \<and>
      length (produced v z') \<le> out_bound v (length data)"
proof (induction "2 * (length data - length (consumed v z) + (out_bound v (length data) - length buf)) + (if cap - length buf = 0 then 1 else 0)"
    arbitrary: z buf cap rule: less_induct)
  case less
  let ?n = "length (consumed v z)"
  have tot: "total_in f z = of_nat ?n" by (rule flate_okD(2) [OF f less.prems(1)])
  have ut: "unat (total_in f z) = ?n" "unat (of_nat (length data) :: u64) = length data"
    using short less.prems(3) by (simp_all add: tot unat_of_nat take_bit_nat_eq_self)
  show ?case
  proof (cases "?n = length data")
    case True
    then have "\<not> total_in f z < as_u64 (of_nat (length data))" by (simp add: tot)
    then show ?thesis using less.prems True by (simp add: compress_all.simps [of f data z])
  next
    case False
    then have lt: "?n < length data" "total_in f z < as_u64 (of_nat (length data))"
      using less.prems(3) ut by (simp_all add: word_less_nat_alt)
    obtain r z' out where c: "compress_vec f z (drop ?n data) (cap - length buf) NoFlush = (r, z', out)" by (metis prod.collapse)
    have st: "compress_step_ok f v z (drop ?n data) (cap - length buf) NoFlush (r, z', out)" and fr: "fresh v z'"
      by (rule flate_ok_compress [OF f less.prems(1) c])+
    obtain k where k: "k \<le> length (drop ?n data)" "consumed v z' = consumed v z @ take k (drop ?n data)"
      "r = Inr StatusOk \<Longrightarrow> 0 < k \<or> out \<noteq> []"
      using st by (auto simp: compress_step_ok_def)
    have p: "produced v z' = buf @ out" "length (produced v z') \<le> out_bound v (length (consumed v z'))" and
      r: "r = Inr StatusOk \<or> r = Inr BufError" and be: "r = Inr BufError \<Longrightarrow> cap - length buf = 0" and sp: "length out \<le> cap - length buf"
      using st less.prems(4) lt(1) by (auto simp: compress_step_ok_def)
    have len': "length (consumed v z') = ?n + k" using k by simp
    have take': "consumed v z' = take (length (consumed v z')) data"
      unfolding len' take_add using less.prems(2) k(2) by simp
    have le': "length (consumed v z') \<le> length data" using len' k(1) less.prems(3) by simp
    have bnd: "length (produced v z') \<le> out_bound v (length data)" using p(2) flate_okD(4) [OF f le'] by simp
    have step: "compress_all f data z buf cap = compress_all f data z' (buf @ out)
        (if r = Inr StatusOk then cap else reserve f (length (buf @ out)) cap 4096)"
      using r lt(2) c by (auto simp: compress_all.simps [of f data z] ut(1) Let_def)
    show ?thesis unfolding step
    proof (rule less.hyps)
      show "2 * (length data - length (consumed v z') + (out_bound v (length data) - length (buf @ out))) +
          (if (if r = Inr StatusOk then cap else reserve f (length (buf @ out)) cap 4096) - length (buf @ out) = 0 then 1 else 0)
        < 2 * (length data - length (consumed v z) + (out_bound v (length data) - length buf)) + (if cap - length buf = 0 then 1 else 0)"
      proof (cases "r = Inr StatusOk")
        case True
        have "length data - length (consumed v z') + k = length data - ?n" using len' k(1) lt(1) by simp
        moreover have "out_bound v (length data) - length (buf @ out) + length out = out_bound v (length data) - length buf"
          using bnd p(1) by simp
        moreover have "0 < k + length out" using k(3) True by auto
        ultimately have "2 * (length data - length (consumed v z') + (out_bound v (length data) - length (buf @ out))) + 2 \<le>
            2 * (length data - ?n + (out_bound v (length data) - length buf))" by (rule progress_by)
        then show ?thesis by (rule bit_less)
      next
        case False
        then have "cap - length buf = 0" "out = []" using r be sp by auto
        then show ?thesis using False reserve_room [OF f, of 4096 "length buf" cap] len' by auto
      qed
    qed (use fr take' le' p(1) bnd in auto)
  qed
qed

lemma flush_all_ok:
  assumes f: "flate_ok f v"
  shows "fresh v z \<or> flushing v z \<Longrightarrow> buf = produced v z \<Longrightarrow> length (produced v z) \<le> out_bound v (length (consumed v z)) \<Longrightarrow>
    \<exists>z' cap'. flush_all f z buf cap = Some (Inr (), z', produced v z', cap') \<and> (fresh v z' \<or> flushing v z') \<and> consumed v z' = consumed v z \<and>
      ends_with (produced v z') end_marker \<and> length (produced v z') \<le> out_bound v (length (consumed v z))"
proof (induction "out_bound v (length (consumed v z)) - length buf" arbitrary: z buf cap rule: less_induct)
  case less
  show ?case
  proof (cases "ends_with buf end_marker")
    case True
    then show ?thesis using less.prems by (simp add: flush_all.simps [of f z])
  next
    case False
    let ?cap = "reserve f (length buf) cap 5"
    obtain r z' out where c: "compress_vec f z [] (?cap - length buf) SyncFlush = (r, z', out)" by (metis prod.collapse)
    have room: "0 < ?cap - length buf" using reserve_room [OF f, of 5 "length buf" cap] by simp
    have st: "compress_step_ok f v z [] (?cap - length buf) SyncFlush (r, z', out)" and fl: "flushing v z'"
      by (rule flate_ok_flush [OF f less.prems(1) c])+
    have p: "r = Inr StatusOk" "out \<noteq> []" "consumed v z' = consumed v z" "produced v z' = buf @ out"
      "length (produced v z') \<le> out_bound v (length (consumed v z'))"
      using st room False less.prems(2) by (auto simp: compress_step_ok_def complete_def)
    have step: "flush_all f z buf cap = flush_all f z' (buf @ out) ?cap"
      using False c p(1) by (simp add: flush_all.simps [of f z] Let_def)
    have "out_bound v (length (consumed v z')) - length (buf @ out) < out_bound v (length (consumed v z)) - length buf"
      using p(2-5) by (cases out) auto
    from less.hyps [OF this _ p(4) [symmetric] p(5), of ?cap] fl show ?thesis unfolding step p(3) by blast
  qed
qed

section \<open>Encoding and decoding\<close>

lemma end_marker_length [simp]: "length end_marker = 4"
  by (simp add: end_marker_def)

lemma ends_with_split: "ends_with bs end_marker \<Longrightarrow> take (length bs - 4) bs @ end_marker = bs"
  using append_take_drop_id [of "length bs - length end_marker" bs] unfolding ends_with_def
  by (metis end_marker_length)

lemma deflate_encode_ok:
  assumes f: "flate_ok f v" and d: "deflate_ok d" and h: "opcode h \<in> {OpCode.Binary, OpCode.Text}"
    and data: "as_ref data \<noteq> []" "length (as_ref data) < 2 ^ 64"
  shows "\<exists>z d' payload. (fresh v z \<or> flushing v z) \<and> consumed v z = as_ref data \<and> produced v z = payload @ end_marker \<and>
    length payload \<le> out_bound v (length (as_ref data)) \<and>
    deflate_encode f d h data = Some (Inr (), d', set_payload_len (set_rsv1 h True) (of_nat (length payload)), Owned payload)"
proof -
  let ?cap = "reserve f 0 (d_capacity d) (length (as_ref data))"
  obtain z0 where z0: "new_with_window_bits f (d_our_max_window_bits d) = Some z0" "fresh v z0" "consumed v z0 = []" "produced v z0 = []"
    using flate_okD(1) [OF f] deflate_okD [OF d] by blast
  obtain z1 cap1 where z1: "compress_all f (as_ref data) z0 [] ?cap = Some (Inr (), z1, produced v z1, cap1)" "fresh v z1"
    "consumed v z1 = as_ref data" "length (produced v z1) \<le> out_bound v (length (as_ref data))"
    using compress_all_ok [OF f data(2), of z0 "[]" ?cap] z0 by auto
  obtain z2 cap2 where z2: "flush_all f z1 (produced v z1) cap1 = Some (Inr (), z2, produced v z2, cap2)"
    "fresh v z2 \<or> flushing v z2" "consumed v z2 = as_ref data" "ends_with (produced v z2) end_marker"
    "length (produced v z2) \<le> out_bound v (length (as_ref data))"
    using flush_all_ok [OF f, of z1 "produced v z1" cap1] z1 by auto
  let ?p = "take (length (produced v z2) - 4) (produced v z2)"
  obtain d' where "replace_payload f d ?p data = (d', Owned ?p)" by (cases data) (auto simp: replace_payload_def)
  then have "deflate_encode f d h data = Some (Inr (), d', set_payload_len (set_rsv1 h True) (of_nat (length ?p)), Owned ?p)"
    using data(1) h z0(1) z1(1) z2(1,4) by (auto simp: deflate_encode_def store_compressed_def Let_def)
  moreover have "length ?p \<le> out_bound v (length (as_ref data))" using z2(5) by simp
  ultimately show ?thesis using z2(2,3) ends_with_split [OF z2(4)] by metis
qed

lemma deflate_decode_ok:
  assumes "payload \<noteq> []" "opcode h \<in> {OpCode.Binary, OpCode.Text}" "is_rsv1 h" "is_fin h" "inflate f (payload @ end_marker) = (Inr (), out)"
  shows "\<exists>d'. deflate_decode f d h payload = (Inr (), d', set_payload_len (set_rsv1 h False) (of_nat (length out)), out)"
  using assms by (auto simp: deflate_decode_def decompress_def Let_def)

text \<open>
  What the compressor makes of a message when its flush is complete. The format does not promise that the bytes of the
  empty block occur only at the end of this: they may also occur inside compressed data.
\<close>

definition whole_output :: "'z Flate \<Rightarrow> 'z view \<Rightarrow> bytes \<Rightarrow> bytes \<Rightarrow> bool" where
  "whole_output f v data full \<longleftrightarrow>
     (\<exists>z. (fresh v z \<or> flushing v z) \<and> consumed v z = data \<and> produced v z = full \<and> complete f v z)"

text \<open>
  What encoding makes of a message: a payload that decompresses to the message once the marker is put back, or else the
  beginning of such output, cut at an occurrence of the marker before its end.
\<close>

definition inflates :: "'z Flate \<Rightarrow> bytes \<Rightarrow> bytes \<Rightarrow> bool" where
  "inflates f payload data \<longleftrightarrow> payload \<noteq> [] \<and> inflate f (payload @ end_marker) = (Inr (), data)"

definition cut_short :: "'z Flate \<Rightarrow> 'z view \<Rightarrow> bytes \<Rightarrow> bytes \<Rightarrow> bool" where
  "cut_short f v data payload \<longleftrightarrow> (\<exists>full. whole_output f v data full \<and> strict_prefix (payload @ end_marker) full)"

text \<open>From every state of a flush, one call with enough room completes it.\<close>

lemma flush_completes:
  assumes f: "flate_ok f v" and z: "fresh v z \<or> flushing v z"
  shows "\<exists>full. whole_output f v (consumed v z) full \<and> prefix (produced v z) full \<and> (full = produced v z \<longrightarrow> complete f v z)"
proof (cases "complete f v z")
  case True
  then show ?thesis using z by (auto simp: whole_output_def)
next
  case False
  let ?spare = "Suc (out_bound v (length (consumed v z)))"
  obtain r z' out where c: "compress_vec f z [] ?spare SyncFlush = (r, z', out)" by (metis prod.collapse)
  have st: "compress_step_ok f v z [] ?spare SyncFlush (r, z', out)" and fl: "flushing v z'" by (rule flate_ok_flush [OF f z c])+
  have p: "r = Inr StatusOk" "consumed v z' = consumed v z" "produced v z' = produced v z @ out" "length out < ?spare"
    using st False by (auto simp: compress_step_ok_def)
  then have full: "complete f v z'" using st by (simp add: compress_step_ok_def)
  then have "produced v z' \<noteq> produced v z" using False p(2) by (auto simp: complete_def)
  then show ?thesis using full fl p(2,3) by (intro exI [of _ "produced v z'"]) (auto simp: whole_output_def)
qed

lemma deflate_encode_message:
  assumes "flate_ok f v" "deflate_ok d" "opcode h \<in> {OpCode.Binary, OpCode.Text}" "as_ref data \<noteq> []" "length (as_ref data) < 2 ^ 64"
  obtains d' payload where "inflates f payload (as_ref data) \<or> cut_short f v (as_ref data) payload"
    "length payload \<le> out_bound v (length (as_ref data))"
    "deflate_encode f d h data = Some (Inr (), d', set_payload_len (set_rsv1 h True) (of_nat (length payload)), Owned payload)"
proof -
  obtain z d' payload where e: "fresh v z \<or> flushing v z" "consumed v z = as_ref data" "produced v z = payload @ end_marker"
    "length payload \<le> out_bound v (length (as_ref data))"
    "deflate_encode f d h data = Some (Inr (), d', set_payload_len (set_rsv1 h True) (of_nat (length payload)), Owned payload)"
    using deflate_encode_ok [OF assms] by blast
  from flush_completes [OF assms(1) e(1)] obtain full where
    "whole_output f v (as_ref data) full" "prefix (payload @ end_marker) full" "full = payload @ end_marker \<longrightarrow> complete f v z"
    unfolding e(2,3) by blast
  then have "inflates f payload (as_ref data) \<or> cut_short f v (as_ref data) payload"
    using e(2,3) by (auto simp: inflates_def cut_short_def complete_def end_marker_def strict_prefix_def)
  then show ?thesis using that e(4,5) by blast
qed

text \<open>Output in which the marker does not occur before the end is not cut.\<close>

lemma not_cut_short:
  assumes "\<And>full. whole_output f v data full \<Longrightarrow> \<not> sublist end_marker (butlast full)"
  shows "\<not> cut_short f v data payload"
proof
  assume "cut_short f v data payload"
  then obtain full where full: "whole_output f v data full" "strict_prefix (payload @ end_marker) full" by (auto simp: cut_short_def)
  then obtain b bs where "full = (payload @ end_marker) @ b # bs" by (blast elim: strict_prefixE')
  then have "butlast full = payload @ end_marker @ butlast (b # bs)" by (simp add: butlast_append)
  then show False using assms [OF full(1)] by (auto simp: sublist_def)
qed

section \<open>A compressor\<close>

text \<open>
  A compressor that keeps its input until it is flushed and then gives it out uncompressed between a
  byte 1 and the marker, and allocates exactly what is asked for.
\<close>

definition stored :: "bytes \<Rightarrow> bytes" where
  "stored data = 1 # data @ end_marker"

definition store_step :: "bytes \<times> bytes \<Rightarrow> bytes \<Rightarrow> nat \<Rightarrow> FlushCompress \<Rightarrow> (BoxedError + Status) \<times> (bytes \<times> bytes) \<times> bytes" where
  "store_step z input spare fl =
     (case z of (inp, out) \<Rightarrow>
        let more = (if fl = SyncFlush then take spare (drop (length out) (stored (inp @ input))) else []) in
        (Inr (if input = [] \<and> more = [] then BufError else StatusOk), (inp @ input, out @ more), more))"

definition store_flate :: "(bytes \<times> bytes) Flate" where
  "store_flate =
     \<lparr>new_with_window_bits = (\<lambda>b. if 9 \<le> b \<and> b \<le> 15 then Some ([], []) else None),
      total_in = (\<lambda>z. of_nat (length (fst z))), compress_vec = store_step,
      inflate = (\<lambda>bs. if 5 \<le> length bs \<and> hd bs = 1 then (Inr (), take (length bs - 5) (tl bs)) else (Inl ''corrupt'', [])),
      grow = (\<lambda>cap n. n), capacity_of = length\<rparr>"

definition store_view :: "(bytes \<times> bytes) view" where
  "store_view =
     \<lparr>consumed = fst, produced = snd, fresh = (\<lambda>z. snd z = []),
      flushing = (\<lambda>z. \<exists>n. snd z = take n (stored (fst z))), out_bound = (\<lambda>n. n + 5)\<rparr>"

lemma stored_length [simp]: "length (stored data) = length data + 5"
  by (simp add: stored_def end_marker_def)

lemma stored_complete: "complete store_flate store_view (data, stored data)"
  by (simp add: complete_def store_flate_def store_view_def ends_with_def stored_def end_marker_def)

lemma store_flush_ok:
  assumes "snd z = take n (stored (fst z))"
  shows "compress_step_ok store_flate store_view z [] spare SyncFlush (store_step z [] spare SyncFlush)"
    "\<exists>m. snd (fst (snd (store_step z [] spare SyncFlush))) = take m (stored (fst (fst (snd (store_step z [] spare SyncFlush)))))"
proof -
  let ?s = "stored (fst z)" and ?k = "min n (length (fst z) + 5)"
  let ?more = "take spare (drop ?k ?s)"
  have z: "snd z = take ?k ?s" "length (snd z) = ?k" using assms by (auto simp: min_def)
  have st: "store_step z [] spare SyncFlush = (Inr (if ?more = [] then BufError else StatusOk), (fst z, snd z @ ?more), ?more)"
    using z(2) by (simp add: store_step_def Let_def case_prod_beta del: take_eq_Nil)
  have sum: "snd z @ ?more = take (?k + spare) ?s" by (subst z(1)) (simp add: take_add)
  then show "\<exists>m. snd (fst (snd (store_step z [] spare SyncFlush))) = take m (stored (fst (fst (snd (store_step z [] spare SyncFlush)))))"
    unfolding st by auto
  have over: "complete store_flate store_view z" if "?more = []" "spare \<noteq> 0"
  proof -
    have "length ?s \<le> ?k" using that by simp
    then have "z = (fst z, ?s)" using z(1) by (simp add: prod_eq_iff)
    then show ?thesis using stored_complete by metis
  qed
  have full: "complete store_flate store_view (fst z, snd z @ ?more)" if "length ?more < spare"
  proof -
    have "length ?s \<le> ?k + spare" using that by simp
    then show ?thesis unfolding sum using stored_complete by simp
  qed
  show "compress_step_ok store_flate store_view z [] spare SyncFlush (store_step z [] spare SyncFlush)"
    using over full z unfolding st compress_step_ok_def
    by (auto simp: store_view_def simp del: take_eq_Nil drop_eq_Nil split: if_splits)
qed

lemma store_flate_simps [simp]:
  "new_with_window_bits store_flate b = (if 9 \<le> b \<and> b \<le> 15 then Some ([], []) else None)"
  "total_in store_flate z = of_nat (length (fst z))" "compress_vec store_flate = store_step" "grow store_flate cap n = n"
  by (simp_all add: store_flate_def)

lemma store_view_simps [simp]:
  "consumed store_view z = fst z" "produced store_view z = snd z" "fresh store_view z \<longleftrightarrow> snd z = []"
  "flushing store_view z \<longleftrightarrow> (\<exists>n. snd z = take n (stored (fst z)))" "out_bound store_view = (\<lambda>n. n + 5)"
  by (simp_all add: store_view_def)

lemma store_compress_ok:
  assumes "snd z = []"
  shows "compress_step_ok store_flate store_view z input spare NoFlush (store_step z input spare NoFlush)"
    "snd (fst (snd (store_step z input spare NoFlush))) = []"
  using assms by (auto simp: compress_step_ok_def store_step_def Let_def case_prod_beta intro!: exI [of _ "length input"])

lemma store_flate_ok: "flate_ok store_flate store_view"
proof -
  have "compress_step_ok store_flate store_view z [] spare SyncFlush (store_step z [] spare SyncFlush) \<and>
      flushing store_view (fst (snd (store_step z [] spare SyncFlush)))"
    if z: "fresh store_view z \<or> flushing store_view z" for z spare
  proof -
    obtain n where n: "snd z = take n (stored (fst z))" using z take_0 [of "stored (fst z)"] by (metis store_view_simps(3,4))
    from store_flush_ok [OF this, of spare] show ?thesis by simp
  qed
  moreover have "mono (out_bound store_view)" by (simp add: mono_def)
  ultimately show ?thesis unfolding flate_ok_def using store_compress_ok by simp
qed

lemma store_whole:
  assumes "whole_output store_flate store_view data full"
  shows "full = stored data"
proof -
  obtain n where n: "full = take n (stored data)" "4 < length full" "inflate store_flate full = (Inr (), data)"
    using assms by (auto simp: whole_output_def complete_def)
  then have "length full - 5 = length data" by (auto simp: store_flate_def split: if_splits dest!: arg_cong [of _ _ length])
  then show ?thesis using n(1,2) by simp
qed

lemma store_not_cut: "\<not> cut_short store_flate store_view [7] payload"
proof (rule not_cut_short)
  fix full
  assume "whole_output store_flate store_view [7] full"
  from store_whole [OF this] show "\<not> sublist end_marker (butlast full)"
    by (auto simp: stored_def end_marker_def sublist_code)
qed

section \<open>Messages that are cut\<close>



theorem deflate_window_bits_witness:
  "9 \<le> d_our_max_window_bits (snd (deflate_configure (deflate_new Server) [param_new CLIENT_NO_CONTEXT_TAKEOVER])) \<and>
   d_our_max_window_bits (snd (deflate_configure (deflate_new Server) [param_new CLIENT_NO_CONTEXT_TAKEOVER])) \<le> 15"
  using deflate_window_bits [of store_flate Server "[Configure [param_new CLIENT_NO_CONTEXT_TAKEOVER]]"] by simp

end
