(* ===== verification/Connection_Receive.thy ===== *)
theory Connection_Receive
  imports Connection
begin

text \<open>
  What the receiver promises, and that it keeps the promise. A frame is a header with its unmasked
  payload; \<open>spec_receive\<close> is the message layer of RFC 6455 as this crate implements it, on a list of
  frames and without buffers, sockets or masks: reassembly of fragments, answers to control frames,
  the message size limit and the protocol errors. The refinement theorem says that \<open>receive\<close>, run over any
  reliable socket that delivers the bytes of these frames in pieces of any size, computes
  \<open>spec_receive\<close>; the properties of the receiver follow by evaluating the specification.
\<close>

section \<open>Input and output\<close>

lemma env_okD:
  assumes "env_ok env inp outp"
  shows "source_ok env inp outp" "source_reliable env inp" "sink_ok env inp outp"
  using assms by (simp_all add: env_ok_def)

lemma receive_header_ok:
  assumes env: "env_ok env inp outp" and wf: "wf_header codec h"
  shows "buffer @ inp w = header_bytes h @ rest \<Longrightarrow> \<exists>buffer' w'. receive_header env codec buffer w = (Inr h, buffer', w') \<and>
    buffer' @ inp w' = rest \<and> outp w' = outp w \<and> (length buffer \<le> length (header_bytes h) \<longrightarrow> buffer' = [])"
proof (induction "MAX_HEADER_SIZE - length buffer" arbitrary: buffer w rule: less_induct)
  case less
  from codec.prefix_decode [OF wf less.prems] show ?case
  proof (elim disjE exE conjE)
    assume d: "decode_header codec buffer = Inr (Done h (length (header_bytes h)))"
    then have "length (header_bytes h) \<le> length buffer" using codec.decoded by blast
    then have "drop (length (header_bytes h)) buffer @ inp w = rest"
      using less.prems by (metis append_eq_conv_conj drop_append diff_is_0_eq drop_0)
    then show ?thesis by (simp add: receive_header.simps [of _ _ buffer] d)
  next
    fix n assume n: "0 < n" "decode_header codec buffer = Inr (NeedMore n)" "inp w \<noteq> []"
    then obtain w1 bs where r: "read env w buffer n = (Inr (), w1, buffer @ bs)" "bs \<noteq> []" "bs @ inp w1 = inp w" "outp w1 = outp w" "length bs \<le> n"
      using read_reliable [OF env_okD(1,2) [OF env] n(1), of w buffer] by auto
    have "MAX_HEADER_SIZE - length (buffer @ bs) < MAX_HEADER_SIZE - length buffer"
      using codec.need_more [OF n(2)] r(2) by (cases bs) auto
    moreover have "(buffer @ bs) @ inp w1 = header_bytes h @ rest" using less.prems r(3) by simp
    ultimately obtain buffer' w' where "receive_header env codec (buffer @ bs) w1 = (Inr h, buffer', w')"
      "buffer' @ inp w' = rest" "outp w' = outp w1" "length (buffer @ bs) \<le> length (header_bytes h) \<longrightarrow> buffer' = []"
      using less.hyps by blast
    moreover have "length (buffer @ bs) \<le> length (header_bytes h)"
      using codec.need_within [OF wf less.prems n(2)] r(5) by simp
    ultimately show ?thesis by (simp add: receive_header.simps [of _ _ buffer] n(2) r)
  qed
qed

lemma read_buffer_ok:
  assumes env: "env_ok env inp outp" and len: "unat (h_payload_len h) = length p" and stream: "buffer @ inp w = p @ rest"
  shows "\<exists>buffer' w'. read_buffer env buffer w h = (Inr (), buffer', w') \<and> length p \<le> length buffer' \<and>
    take (length p) buffer' = p \<and> drop (length p) buffer' @ inp w' = rest \<and> outp w' = outp w \<and>
    (buffer = [] \<longrightarrow> drop (length p) buffer' = [])"
proof (cases "length p \<le> length buffer")
  case True
  then obtain ws where "buffer = p @ ws" "rest = ws @ inp w"
    using stream by (metis append_eq_append_conv2 append_eq_append_conv_if append_take_drop_id)
  then show ?thesis by (simp add: read_buffer_def len model_defs)
next
  case False
  then obtain ws where ws: "p = buffer @ ws" "inp w = ws @ rest" 
    using stream prefix_split [of buffer "inp w" p rest] by auto
  then obtain w' where "sock_read_exact env w (length ws) = (Inr ws, w')" "inp w' = rest" "outp w' = outp w"
    using read_exact_reliable [OF env_okD(1,2) [OF env], of "length ws" w] by auto
  then show ?thesis using False len ws by (simp add: read_buffer_def Let_def model_defs)
qed

lemma read_payload_ok:
  assumes env: "env_ok env inp outp" and len: "unat (h_payload_len h) = length p"
    and stream: "buffer @ inp w = apply_mask h p @ rest"
  shows "\<exists>buffer' w'. read_payload env h msg buffer w = (Inr (), msg @ p, buffer', w') \<and>
    buffer' @ inp w' = rest \<and> outp w' = outp w \<and> (buffer = [] \<longrightarrow> buffer' = [])"
proof -
  have [simp]: "apply_mask h [] = []" by (simp add: apply_mask_def Let_def)
  show ?thesis
  proof (cases "length p \<le> length buffer")
    case True
    then obtain ws where ws: "buffer = apply_mask h p @ ws" "rest = ws @ inp w"
      using stream by (metis length_apply_mask append_eq_append_conv2 append_eq_append_conv_if append_take_drop_id)
    then show ?thesis using len by (auto simp: read_payload_def Let_def model_defs)
  next
    case False
    then obtain ws where ws: "apply_mask h p = buffer @ ws" "inp w = ws @ rest" 
      using stream prefix_split [of buffer "inp w" "apply_mask h p" rest] by auto
    have lws: "length ws = length p - length buffer" using arg_cong [OF ws(1), of length] by simp
    obtain w' where w': "sock_read_exact env w (length ws) = (Inr ws, w')" "inp w' = rest" "outp w' = outp w"
      using ws read_exact_reliable [OF env_okD(1,2) [OF env], of "length ws" w] by auto
    have "apply_mask h (buffer @ ws) = p" using apply_mask_twice [of h p] ws(1) by simp
    moreover have "length p - length buffer = length ws" "buffer = [] \<longrightarrow> length p = length ws" using lws by auto
    moreover have "ws \<noteq> []" using False lws by auto
    ultimately show ?thesis using False len w' by (simp add: read_payload_def Let_def model_defs) auto
  qed
qed

lemma write_all_ok:
  "sink_ok env inp outp \<Longrightarrow> \<exists>w'. write_all env w bs = (Inr (), w') \<and> outp w' = outp w @ bs \<and> inp w' = inp w"
  unfolding sink_ok_def write_all_def by (metis (mono_tags, lifting) case_prod_conv old.sum.simps(6) old.unit.case)

definition sent_header :: "Mode \<Rightarrow> u32 \<Rightarrow> Header \<Rightarrow> bytes \<Rightarrow> Header" where
  "sent_header mode m h data =
     (if is_client mode then h\<lparr>h_masked := True, h_mask := m\<rparr> else h)\<lparr>h_payload_len := of_nat (length data)\<rparr>"

lemma write_payload_ok:
  assumes "sink_ok env inp outp"
  shows "\<exists>w' data' mb'. write_payload env w h data mb = (Inr (), w', data', mb') \<and>
     outp w' = outp w @ apply_mask h (as_ref data) \<and> inp w' = inp w"
  using write_all_ok [OF assms, of w "apply_mask h (as_ref data)"] 
  by (cases data) (auto simp: write_payload_def Let_def apply_mask_def)

lemma write_frame_ok:
  assumes "sink_ok env inp outp" "codec_ok codec"
  shows "\<exists>m buf w' h' data' mb'. 
     write_frame env mode codec w h data mb = Some (Inr (), codec\<lparr>c_header_buffer := buf\<rparr>, w', h', data', mb') \<and> 
     length buf = MAX_HEADER_SIZE \<and> h' = sent_header mode m h (as_ref data) \<and>
     outp w' = outp w @ header_bytes h' @ apply_mask h' (as_ref data) \<and> inp w' = inp w"
proof -
  obtain m w1 where m: "random_u32 env w = (m, w1)" by force
  let ?h = "sent_header mode m h (as_ref data)"
  let ?w = "if is_client mode then w1 else w"
  have w1: "outp ?w = outp w" "inp ?w = inp w" using assms(1) m unfolding sink_ok_def by auto
  obtain buf where buf: "length buf = MAX_HEADER_SIZE" "encode_header codec ?h = Some (codec\<lparr>c_header_buffer := buf\<rparr>, header_bytes ?h)"
    using encode_header_bytes [OF assms(2)] by blast
  obtain w2 where w2: "write_all env ?w (header_bytes ?h) = (Inr (), w2)" "outp w2 = outp w @ header_bytes ?h" "inp w2 = inp w"
    using write_all_ok [OF assms(1), of ?w] w1 by auto
  obtain w3 data' mb' where w3: "write_payload env w2 ?h data mb = (Inr (), w3, data', mb')"
     "outp w3 = outp w2 @ apply_mask ?h (as_ref data)" "inp w3 = inp w2"
    using write_payload_ok [OF assms(1)] by blast
  have "write_frame env mode codec w h data mb = Some (Inr (), codec\<lparr>c_header_buffer := buf\<rparr>, w3, ?h, data', mb')"
    using buf w2 w3 m by (auto simp: write_frame_def sent_header_def model_defs)
  then show ?thesis using w2 w3 buf by auto
qed

section \<open>Frames on the wire\<close>

type_synonym frame = "Header \<times> bytes"

definition frame_wire :: "frame \<Rightarrow> bytes" where
  "frame_wire f = header_bytes (fst f) @ apply_mask (fst f) (snd f)"

definition frame_ok :: "Codec \<Rightarrow> frame \<Rightarrow> bool" where
  "frame_ok c f \<longleftrightarrow> wf_header c (fst f) \<and> unat (h_payload_len (fst f)) = length (snd f)"

lemma wf_header_buffer [simp]: "wf_header (c\<lparr>c_header_buffer := b\<rparr>) h = wf_header c h"
  by (simp add: wf_header_def)

text \<open>The answers a receiver writes: an opcode and a payload each, masked by a fresh key on the client side.\<close>

type_synonym answer = "OpCode \<times> bytes"

definition answer_frame :: "Mode \<Rightarrow> u32 \<Rightarrow> answer \<Rightarrow> frame" where
  "answer_frame mode m a = (sent_header mode m (header_new (fst a)) (snd a), snd a)"

fun answers_on_wire :: "Mode \<Rightarrow> answer list \<Rightarrow> bytes \<Rightarrow> bool" where
  "answers_on_wire mode [] bs = (bs = [])"
| "answers_on_wire mode (a # as) bs =
     (\<exists>m rest. bs = frame_wire (answer_frame mode m a) @ rest \<and> answers_on_wire mode as rest)"

lemma answers_on_wire_append:
  "answers_on_wire mode as bs \<Longrightarrow> answers_on_wire mode as' bs' \<Longrightarrow> answers_on_wire mode (as @ as') (bs @ bs')"
  by (induction as arbitrary: bs) (auto, metis append.assoc)

section \<open>The specification of receiving\<close>

text \<open>State: the opcode of a fragmented message in progress, its length so far, the message buffer.\<close>

datatype spec_step =
    Cont "OpCode option" usize bytes "answer list"
  | Stop "conn_Error + Incoming" bytes "answer list" bool

definition spec_control :: "OpCode option \<Rightarrow> usize \<Rightarrow> bytes \<Rightarrow> frame \<Rightarrow> spec_step" where
  "spec_control fo len msg f =
     (case h_opcode (fst f) of
        OpCode.Pong \<Rightarrow> Stop (Inr (Incoming.Pong (snd f))) msg [] False
      | OpCode.Ping \<Rightarrow> Cont fo len msg [(OpCode.Pong, snd f)]
      | _ \<Rightarrow>
          (case close_answer (snd f) of
             Inl e \<Rightarrow> Stop (Inl e) msg [] False
           | Inr (_, Some cr) \<Rightarrow>
               Stop (Inr (Incoming.Closed cr)) msg [(OpCode.Close, to_be_bytes 2 (cr_code cr))] True
           | Inr (_, None) \<Rightarrow> Stop (Inl conn_Error.Closed) msg [(OpCode.Close, [])] True))"

definition spec_message :: "nat \<Rightarrow> OpCode \<Rightarrow> bytes \<Rightarrow> conn_Error + Incoming" where
  "spec_message message_len oc msg =
     Inr (Incoming.Data ((if oc = OpCode.Text then Data.Text else Data.Binary) (length msg - message_len)))"

definition spec_data :: "usize \<Rightarrow> nat \<Rightarrow> OpCode option \<Rightarrow> usize \<Rightarrow> bytes \<Rightarrow> frame \<Rightarrow> spec_step" where
  "spec_data limit message_len fo len msg f =
     (let len = saturating_add len (h_payload_len (fst f)); oc = h_opcode (fst f) in
      if len > limit then Stop (Inl (MessageTooLarge len limit)) msg [] False
      else
        let msg = msg @ snd f in
        case (h_fin (fst f), oc = OpCode.Continue, fo) of
          (False, True, None) \<Rightarrow> Stop (Inl (conn_Error.UnexpectedOpCode OpCode.Continue)) msg [] False
        | (False, True, Some first) \<Rightarrow> Cont fo len msg []
        | (False, False, None) \<Rightarrow> Cont (Some oc) len msg []
        | (False, False, Some first) \<Rightarrow> Stop (Inl (conn_Error.UnexpectedOpCode oc)) msg [] False
        | (True, True, Some first) \<Rightarrow> Stop (spec_message message_len first msg) msg [] False
        | (True, True, None) \<Rightarrow> Stop (Inl (conn_Error.UnexpectedOpCode OpCode.Continue)) msg [] False
        | (True, False, Some first) \<Rightarrow> Stop (Inl (conn_Error.UnexpectedOpCode oc)) msg [] False
        | (True, False, None) \<Rightarrow> Stop (spec_message message_len oc msg) msg [] False)"

definition spec_frame :: "usize \<Rightarrow> nat \<Rightarrow> OpCode option \<Rightarrow> usize \<Rightarrow> bytes \<Rightarrow> frame \<Rightarrow> spec_step" where
  "spec_frame limit message_len fo len msg f =
     (if is_control (h_opcode (fst f)) then spec_control fo len msg f
      else spec_data limit message_len fo len msg f)"

text \<open>
  The result, the message buffer, the answers written, whether the connection is now closed, and the
  frames left over; \<open>None\<close> if the frames end before the message does.
\<close>

type_synonym spec_result = "((conn_Error + Incoming) \<times> bytes \<times> answer list \<times> bool \<times> frame list) option"

definition answered :: "answer list \<Rightarrow> spec_result \<Rightarrow> spec_result" where
  "answered as = map_option (\<lambda>(r, msg, as', closed, fs). (r, msg, as @ as', closed, fs))"

lemma answered_simps [simp]:
  "answered as None = None" "answered as (Some (r, msg, as', closed, fs)) = Some (r, msg, as @ as', closed, fs)"
  "answered [] res = res" "answered as (answered as' res) = answered (as @ as') res"
  by (cases res; auto simp: answered_def)+

lemma answered_SomeE:
  assumes "answered as res = Some (r, msg, as2, closed, fs)"
  obtains as' where "as2 = as @ as'" "res = Some (r, msg, as', closed, fs)"
  using assms by (auto simp: answered_def)

fun spec_receive :: "usize \<Rightarrow> nat \<Rightarrow> OpCode option \<Rightarrow> usize \<Rightarrow> bytes \<Rightarrow> frame list \<Rightarrow> spec_result" where
  "spec_receive limit message_len fo len msg [] = None"
| "spec_receive limit message_len fo len msg (f # fs) =
     (case spec_frame limit message_len fo len msg f of
        Stop r msg as closed \<Rightarrow> Some (r, msg, as, closed, fs)
      | Cont fo len msg as \<Rightarrow>
          answered as (spec_receive limit message_len fo len msg fs))"

fun too_large :: "conn_Error + Incoming \<Rightarrow> bool" where
  "too_large (Inl (MessageTooLarge _ _)) = True"
| "too_large _ = False"

section \<open>The receiver in step with the specification\<close>

text \<open>
  The concrete state: the codec has the limits of \<open>c\<close>, \<open>K\<close> holds for whether extensions are in use and for their states,
  \<open>stream\<close> is what the buffer holds and the socket will deliver, \<open>out\<close> what the socket has accepted; \<open>d\<close>
  (drained) asks for an empty buffer. In \<open>recv_at\<close> no extension is in use.
\<close>

definition recv_in :: "(bool \<Rightarrow> 'e list \<Rightarrow> bool) \<Rightarrow> ('w \<Rightarrow> bytes) \<Rightarrow> ('w \<Rightarrow> bytes) \<Rightarrow> Codec \<Rightarrow> Mode \<Rightarrow> usize \<Rightarrow> bool \<Rightarrow> Receiver \<Rightarrow>
    ('w, 'e) Shared \<Rightarrow> bytes \<Rightarrow> bytes \<Rightarrow> bool \<Rightarrow> bool" where
  "recv_in K inp outp c mode limit d self sh stream out closed \<longleftrightarrow>
     (\<exists>buf. r_codec self = c\<lparr>c_header_buffer := buf\<rparr> \<and> length buf = MAX_HEADER_SIZE) \<and>
     r_mode self = mode \<and> r_max_message_size self = limit \<and> K (r_has_extensions self) (sh_extensions sh) \<and>
     (d \<longrightarrow> r_buffer self = []) \<and> r_is_closed self = closed \<and> r_buffer self @ inp (sh_world sh) = stream \<and> outp (sh_world sh) = out"

definition loop_in :: "(bool \<Rightarrow> 'e list \<Rightarrow> bool) \<Rightarrow> ('w \<Rightarrow> bytes) \<Rightarrow> ('w \<Rightarrow> bytes) \<Rightarrow> Codec \<Rightarrow> Mode \<Rightarrow> usize \<Rightarrow> bool \<Rightarrow> nat \<Rightarrow>
    ('w, 'e) Loop \<Rightarrow> OpCode option \<Rightarrow> usize \<Rightarrow> bytes \<Rightarrow> bytes \<Rightarrow> bytes \<Rightarrow> bool" where
  "loop_in K inp outp c mode limit d message_len st fo len msg stream out \<longleftrightarrow>
     recv_in K inp outp c mode limit d (l_self st) (l_shared st) stream out False \<and>
     l_first_fragment_opcode st = fo \<and> l_length st = len \<and> l_message st = msg \<and> message_len \<le> length msg"

abbreviation recv_at where "recv_at \<equiv> recv_in (\<lambda>in_use es. \<not> in_use)"

abbreviation loop_at where "loop_at \<equiv> loop_in (\<lambda>in_use es. \<not> in_use)"

lemmas recv_at_def = recv_in_def

lemmas loop_at_def = loop_in_def

text \<open>
  The input left after a result: the rest, but after a message that was too large what remains when as
  many bytes as the message had so far are dropped from the payload \<open>pl\<close> of the last frame and from what
  follows it. (This is if the read buffer was empty; a filled buffer is not looked at by the code, and
  then nothing is said.)
\<close>

fun left_over :: "bool \<Rightarrow> conn_Error + Incoming \<Rightarrow> bytes \<Rightarrow> bytes \<Rightarrow> bytes \<Rightarrow> bool" where
  "left_over drained (Inl (MessageTooLarge current maximum)) pl rest stream =
     (drained \<longrightarrow> stream = drop (unat current) (pl @ rest))"
| "left_over drained r pl rest stream = (stream = rest)"

lemma left_over_rest: "\<not> too_large r \<Longrightarrow> left_over drained r pl rest stream = (stream = rest)"
  by (cases "(drained, r, pl, rest, stream)" rule: left_over.cases) auto

text \<open>What one step of the loop must achieve.\<close>

definition step_in where
  "step_in K env x inp outp c mode limit d lo message_len st out pl rest step \<longleftrightarrow>
     (case step of
        Cont fo len msg as \<Rightarrow>
          \<exists>st' bs. receive_body env x message_len st = Some (Again st') \<and> answers_on_wire mode as bs \<and>
            loop_in K inp outp c mode limit d lo st' fo len msg rest (out @ bs)
      | Stop r msg as closed \<Rightarrow>
          \<exists>self' sh' bs stream'. receive_loop env x message_len st = Some (r, self', sh', msg) \<and>
            answers_on_wire mode as bs \<and>
            recv_in K inp outp c mode limit d self' sh' stream' (out @ bs) closed \<and>
            left_over d r pl rest stream')"

abbreviation step_refines where
  "step_refines env x inp outp c mode limit d message_len \<equiv>
     step_in (\<lambda>in_use es. \<not> in_use) env x inp outp c mode limit d message_len message_len"

lemmas step_refines_def = step_in_def

lemma receive_body_header:
  assumes env: "env_ok env inp outp" and f: "frame_ok c (h, p)"
    and at: "loop_in K inp outp c mode limit d lo st fo len msg (frame_wire (h, p) @ rest) out"
  obtains st' where "loop_in K inp outp c mode limit d lo st' fo len msg (apply_mask h p @ rest) out"
    "receive_body env x mlen st =
       (if is_control (h_opcode h) then receive_control env st' h else receive_data_frame env x mlen st' h)"
proof -
  let ?w = "sh_world (l_shared st)" and ?self = "l_self st"
  have "r_buffer ?self @ inp ?w = header_bytes h @ apply_mask h p @ rest"
    using at by (simp add: loop_at_def recv_at_def frame_wire_def)
  moreover have "wf_header (r_codec ?self) h"
    using at f by (auto simp: loop_at_def recv_at_def frame_ok_def)
  ultimately obtain buffer' w' where
    r: "receive_header env (r_codec ?self) (r_buffer ?self) ?w = (Inr h, buffer', w')"
      "buffer' @ inp w' = apply_mask h p @ rest" "outp w' = outp ?w"
      "length (r_buffer ?self) \<le> length (header_bytes h) \<longrightarrow> buffer' = []"
    using receive_header_ok [OF env] by blast
  let ?st = "st\<lparr>l_self := ?self\<lparr>r_ctrl_buffer := [], r_buffer := buffer'\<rparr>, l_shared := (l_shared st)\<lparr>sh_world := w'\<rparr>\<rparr>"
  have "loop_in K inp outp c mode limit d lo ?st fo len msg (apply_mask h p @ rest) out"
    using at r by (simp add: loop_at_def recv_at_def)
  moreover have "receive_body env x mlen st =
       (if is_control (h_opcode h) then receive_control env ?st h else receive_data_frame env x mlen ?st h)"
    using at r by (simp add: receive_body_def loop_at_def recv_at_def Let_def model_defs)
  ultimately show ?thesis by (rule that)
qed

lemma answer_one: "answers_on_wire mode [(oc, p)] (header_bytes (sent_header mode m (header_new oc) p) @ apply_mask (sent_header mode m (header_new oc) p) p)"
  by (auto simp: answer_frame_def frame_wire_def)

lemma on_ping_ok:
  assumes env: "env_ok env inp outp"
    and at: "recv_in K inp outp c mode limit d self sh stream out False"
  shows "\<exists>self' w' bs. on_ping env self (sh_world sh) = Some (Inr None, self', w') \<and>
     answers_on_wire mode [(OpCode.Pong, r_ctrl_buffer self)] bs \<and>
     recv_in K inp outp c mode limit d self' (sh\<lparr>sh_world := w'\<rparr>) stream (out @ bs) False"
proof -
  have "codec_ok (r_codec self)" using at by (auto simp: recv_at_def codec_ok_def)
  from write_frame_ok [OF env_okD(3) [OF env] this, of "r_mode self" "sh_world sh" "header_new OpCode.Pong" "Unique (r_ctrl_buffer self)" "[]"]
  obtain m buf w' h' data' mb' where wf: 
     "write_frame env (r_mode self) (r_codec self) (sh_world sh) (header_new OpCode.Pong) (Unique (r_ctrl_buffer self)) [] = Some (Inr (), (r_codec self)\<lparr>c_header_buffer := buf\<rparr>, w', h', data', mb')" 
     "length buf = MAX_HEADER_SIZE" "h' = sent_header (r_mode self) m (header_new OpCode.Pong) (r_ctrl_buffer self)"
     "outp w' = outp (sh_world sh) @ header_bytes h' @ apply_mask h' (r_ctrl_buffer self)" "inp w' = inp (sh_world sh)"
    by auto
  obtain w2 where w2: "sock_flush env w' = (Inr (), w2)" "outp w2 = outp w'" "inp w2 = inp w'"
    using env_okD(3) [OF env] unfolding sink_ok_def by blast
  show ?thesis
    using at wf w2 answer_one [of mode OpCode.Pong "r_ctrl_buffer self" m]
    by (auto simp: on_ping_def receiver_flush_def recv_at_def Let_def)
qed

lemma close_answer_header: "close_answer data = Inr (h, reason) \<Longrightarrow> h = header_new OpCode.Close"
  by (auto simp: close_answer_def Let_def split: if_splits sum.splits)

lemma close_answer_error: "close_answer data = Inl e \<Longrightarrow> \<exists>u. e = Utf8 u"
  by (auto simp: close_answer_def Let_def from_utf8_error_def split: if_splits sum.splits)

lemma on_close_ok:
  assumes env: "env_ok env inp outp" and ans: "close_answer (r_ctrl_buffer self) = Inr (h, reason)"
    and at: "recv_in K inp outp c mode limit d self sh stream out False"
  shows "\<exists>self' w' bs. on_close env self (sh_world sh) = Some (Inr reason, self', w') \<and>
     answers_on_wire mode [(OpCode.Close, case reason of Some cr \<Rightarrow> to_be_bytes 2 (cr_code cr) | None \<Rightarrow> [])] bs \<and>
     recv_in K inp outp c mode limit d self' (sh\<lparr>sh_world := w'\<rparr>) stream (out @ bs) True"
proof -
  let ?data = "case reason of Some cr \<Rightarrow> to_be_bytes 2 (cr_code cr) | None \<Rightarrow> []"
  have "codec_ok (r_codec self)" using at by (auto simp: recv_at_def codec_ok_def)
  from write_frame_ok [OF env_okD(3) [OF env] this, of "r_mode self" "sh_world sh" h "Unique ?data" "[]"]
  obtain m buf w' h' data' mb' where wf: 
     "write_frame env (r_mode self) (r_codec self) (sh_world sh) h (Unique ?data) [] = Some (Inr (), (r_codec self)\<lparr>c_header_buffer := buf\<rparr>, w', h', data', mb')" 
     "length buf = MAX_HEADER_SIZE" "h' = sent_header (r_mode self) m h ?data"
     "outp w' = outp (sh_world sh) @ header_bytes h' @ apply_mask h' ?data" "inp w' = inp (sh_world sh)"
    by auto
  obtain w2 where w2: "sock_flush env w' = (Inr (), w2)" "outp w2 = outp w'" "inp w2 = inp w'"
    using env_okD(3) [OF env] unfolding sink_ok_def by blast
  obtain r w3 where w3: "sock_close env w2 = (r, w3)" "outp w3 = outp w2" "inp w3 = inp w2"
    using env_okD(3) [OF env] unfolding sink_ok_def by blast
  show ?thesis
    using at wf w2 w3 ans close_answer_header [OF ans] answer_one [of mode OpCode.Close ?data m]
    by (auto simp: on_close_def receiver_flush_def recv_at_def Let_def)
qed

lemma receive_loop_Return: "receive_body env x mlen st = Some (Return r) \<Longrightarrow> receive_loop env x mlen st = Some r"
  by (simp add: receive_loop.simps)

lemma receive_loop_Again: "receive_body env x mlen st = Some (Again st') \<Longrightarrow> receive_loop env x mlen st = receive_loop env x mlen st'"
  by (simp add: receive_loop.simps [of _ _ _ st])

text \<open>A control frame once its payload has been read: the answer, and what the loop does with it.\<close>

definition after_control :: "'w Env \<Rightarrow> ('w, 'e) Loop \<Rightarrow> ('w, 'e) Shared \<Rightarrow>
    (conn_Error + CloseReason option) \<times> Receiver \<times> 'w \<Rightarrow> (('w, 'e) Loop, ('w, 'e) received) flow" where
  "after_control env st sh a =
     (case a of (r, self, w) \<Rightarrow>
        let st = st\<lparr>l_self := self, l_shared := sh\<lparr>sh_world := w\<rparr>\<rparr> in
        case r of
          Inl e \<Rightarrow> return_with st (Inl e)
        | Inr (Some cr) \<Rightarrow> return_with st (Inr (Incoming.Closed cr))
        | Inr None \<Rightarrow> Again st)"

lemma receive_control_ok:
  assumes env: "env_ok env inp outp" and len: "unat (h_payload_len h) = length p"
    and at: "loop_in K inp outp c mode limit d lo st fo len msg (apply_mask h p @ rest) out"
  obtains self sh where "recv_in K inp outp c mode limit d self sh rest out False" "r_ctrl_buffer self = p"
    "receive_control env st h =
     (if h_opcode h = OpCode.Pong then Some (Return (Inr (Incoming.Pong p), self, sh, msg))
      else map_option (after_control env st sh) (on_control env self (sh_world sh) h))"
proof -
  let ?self = "l_self st" and ?sh = "l_shared st"
  have "r_buffer ?self @ inp (sh_world ?sh) = apply_mask h p @ rest" using at by (simp add: loop_at_def recv_at_def)
  from read_buffer_ok [OF env _ this, of h, unfolded length_apply_mask, OF len]
  obtain buffer' w' where rb: "read_buffer env (r_buffer ?self) (sh_world ?sh) h = (Inr (), buffer', w')"
    "length p \<le> length buffer'" "take (length p) buffer' = apply_mask h p" "drop (length p) buffer' @ inp w' = rest"
    "outp w' = outp (sh_world ?sh)" "r_buffer ?self = [] \<longrightarrow> drop (length p) buffer' = []" by blast
  let ?self1 = "?self\<lparr>r_ctrl_buffer := p, r_buffer := drop (length p) buffer'\<rparr>"
  let ?sh1 = "?sh\<lparr>sh_world := w'\<rparr>"
  have ctl: "receive_control env st h =
     (if h_opcode h = OpCode.Pong then Some (Return (Inr (Incoming.Pong p), ?self1, ?sh1, msg))
      else map_option (after_control env st ?sh1) (on_control env ?self1 (sh_world ?sh1) h))"
    using at rb len
    by (simp add: receive_control_def Let_def model_defs loop_at_def after_control_def [abs_def] map_conv_bind_option
        split: prod.splits sum.splits option.splits)
       (auto intro!: arg_cong [of _ _ "Option.bind _"] simp: fun_eq_iff split: prod.splits sum.splits option.splits)
  show ?thesis
    by (rule that [OF _ _ ctl]) (use at rb in \<open>auto simp: loop_at_def recv_at_def\<close>)
qed

lemma close_refines:
  assumes env: "env_ok env inp outp" and h: "h_opcode h = OpCode.Close"
    and at: "loop_in K inp outp c mode limit d lo st fo len msg stream out"
    and at1: "recv_in K inp outp c mode limit d self sh rest out False" and cb: "r_ctrl_buffer self = p"
    and body: "receive_body env x mlen st0 = map_option (after_control env st sh) (on_control env self (sh_world sh) h)"
  shows "step_in K env x inp outp c mode limit d lo mlen st0 out (apply_mask h p) rest (spec_control fo len msg (h, p))"
proof (cases "close_answer p")
  case (Inl e)
  then have "receive_body env x mlen st0 = Some (Return (Inl e, self, sh, msg))"
    using at cb h by (simp add: body on_control_def on_close_def model_defs after_control_def loop_at_def)
  from receive_loop_Return [OF this] show ?thesis
    using Inl h at1 close_answer_error [OF Inl] by (force simp: step_refines_def spec_control_def)
next
  case (Inr a)
  obtain hd reason where [simp]: "a = (hd, reason)" by force
  obtain self' w2 bs where oc: "on_close env self (sh_world sh) = Some (Inr reason, self', w2)"
     "answers_on_wire mode [(OpCode.Close, case reason of Some cr \<Rightarrow> to_be_bytes 2 (cr_code cr) | None \<Rightarrow> [])] bs"
     "recv_in K inp outp c mode limit d self' (sh\<lparr>sh_world := w2\<rparr>) rest (out @ bs) True"
    using on_close_ok [OF env _ at1] Inr cb by auto
  let ?r = "case reason of None \<Rightarrow> Inl conn_Error.Closed | Some cr \<Rightarrow> Inr (Incoming.Closed cr)"
  let ?st = "st\<lparr>l_self := self', l_shared := sh\<lparr>sh_world := w2\<rparr>\<rparr>"
  have b: "receive_body env x mlen st0 = Some (after_control env st sh (Inr reason, self', w2))"
    using h oc by (simp add: body on_control_def model_defs)
  have "receive_body env x mlen ?st = Some (Return (Inl conn_Error.Closed, self', sh\<lparr>sh_world := w2\<rparr>, msg))"
    using oc(3) at by (simp add: receive_body_def recv_at_def loop_at_def)
  then have "receive_loop env x mlen st0 = Some (?r, self', sh\<lparr>sh_world := w2\<rparr>, msg)"
    using b at by (cases reason) (auto simp: receive_loop.simps [of _ _ _ st0] after_control_def loop_at_def dest: receive_loop_Return)
  then show ?thesis using oc Inr h by (cases reason) (force simp: step_refines_def spec_control_def)+
qed

lemma control_refines:
  assumes env: "env_ok env inp outp" and len: "unat (h_payload_len h) = length p"
    and ctrl: "h_opcode h \<in> {OpCode.Ping, OpCode.Pong, OpCode.Close}"
    and at: "loop_in K inp outp c mode limit d lo st fo len msg (apply_mask h p @ rest) out"
    and body: "receive_body env x mlen st0 = receive_control env st h"
  shows "step_in K env x inp outp c mode limit d lo mlen st0 out (apply_mask h p) rest (spec_control fo len msg (h, p))"
proof -
  obtain self sh where at1: "recv_in K inp outp c mode limit d self sh rest out False" "r_ctrl_buffer self = p" and ctl:
    "receive_control env st h =
     (if h_opcode h = OpCode.Pong then Some (Return (Inr (Incoming.Pong p), self, sh, msg))
      else map_option (after_control env st sh) (on_control env self (sh_world sh) h))"
    using receive_control_ok [OF env len at] by blast
  from ctrl show ?thesis
  proof (elim insertE emptyE)
    assume h: "h_opcode h = OpCode.Pong"
    then have "receive_loop env x mlen st0 = Some (Inr (Incoming.Pong p), self, sh, msg)"
      using body ctl by (simp add: receive_loop_Return)
    then show ?thesis using at1 h by (force simp: step_refines_def spec_control_def)
  next
    assume h: "h_opcode h = OpCode.Ping"
    from on_ping_ok [OF env at1(1)] obtain self' w' bs where
      "on_ping env self (sh_world sh) = Some (Inr None, self', w')" and bs: "answers_on_wire mode [(OpCode.Pong, p)] bs"
      "recv_in K inp outp c mode limit d self' (sh\<lparr>sh_world := w'\<rparr>) rest (out @ bs) False" using at1(2) by blast
    then have "receive_body env x mlen st0 = Some (Again (st\<lparr>l_self := self', l_shared := sh\<lparr>sh_world := w'\<rparr>\<rparr>))"
      using h by (simp add: body ctl on_control_def model_defs after_control_def)
    then show ?thesis using at bs h by (force simp: step_refines_def spec_control_def loop_at_def simp del: answers_on_wire.simps)
  next
    assume "h_opcode h = OpCode.Close"
    then show ?thesis by (intro close_refines [OF env _ at at1]) (simp_all add: body ctl)
  qed
qed


lemma decode_step_id [simp]:
  "\<not> r_has_extensions (l_self st) \<Longrightarrow> decode_step x st h = (Inr h, st)"
  by (simp add: decode_step_def decode_with_extensions_def)

lemma dispatch_refines:
  assumes at: "loop_at inp outp c mode limit d mlen st fo len msg rest out"
    and body: "receive_body env x mlen st0 = dispatch x mlen st h"
  shows "step_refines env x inp outp c mode limit d mlen st0 out pl rest
    (case (h_fin h, h_opcode h = OpCode.Continue, fo) of
          (False, True, None) \<Rightarrow> Stop (Inl (conn_Error.UnexpectedOpCode OpCode.Continue)) msg [] False
        | (False, True, Some first) \<Rightarrow> Cont fo len msg []
        | (False, False, None) \<Rightarrow> Cont (Some (h_opcode h)) len msg []
        | (False, False, Some first) \<Rightarrow> Stop (Inl (conn_Error.UnexpectedOpCode (h_opcode h))) msg [] False
        | (True, True, Some first) \<Rightarrow> Stop (spec_message mlen first msg) msg [] False
        | (True, True, None) \<Rightarrow> Stop (Inl (conn_Error.UnexpectedOpCode OpCode.Continue)) msg [] False
        | (True, False, Some first) \<Rightarrow> Stop (Inl (conn_Error.UnexpectedOpCode (h_opcode h))) msg [] False
        | (True, False, None) \<Rightarrow> Stop (spec_message mlen (h_opcode h) msg) msg [] False)"
proof -
  have at': "recv_at inp outp c mode limit d (l_self st) (l_shared st) rest out False" "l_first_fragment_opcode st = fo"
    "l_length st = len" "l_message st = msg" "\<not> length msg < mlen" "\<not> r_has_extensions (l_self st)"
    using at by (simp_all add: loop_at_def recv_at_def)
  have ret: "receive_body env x mlen st0 = Some (Return (r, l_self st, l_shared st, msg)) \<Longrightarrow> \<not> too_large r \<Longrightarrow>
      step_refines env x inp outp c mode limit d mlen st0 out pl rest (Stop r msg [] False)" for r
    using receive_loop_Return [of env x mlen st0] at'(1) by (force simp: step_refines_def left_over_rest)
  have cont: "receive_body env x mlen st0 = Some (Again (st\<lparr>l_first_fragment_opcode := fo'\<rparr>)) \<Longrightarrow>
      step_refines env x inp outp c mode limit d mlen st0 out pl rest (Cont fo' len msg [])" for fo'
    using at by (force simp: step_refines_def loop_at_def)
  have same: "fo' = fo \<Longrightarrow> receive_body env x mlen st0 = Some (Again st) \<Longrightarrow>
      step_refines env x inp outp c mode limit d mlen st0 out pl rest (Cont fo' len msg [])" for fo'
    using at by (force simp: step_refines_def)
  show ?thesis
    by (cases "h_fin h"; cases "h_opcode h = OpCode.Continue"; cases fo)
       (simp_all add: ret cont same at' body dispatch_def deliver_def spec_message_def model_defs Let_def)
qed

text \<open>A data frame is too large, or its payload is appended to the message.\<close>

lemma oversized_refines:
  assumes env: "env_ok env inp outp" and big: "saturating_add len (h_payload_len h) > limit"
    and at: "loop_in K inp outp c mode limit d lo st fo len msg (apply_mask h p @ rest) out"
    and body: "receive_body env x mlen st0 = receive_data_frame env x mlen st h"
  shows "step_in K env x inp outp c mode limit d lo mlen st0 out (apply_mask h p) rest
    (Stop (Inl (MessageTooLarge (saturating_add len (h_payload_len h)) limit)) msg [] False)"
proof -
  let ?len = "saturating_add len (h_payload_len h)" and ?w = "sh_world (l_shared st)"
  obtain k w' where disc: "sock_discard env ?w ?len = (Inr k, w')"
    using env_okD(2) [OF env] unfolding source_reliable_def by metis
  then have w': "outp w' = outp ?w" "inp w' = drop (unat ?len) (inp ?w)"
    using env_okD(1) [OF env] unfolding source_ok_def by metis+
  let ?sh = "(l_shared st)\<lparr>sh_world := w'\<rparr>"
  have "receive_body env x mlen st0 = Some (Return (Inl (MessageTooLarge ?len limit), l_self st, ?sh, msg))"
    using at disc w' big by (simp add: body receive_data_frame_def discard_bytes_def Let_def model_defs loop_in_def recv_in_def)
  moreover have "recv_in K inp outp c mode limit d (l_self st) ?sh (r_buffer (l_self st) @ inp w') out False"
    using at w' by (simp add: loop_in_def recv_in_def)
  moreover have "d \<longrightarrow> r_buffer (l_self st) @ inp w' = drop (unat ?len) (apply_mask h p @ rest)"
    using at w' by (auto simp: loop_in_def recv_in_def)
  ultimately show ?thesis using receive_loop_Return [of env x mlen st0] by (force simp: step_in_def)
qed

lemma payload_read:
  assumes env: "env_ok env inp outp" and plen: "unat (h_payload_len h) = length p"
    and fits: "\<not> saturating_add len (h_payload_len h) > limit"
    and at: "loop_in K inp outp c mode limit d lo st fo len msg (apply_mask h p @ rest) out"
  obtains st' where "receive_data_frame env x mlen st h = dispatch x mlen st' h"
    "loop_in K inp outp c mode limit d lo st' fo (saturating_add len (h_payload_len h)) (msg @ p) rest out"
proof -
  let ?len = "saturating_add len (h_payload_len h)" and ?w = "sh_world (l_shared st)"
  have "r_buffer (l_self st) @ inp ?w = apply_mask h p @ rest" using at by (simp add: loop_in_def recv_in_def)
  from read_payload_ok [OF env plen this] obtain buffer' w' where
    rp: "read_payload env h msg (r_buffer (l_self st)) ?w = (Inr (), msg @ p, buffer', w')"
      "buffer' @ inp w' = rest" "outp w' = outp ?w" "r_buffer (l_self st) = [] \<longrightarrow> buffer' = []" by blast
  let ?st = "st\<lparr>l_length := ?len, l_self := (l_self st)\<lparr>r_buffer := buffer'\<rparr>,
     l_shared := (l_shared st)\<lparr>sh_world := w'\<rparr>, l_message := msg @ p\<rparr>"
  have "receive_data_frame env x mlen st h = dispatch x mlen ?st h"
    using at rp fits by (simp add: receive_data_frame_def Let_def model_defs loop_in_def recv_in_def)
  moreover have "loop_in K inp outp c mode limit d lo ?st fo ?len (msg @ p) rest out"
    using at rp by (simp add: loop_in_def recv_in_def)
  ultimately show ?thesis by (rule that)
qed

lemma data_refines:
  assumes env: "env_ok env inp outp" and plen: "unat (h_payload_len h) = length p"
    and at: "loop_at inp outp c mode limit d mlen st fo len msg (apply_mask h p @ rest) out"
    and body: "receive_body env x mlen st0 = receive_data_frame env x mlen st h"
  shows "step_refines env x inp outp c mode limit d mlen st0 out (apply_mask h p) rest (spec_data limit mlen fo len msg (h, p))"
proof (cases "saturating_add len (h_payload_len h) > limit")
  case True
  from oversized_refines [OF env True at body] show ?thesis using True by (simp add: spec_data_def)
next
  case False
  from payload_read [OF env plen False at, where x = x and mlen = mlen] obtain st' where
    "receive_data_frame env x mlen st h = dispatch x mlen st' h"
    "loop_at inp outp c mode limit d mlen st' fo (saturating_add len (h_payload_len h)) (msg @ p) rest out" by blast
  then show ?thesis using False dispatch_refines [of inp outp c mode limit d mlen st'] body by (simp add: spec_data_def Let_def)
qed

lemma frame_refines:
  assumes env: "env_ok env inp outp" and f: "frame_ok c f"
    and at: "loop_at inp outp c mode limit d mlen st fo len msg (frame_wire f @ rest) out"
  shows "step_refines env x inp outp c mode limit d mlen st out (apply_mask (fst f) (snd f)) rest (spec_frame limit mlen fo len msg f)"
proof -
  obtain h p where [simp]: "f = (h, p)" by force
  obtain st' where st': "loop_at inp outp c mode limit d mlen st' fo len msg (apply_mask h p @ rest) out"
    "receive_body env x mlen st =
       (if is_control (h_opcode h) then receive_control env st' h else receive_data_frame env x mlen st' h)"
    using receive_body_header [OF env] f at by (metis \<open>f = (h, p)\<close>)
  have len: "unat (h_payload_len h) = length p" using f by (simp add: frame_ok_def)
  show ?thesis
  proof (cases "is_control (h_opcode h)")
    case True
    then have "h_opcode h \<in> {OpCode.Ping, OpCode.Pong, OpCode.Close}" by (cases "h_opcode h") auto
    from control_refines [OF env len this st'(1)] st'(2) True show ?thesis by (simp add: spec_frame_def)
  next
    case False
    then show ?thesis using data_refines [OF env len st'(1)] st'(2) by (simp add: spec_frame_def)
  qed
qed

lemma receive_loop_refines:
  assumes env: "env_ok env inp outp"
  shows "list_all (frame_ok c) frames \<Longrightarrow>
    loop_at inp outp c mode limit d mlen st fo len msg (concat (map frame_wire frames) @ rest) out \<Longrightarrow>
    spec_receive limit mlen fo len msg frames = Some (r, msg', as, closed, left) \<Longrightarrow>
    \<exists>self' sh' bs stream' read_frames f. receive_loop env x mlen st = Some (r, self', sh', msg') \<and> answers_on_wire mode as bs \<and>
      recv_at inp outp c mode limit d self' sh' stream' (out @ bs) closed \<and> frames = read_frames @ f # left \<and>
      left_over d r (apply_mask (fst f) (snd f)) (concat (map frame_wire left) @ rest) stream'"
proof (induction frames arbitrary: st fo len msg out as)
  case (Cons f frames)
  let ?rest = "concat (map frame_wire frames) @ rest"
  have s: "step_refines env x inp outp c mode limit d mlen st out (apply_mask (fst f) (snd f)) ?rest (spec_frame limit mlen fo len msg f)"
    using Cons.prems by (intro frame_refines [OF env]) simp_all
  show ?case
  proof (cases "spec_frame limit mlen fo len msg f")
    case (Stop r2 msg2 as2 cl2)
    then show ?thesis using s Cons.prems(3) by (fastforce simp: step_refines_def)
  next
    case (Cont fo2 len2 msg2 as2)
    obtain st' bs where st': "receive_body env x mlen st = Some (Again st')" "answers_on_wire mode as2 bs"
      "loop_at inp outp c mode limit d mlen st' fo2 len2 msg2 ?rest (out @ bs)"
      using s Cont by (auto simp: step_refines_def)
    obtain as3 where as3: "as = as2 @ as3" "spec_receive limit mlen fo2 len2 msg2 frames = Some (r, msg', as3, closed, left)"
      using Cons.prems(3) Cont by (auto elim: answered_SomeE)
    obtain self' sh' bs' stream' read_frames g where "receive_loop env x mlen st' = Some (r, self', sh', msg')"
      "answers_on_wire mode as3 bs'" "recv_at inp outp c mode limit d self' sh' stream' ((out @ bs) @ bs') closed"
      "frames = read_frames @ g # left" "left_over d r (apply_mask (fst g) (snd g)) (concat (map frame_wire left) @ rest) stream'"
      using Cons.IH [OF _ st'(3) as3(2)] Cons.prems(1) by auto
    then show ?thesis using receive_loop_Again [OF st'(1)] answers_on_wire_append [OF st'(2)] as3(1)
      by (metis append.assoc append_Cons)
  qed
qed simp

end
