(* ===== verification/Connection_Safety.thy ===== *)
theory Connection_Safety
  imports Connection_Receive
begin

text \<open>
  What \<open>receive\<close> keeps to with any peer and any socket, well behaved or not: it returns once the input is
  used up, and it never delivers more than the size limit nor touches what the message buffer held.
\<close>

section \<open>Termination\<close>

text \<open>
  \<open>left_in w\<close> bounds the bytes that will still arrive: reading uses it up and nothing else adds to it.
  Reads and writes may fail in any way.
\<close>

definition finite_input :: "'w Env \<Rightarrow> ('w \<Rightarrow> nat) \<Rightarrow> bool" where
  "finite_input env left_in \<longleftrightarrow>
     (\<forall>w n bs w'. sock_read env w n = (Inr bs, w') \<longrightarrow> length bs + left_in w' \<le> left_in w) \<and>
     (\<forall>w n bs w'. sock_read_exact env w n = (Inr bs, w') \<longrightarrow> length bs = n \<and> n + left_in w' \<le> left_in w) \<and>
     (\<forall>w bs r w'. sock_write_all env w bs = (r, w') \<longrightarrow> left_in w' \<le> left_in w) \<and>
     (\<forall>w r w'. sock_flush env w = (r, w') \<longrightarrow> left_in w' \<le> left_in w) \<and>
     (\<forall>w r w'. sock_close env w = (r, w') \<longrightarrow> left_in w' \<le> left_in w) \<and>
     (\<forall>w m w'. random_u32 env w = (m, w') \<longrightarrow> left_in w' \<le> left_in w)"

lemma finite_inputD:
  assumes "finite_input env left_in"
  shows "sock_read env w n = (Inr bs, w') \<Longrightarrow> length bs + left_in w' \<le> left_in w"
    "sock_read_exact env w n = (Inr bs, w') \<Longrightarrow> length bs = n \<and> n + left_in w' \<le> left_in w"
    "sock_write_all env w ds = (r, w') \<Longrightarrow> left_in w' \<le> left_in w"
    "sock_flush env w = (r, w') \<Longrightarrow> left_in w' \<le> left_in w"
    "sock_close env w = (r, w') \<Longrightarrow> left_in w' \<le> left_in w"
    "random_u32 env w = (m, w') \<Longrightarrow> left_in w' \<le> left_in w"
  using assms unfolding finite_input_def by metis+

lemma receive_header_progress:
  "finite_input env left_in \<Longrightarrow> receive_header env codec buffer w = (Inr h, buffer', w') \<Longrightarrow>
    length buffer' + left_in w' < length buffer + left_in w"
proof (induction env codec buffer w rule: receive_header.induct)
  case (1 env codec buffer w)
  show ?case
  proof (cases "decode_header codec buffer")
    case (Inl e)
    then show ?thesis using "1.prems" by (simp add: receive_header.simps [of _ _ buffer])
  next
    case (Inr d)
    show ?thesis
    proof (cases d)
      case (Done hd offset)
      then have "offset \<le> length buffer" "0 < offset"
        using codec.decoded [of codec buffer hd offset] Inr by auto
      then show ?thesis using "1.prems" Inr Done by (auto simp: receive_header.simps [of _ _ buffer])
    next
      case (NeedMore n)
      obtain r w1 buffer1 where r: "read env w buffer n = (r, w1, buffer1)" by (cases "read env w buffer n") auto
      have "r = Inr ()" "receive_header env codec buffer1 w1 = (Inr h, buffer', w')"
        using "1.prems" Inr NeedMore r by (auto simp: receive_header.simps [of _ _ buffer] split: sum.splits)
      moreover have "length buffer1 + left_in w1 \<le> length buffer + left_in w" if "r = Inr ()"
        using r that "1.prems"(1) by (auto simp: read_def split: prod.splits sum.splits if_splits dest!: finite_inputD(1))
      moreover have "length buffer' + left_in w' < length buffer1 + left_in w1"
        using "1.IH" [OF Inr NeedMore r [symmetric] _ refl "1.prems"(1)] calculation by blast
      ultimately show ?thesis by linarith
    qed
  qed
qed

lemma write_all_progress:
  "finite_input env left_in \<Longrightarrow> write_all env w bs = (r, w') \<Longrightarrow> left_in w' \<le> left_in w"
  by (auto simp: write_all_def split: prod.splits sum.splits dest: finite_inputD(3))

lemma write_payload_progress:
  "finite_input env left_in \<Longrightarrow> write_payload env w h data mb = (r, w', data', mb') \<Longrightarrow> left_in w' \<le> left_in w"
  by (auto simp: write_payload_def Let_def split: prod.splits Storage.splits if_splits dest: write_all_progress)

lemma write_frame_progress:
  assumes fin: "finite_input env left_in" and ok: "codec_ok codec"
  obtains r codec' w' h' data' mb' where
    "write_frame env mode codec w h data mb = Some (r, codec', w', h', data', mb')" "codec_ok codec'" "left_in w' \<le> left_in w"
proof -
  obtain m w1 where m: "random_u32 env w = (m, w1)" by force
  let ?h = "sent_header mode m h (as_ref data)" and ?w = "if is_client mode then w1 else w"
  have w1: "left_in ?w \<le> left_in w" using finite_inputD(6) [OF fin m] by simp
  obtain buf where buf: "length buf = MAX_HEADER_SIZE" "encode_header codec ?h = Some (codec\<lparr>c_header_buffer := buf\<rparr>, header_bytes ?h)"
    using encode_header_bytes [OF ok] by blast
  obtain r w2 where w2: "write_all env ?w (header_bytes ?h) = (r, w2)" by force
  obtain r3 w3 data' mb' where w3: "write_payload env w2 ?h data mb = (r3, w3, data', mb')" by (metis prod.collapse)
  have l: "left_in w2 \<le> left_in w" "left_in w3 \<le> left_in w"
    using write_all_progress [OF fin w2] write_payload_progress [OF fin w3] w1 by auto
  have "write_frame env mode codec w h data mb = Some (case r of
      Inl e \<Rightarrow> (Inl e, codec\<lparr>c_header_buffer := buf\<rparr>, w2, ?h, data, mb)
    | Inr _ \<Rightarrow> (r3, codec\<lparr>c_header_buffer := buf\<rparr>, w3, ?h, data', mb'))"
    using buf w2 w3 m by (auto simp: write_frame_def sent_header_def model_defs split: sum.splits)
  then show ?thesis using l buf that by (cases r) (auto simp: codec_ok_def)
qed

lemma receiver_flush_progress:
  "finite_input env left_in \<Longrightarrow> receiver_flush env self w = (r, w') \<Longrightarrow> left_in w' \<le> left_in w"
  by (auto simp: receiver_flush_def split: prod.splits sum.splits if_splits dest: finite_inputD(4))

lemma on_control_progress:
  assumes fin: "finite_input env left_in" and ok: "codec_ok (r_codec self)"
  obtains r self' w' where "on_control env self w h = Some (r, self', w')" "left_in w' \<le> left_in w"
    "codec_ok (r_codec self')" "r_has_extensions self' = r_has_extensions self" "r_buffer self' = r_buffer self"
proof -
  have ping: "\<exists>r self' w'. on_ping env self w = Some (r, self', w') \<and> left_in w' \<le> left_in w \<and>
    codec_ok (r_codec self') \<and> r_has_extensions self' = r_has_extensions self \<and> r_buffer self' = r_buffer self"
    by (rule write_frame_progress [OF fin ok, of "r_mode self" w "header_new OpCode.Pong" "Unique (r_ctrl_buffer self)" "[]"])
      (force simp: on_ping_def Let_def split: sum.splits prod.splits dest: receiver_flush_progress [OF fin])
  have close: "\<exists>r self' w'. on_close env self w = Some (r, self', w') \<and> left_in w' \<le> left_in w \<and>
    codec_ok (r_codec self') \<and> r_has_extensions self' = r_has_extensions self \<and> r_buffer self' = r_buffer self"
  proof (cases "close_answer (r_ctrl_buffer self)")
    case (Inl e)
    then show ?thesis using ok by (simp add: on_close_def)
  next
    case (Inr a)
    obtain hd reason where [simp]: "a = (hd, reason)" by force
    let ?data = "case reason of Some cr \<Rightarrow> to_be_bytes 2 (cr_code cr) | None \<Rightarrow> []"
    show ?thesis
      by (rule write_frame_progress [OF fin ok, of "r_mode self" w hd "Unique ?data" "[]"])
        (force simp: on_close_def Let_def Inr split: sum.splits prod.splits dest: receiver_flush_progress [OF fin] finite_inputD(5) [OF fin])
  qed
  show ?thesis using ping close ok that by (cases "opcode h") (auto simp: on_control_def)
qed


lemma receive_control_progress:
  assumes fin: "finite_input env left_in" and ok: "codec_ok (r_codec (l_self st))"
  shows "\<exists>f. receive_control env st h = Some f \<and> (\<forall>st'. f = Again st' \<longrightarrow>
     codec_ok (r_codec (l_self st')) \<and> r_has_extensions (l_self st') = r_has_extensions (l_self st) \<and> l_message st' = l_message st \<and>
     length (r_buffer (l_self st')) + left_in (sh_world (l_shared st')) \<le>
       length (r_buffer (l_self st)) + left_in (sh_world (l_shared st)))"
proof -
  let ?self = "l_self st" and ?w = "sh_world (l_shared st)" and ?n = "unat (payload_len h)"
  obtain r buffer w where rb: "read_buffer env (r_buffer ?self) ?w h = (r, buffer, w)" by (metis prod.collapse)
  have len: "?n \<le> length buffer \<and> length buffer + left_in w \<le> length (r_buffer ?self) + left_in ?w" if "r = Inr ()"
    using rb that by (auto simp: read_buffer_def Let_def split: if_splits prod.splits sum.splits dest!: finite_inputD(2) [OF fin])
  let ?self1 = "?self\<lparr>r_ctrl_buffer := apply_mask h (take ?n buffer), r_buffer := drop ?n buffer\<rparr>"
  have ok1: "codec_ok (r_codec ?self1)" using ok by simp
  obtain r2 self' w' where oc: "on_control env ?self1 w h = Some (r2, self', w')" "left_in w' \<le> left_in w"
    "codec_ok (r_codec self')" "r_has_extensions self' = r_has_extensions ?self1" "r_buffer self' = r_buffer ?self1"
    using on_control_progress [OF fin ok1] by blast
  show ?thesis
  proof (cases r)
    case (Inl e)
    then show ?thesis using rb by (simp add: receive_control_def)
  next
    case (Inr u)
    moreover have "length (r_buffer self') + left_in w' \<le> length (r_buffer ?self) + left_in ?w" if "r = Inr ()"
      using len [OF that] oc(2,5) by auto
    ultimately show ?thesis using rb len oc ok
      by (simp add: receive_control_def Let_def split: sum.splits option.splits)
  qed
qed

text \<open>An extension may make the message shorter, which only matters when the buffer was not empty before.\<close>

lemma decode_step_progress:
  assumes "decode_step x st h = (r, st')" "r_has_extensions (l_self st) \<longrightarrow> mlen = 0" "mlen \<le> length (l_message st)"
  shows "l_self st' = l_self st \<and> sh_world (l_shared st') = sh_world (l_shared st) \<and> mlen \<le> length (l_message st')"
  using assms by (auto simp: decode_step_def decode_with_extensions_def split: prod.splits if_splits)

lemma dispatch_progress:
  assumes ok: "r_has_extensions (l_self st) \<longrightarrow> mlen = 0" "mlen \<le> length (l_message st)"
  shows "\<exists>f. dispatch x mlen st h = Some f \<and> (\<forall>st'. f = Again st' \<longrightarrow>
     l_self st' = l_self st \<and> sh_world (l_shared st') = sh_world (l_shared st) \<and> mlen \<le> length (l_message st'))"
proof -
  let ?first = "st\<lparr>l_first_fragment_opcode := Some (opcode h)\<rparr>" and ?final = "st\<lparr>l_first_fragment_opcode := None\<rparr>"
  let ?h = "set_payload_len h (of_nat (length (l_message st)))"
  obtain r1 st1 r2 st2 r3 st3 where d: "decode_step x ?first h = (r1, st1)" "decode_step x ?final ?h = (r2, st2)" "decode_step x st h = (r3, st3)"
    by (metis prod.collapse)
  have l: "l_self st1 = l_self st" "sh_world (l_shared st1) = sh_world (l_shared st)" "mlen \<le> length (l_message st1)"
    "mlen \<le> length (l_message st2)" "mlen \<le> length (l_message st3)"
    using decode_step_progress [OF d(1), of mlen] decode_step_progress [OF d(2), of mlen] decode_step_progress [OF d(3), of mlen] ok by simp_all
  have deliver: "mlen \<le> length (l_message st) \<Longrightarrow> \<exists>y. deliver mlen st oc = Some (Return y)" for st :: "('a, 'b) Loop" and oc
    by (auto simp: deliver_def Let_def)
  show ?thesis using ok(2) l deliver [OF l(4)] deliver [OF l(5)]
    by (cases "is_fin h"; cases "opcode h = OpCode.Continue"; cases "l_first_fragment_opcode st"; cases r1; cases r2; cases r3)
       (auto simp: dispatch_def d Let_def)
qed

lemma read_payload_progress:
  assumes fin: "finite_input env left_in" and "read_payload env h msg buffer w = (Inr u, msg', buffer', w')"
  shows "length buffer' + left_in w' \<le> length buffer + left_in w \<and> length msg \<le> length msg'"
  using assms(2) by (auto simp: read_payload_def Let_def split: if_splits prod.splits sum.splits dest!: finite_inputD(2) [OF fin])

lemma receive_data_frame_progress:
  assumes fin: "finite_input env left_in" and ok: "r_has_extensions (l_self st) \<longrightarrow> mlen = 0" "mlen \<le> length (l_message st)"
  shows "\<exists>f. receive_data_frame env x mlen st h = Some f \<and> (\<forall>st'. f = Again st' \<longrightarrow>
     r_codec (l_self st') = r_codec (l_self st) \<and> r_has_extensions (l_self st') = r_has_extensions (l_self st) \<and> mlen \<le> length (l_message st') \<and>
     length (r_buffer (l_self st')) + left_in (sh_world (l_shared st')) \<le>
       length (r_buffer (l_self st)) + left_in (sh_world (l_shared st)))"
proof (cases "saturating_add (l_length st) (payload_len h) > r_max_message_size (l_self st)")
  case True
  then show ?thesis by (auto simp: receive_data_frame_def Let_def split: prod.splits)
next
  case False
  obtain r msg buffer w where rp:
    "read_payload env h (l_message st) (r_buffer (l_self st)) (sh_world (l_shared st)) = (r, msg, buffer, w)" by (metis prod.collapse)
  let ?st = "st\<lparr>l_length := saturating_add (l_length st) (payload_len h), l_self := (l_self st)\<lparr>r_buffer := buffer\<rparr>,
    l_shared := (l_shared st)\<lparr>sh_world := w\<rparr>, l_message := msg\<rparr>"
  have eq: "receive_data_frame env x mlen st h =
      (case r of Inl e \<Rightarrow> Some (return_with ?st (Inl e)) | Inr _ \<Rightarrow> dispatch x mlen ?st h)"
    using False rp by (simp add: receive_data_frame_def Let_def)
  show ?thesis
  proof (cases r)
    case (Inr u)
    then have "length buffer + left_in w \<le> length (r_buffer (l_self st)) + left_in (sh_world (l_shared st))"
      "length (l_message st) \<le> length msg" using read_payload_progress [OF fin] rp by blast+
    then show ?thesis using dispatch_progress [of ?st mlen x h] ok Inr eq by fastforce
  qed (simp add: eq)
qed

lemma receive_loop_returns:
  assumes fin: "finite_input env left_in"
  shows "codec_ok (r_codec (l_self st)) \<Longrightarrow> r_has_extensions (l_self st) \<longrightarrow> mlen = 0 \<Longrightarrow> mlen \<le> length (l_message st) \<Longrightarrow>
    \<exists>y. receive_loop env x mlen st = Some y"
proof (induction "length (r_buffer (l_self st)) + left_in (sh_world (l_shared st))" arbitrary: st rule: less_induct)
  case less
  let ?self = "(l_self st)\<lparr>r_ctrl_buffer := []\<rparr>" and ?sh = "l_shared st"
  obtain r buffer w where rh: "receive_header env (r_codec ?self) (r_buffer ?self) (sh_world ?sh) = (r, buffer, w)"
    by (metis prod.collapse)
  let ?st = "st\<lparr>l_self := ?self\<lparr>r_buffer := buffer\<rparr>, l_shared := ?sh\<lparr>sh_world := w\<rparr>\<rparr>"
  show ?case
  proof (cases "r_is_closed (l_self st) \<or> (\<exists>e. r = Inl e)")
    case True
    then show ?thesis using rh by (auto simp: receive_loop.simps [of _ _ _ st] receive_body_def Let_def)
  next
    case False
    then obtain h where h: "r = Inr h" by (cases r) auto
    have lt: "length buffer + left_in w < length (r_buffer (l_self st)) + left_in (sh_world ?sh)"
      using receive_header_progress [OF fin] rh h by simp
    obtain f where f: "receive_body env x mlen st = Some f" "\<forall>st'. f = Again st' \<longrightarrow>
       codec_ok (r_codec (l_self st')) \<and> (r_has_extensions (l_self st') \<longrightarrow> mlen = 0) \<and> mlen \<le> length (l_message st') \<and>
       length (r_buffer (l_self st')) + left_in (sh_world (l_shared st')) \<le> length buffer + left_in w"
      using receive_control_progress [OF fin, of ?st h] receive_data_frame_progress [OF fin, of ?st mlen x h]
        False rh h less.prems by (cases "is_control (opcode h)") (auto simp: receive_body_def Let_def)
    show ?thesis
    proof (cases f)
      case (Again st')
      then show ?thesis using less.hyps [of st'] f lt by (auto simp: receive_loop_Again)
    qed (use f receive_loop_Return in blast)
  qed
qed

lemma unat_saturating_add: "unat (saturating_add a b) = min (unat a + unat b) (2 ^ 64 - 1)"
proof (cases "unat a + unat b < 2 ^ 64")
  case True
  then have "unat (a + b) = unat a + unat b" by (simp add: unat_word_ariths)
  then show ?thesis using True by (simp add: saturating_add_def)
next
  case False
  then show ?thesis by (simp add: saturating_add_def unsigned_minus_1_eq_mask mask_eq_exp_minus_1)
qed

section \<open>The size limit\<close>

text \<open>The state of the loop between frames, for a message that began as \<open>m\<close>.\<close>

definition bounded_loop :: "usize \<Rightarrow> bytes \<Rightarrow> ('w, 'e) Loop \<Rightarrow> bool" where
  "bounded_loop limit m st \<longleftrightarrow> \<not> r_has_extensions (l_self st) \<and> r_max_message_size (l_self st) = limit \<and>
     (\<exists>p. l_message st = m @ p \<and> length p = unat (l_length st)) \<and> l_length st \<le> limit"

definition bounded_result :: "usize \<Rightarrow> bytes \<Rightarrow> ('w, 'e) received \<Rightarrow> bool" where
  "bounded_result limit m y \<longleftrightarrow> (case y of (r, self, sh, m') \<Rightarrow>
     \<exists>p. m' = m @ p \<and> (\<forall>d. r = Inr (Incoming.Data d) \<longrightarrow> data_len d = length p \<and> length p \<le> unat limit))"

fun bounded_flow :: "usize \<Rightarrow> bytes \<Rightarrow> (('w, 'e) Loop, ('w, 'e) received) flow \<Rightarrow> bool" where
  "bounded_flow limit m (Again st) = bounded_loop limit m st"
| "bounded_flow limit m (Return y) = bounded_result limit m y"

lemma write_frame_receiver:
  "on_control env self w h = Some (r, self', w') \<Longrightarrow>
    r_has_extensions self' = r_has_extensions self \<and> r_max_message_size self' = r_max_message_size self"
  by (auto simp: on_control_def on_ping_def on_close_def Let_def split: OpCode.splits sum.splits prod.splits bind_splits)

lemma receive_control_bounded:
  assumes "bounded_loop limit m st" "receive_control env st h = Some f"
  shows "bounded_flow limit m f"
proof -
  obtain r buffer w where rb: "read_buffer env (r_buffer (l_self st)) (sh_world (l_shared st)) h = (r, buffer, w)" by (metis prod.collapse)
  show ?thesis using assms rb
    by (cases r) (auto simp: receive_control_def Let_def bounded_loop_def bounded_result_def
        split: if_splits bind_splits sum.splits option.splits dest!: write_frame_receiver)
qed

lemma read_payload_appends:
  assumes "source_ok env inp outp" "read_payload env h msg buffer w = (r, msg', buffer', w')"
  shows "\<exists>q. msg' = msg @ q \<and> (r = Inr () \<longrightarrow> length q = unat (h_payload_len h))"
proof -
  have "length bs = n" if "sock_read_exact env w n = (Inr bs, w')" for n bs w'
    using assms(1) that unfolding source_ok_def by blast
  then show ?thesis using assms(2)
    by (auto simp: read_payload_def Let_def model_defs apply_mask_def split: if_splits prod.splits sum.splits)
qed

lemma dispatch_bounded:
  assumes "bounded_loop limit m st" "dispatch x (length m) st h = Some f"
  shows "bounded_flow limit m f"
proof -
  obtain p where p: "l_message st = m @ p" "length p = unat (l_length st)" "\<not> r_has_extensions (l_self st)"
    "l_length st \<le> limit" "r_max_message_size (l_self st) = limit"
    using assms(1) by (auto simp: bounded_loop_def)
  then have "length p \<le> unat limit" by (simp add: word_le_nat_alt)
  then show ?thesis using assms(2) p
    by (auto simp: dispatch_def deliver_def Let_def bounded_result_def bounded_loop_def split: if_splits option.splits)
qed

lemma receive_data_frame_bounded:
  assumes src: "source_ok env inp outp" and lim: "limit < - 1" and at: "bounded_loop limit m st"
    and f: "receive_data_frame env x (length m) st h = Some f"
  shows "bounded_flow limit m f"
proof (cases "saturating_add (l_length st) (payload_len h) > limit")
  case True
  then show ?thesis using at f
    by (auto simp: receive_data_frame_def Let_def bounded_result_def bounded_loop_def split: prod.splits)
next
  case False
  let ?len = "saturating_add (l_length st) (payload_len h)"
  obtain r msg buffer w where rp:
    "read_payload env h (l_message st) (r_buffer (l_self st)) (sh_world (l_shared st)) = (r, msg, buffer, w)" by (metis prod.collapse)
  then obtain q where q: "msg = l_message st @ q" "r = Inr () \<Longrightarrow> length q = unat (h_payload_len h)"
    using read_payload_appends [OF src] by blast
  have "unat ?len = unat (l_length st) + unat (h_payload_len h)"
  proof (rule ccontr)
    assume "\<not> ?thesis"
    then have "unat ?len = 2 ^ 64 - 1" by (simp add: unat_saturating_add model_defs)
    moreover have "unat limit < 2 ^ 64 - 1"
      using lim by (simp add: word_less_nat_alt unsigned_minus_1_eq_mask mask_eq_exp_minus_1)
    ultimately show False using False by (simp add: word_less_nat_alt)
  qed
  moreover obtain p where "l_message st = m @ p" "length p = unat (l_length st)"
    using at by (auto simp: bounded_loop_def)
  ultimately show ?thesis using False f rp q at
    by (cases r) (auto simp: receive_data_frame_def Let_def bounded_loop_def bounded_result_def
        elim!: dispatch_bounded [rotated])
qed

lemma receive_body_bounded:
  assumes "source_ok env inp outp" "limit < - 1" "bounded_loop limit m st" "receive_body env x (length m) st = Some f"
  shows "bounded_flow limit m f"
proof -
  obtain r buffer w where rh:
    "receive_header env (r_codec (l_self st)) (r_buffer (l_self st)) (sh_world (l_shared st)) = (r, buffer, w)" by (metis prod.collapse)
  let ?st = "st\<lparr>l_self := (l_self st)\<lparr>r_ctrl_buffer := [], r_buffer := buffer\<rparr>, l_shared := (l_shared st)\<lparr>sh_world := w\<rparr>\<rparr>"
  have "bounded_loop limit m ?st" using assms(3) by (simp add: bounded_loop_def)
  then show ?thesis
    using assms(3,4) rh receive_control_bounded [of limit m ?st] receive_data_frame_bounded [OF assms(1,2), of m ?st]
    by (cases r) (auto simp: receive_body_def Let_def bounded_loop_def bounded_result_def split: if_splits)
qed

lemma receive_loop_induct [consumes 1, case_names return again]:
  assumes "receive_loop env x mlen st = Some y"
    and ret: "\<And>st y. receive_body env x mlen st = Some (Return y) \<Longrightarrow> P st y"
    and again: "\<And>st st' y. receive_body env x mlen st = Some (Again st') \<Longrightarrow> P st' y \<Longrightarrow> P st y"
  shows "P st y"
proof -
  let ?P = "\<lambda>env' x' mlen' st y. env' = env \<longrightarrow> x' = x \<longrightarrow> mlen' = mlen \<longrightarrow> P st y"
  have "?P env x mlen st y"
    by (rule receive_loop.raw_induct [of ?P "(((env, x), mlen), st)" y, simplified prod.case])
       (use assms(1) in \<open>auto split: bind_splits flow.splits intro: ret again\<close>)
  then show ?thesis by simp
qed

lemma receive_loop_bounded:
  assumes "source_ok env inp outp" "limit < - 1"
  shows "receive_loop env x (length m) st = Some y \<Longrightarrow> bounded_loop limit m st \<Longrightarrow> bounded_result limit m y"
  by (induction rule: receive_loop_induct) (use receive_body_bounded [OF assms] in force)+

section \<open>Progress\<close>

text \<open>What is left to read: the bytes in the buffer and those that may still arrive.\<close>

definition still_in :: "('w \<Rightarrow> nat) \<Rightarrow> Receiver \<Rightarrow> ('w, 'e) Shared \<Rightarrow> nat" where
  "still_in left_in self sh = length (r_buffer self) + left_in (sh_world sh)"

definition plain :: "Receiver \<Rightarrow> bool" where
  "plain self \<longleftrightarrow> codec_ok (r_codec self) \<and> \<not> r_has_extensions self"

fun flow_within :: "('w \<Rightarrow> nat) \<Rightarrow> nat \<Rightarrow> (('w, 'e) Loop, ('w, 'e) received) flow \<Rightarrow> bool" where
  "flow_within left_in n (Again st) \<longleftrightarrow> plain (l_self st) \<and> still_in left_in (l_self st) (l_shared st) < n"
| "flow_within left_in n (Return (Inl e, self, sh, m)) \<longleftrightarrow> True"
| "flow_within left_in n (Return (Inr i, self, sh, m)) \<longleftrightarrow> plain self \<and> still_in left_in self sh < n \<and>
     (case i of Incoming.Closed cr \<Rightarrow> r_is_closed self | _ \<Rightarrow> True)"

lemma flow_within_mono: "flow_within left_in n f \<Longrightarrow> n \<le> m \<Longrightarrow> flow_within left_in m f"
  by (cases "(left_in, n, f)" rule: flow_within.cases) auto

lemma on_control_closes: "on_control env self w h = Some (Inr (Some cr), self', w') \<Longrightarrow> r_is_closed self'"
  by (auto simp: on_control_def on_ping_def on_close_def Let_def split: OpCode.splits sum.splits prod.splits bind_splits)

lemma receive_control_within:
  assumes fin: "finite_input env left_in" and ok: "plain (l_self st)" and f: "receive_control env st h = Some f"
  shows "flow_within left_in (Suc (still_in left_in (l_self st) (l_shared st))) f"
proof -
  let ?self = "l_self st" and ?w = "sh_world (l_shared st)" and ?n = "unat (payload_len h)"
  obtain r buffer w where rb: "read_buffer env (r_buffer ?self) ?w h = (r, buffer, w)" by (metis prod.collapse)
  show ?thesis
  proof (cases r)
    case (Inl e)
    then show ?thesis using f rb by (auto simp: receive_control_def)
  next
    case (Inr u)
    then have len: "length buffer + left_in w \<le> length (r_buffer ?self) + left_in ?w"
      using rb by (auto simp: read_buffer_def Let_def split: if_splits prod.splits sum.splits dest!: finite_inputD(2) [OF fin])
    let ?self1 = "?self\<lparr>r_ctrl_buffer := apply_mask h (take ?n buffer), r_buffer := drop ?n buffer\<rparr>"
    have ok1: "codec_ok (r_codec ?self1)" using ok by (simp add: plain_def)
    obtain r2 self' w' where oc: "on_control env ?self1 w h = Some (r2, self', w')" "left_in w' \<le> left_in w"
      "codec_ok (r_codec self')" "r_has_extensions self' = r_has_extensions ?self1" "r_buffer self' = r_buffer ?self1"
      using on_control_progress [OF fin ok1] by blast
    then show ?thesis using f rb Inr len ok on_control_closes [of env ?self1 w h _ self' w']
      by (auto simp: receive_control_def Let_def still_in_def plain_def split: if_splits sum.splits option.splits)
  qed
qed

lemma receive_data_frame_within:
  assumes fin: "finite_input env left_in" and ok: "plain (l_self st)" and f: "receive_data_frame env x mlen st h = Some f"
  shows "flow_within left_in (Suc (still_in left_in (l_self st) (l_shared st))) f"
proof -
  obtain r msg buffer w where rp:
    "read_payload env h (l_message st) (r_buffer (l_self st)) (sh_world (l_shared st)) = (r, msg, buffer, w)" by (metis prod.collapse)
  have dsp: "flow_within left_in n f" if "dispatch x mlen st' h = Some f" "plain (l_self st')" "still_in left_in (l_self st') (l_shared st') < n" for st' n
    using that by (auto simp: dispatch_def deliver_def Let_def plain_def split: if_splits option.splits)
  show ?thesis
  proof (cases r)
    case (Inl e)
    then show ?thesis using f rp by (auto simp: receive_data_frame_def Let_def split: if_splits prod.splits sum.splits)
  next
    case (Inr u)
    then have "length buffer + left_in w \<le> length (r_buffer (l_self st)) + left_in (sh_world (l_shared st))"
      using read_payload_progress [OF fin] rp by blast
    then show ?thesis using f rp Inr ok
      by (auto simp: receive_data_frame_def Let_def plain_def still_in_def intro!: dsp split: if_splits prod.splits sum.splits)
  qed
qed

lemma receive_body_within:
  assumes fin: "finite_input env left_in" and ok: "plain (l_self st)" and f: "receive_body env x mlen st = Some f"
  shows "flow_within left_in (still_in left_in (l_self st) (l_shared st)) f"
proof (cases "r_is_closed (l_self st)")
  case True
  then show ?thesis using f by (auto simp: receive_body_def)
next
  case False
  obtain r buffer w where rh: "receive_header env (r_codec (l_self st)) (r_buffer (l_self st)) (sh_world (l_shared st)) = (r, buffer, w)"
    by (metis prod.collapse)
  let ?st = "st\<lparr>l_self := (l_self st)\<lparr>r_ctrl_buffer := [], r_buffer := buffer\<rparr>, l_shared := (l_shared st)\<lparr>sh_world := w\<rparr>\<rparr>"
  have ok': "plain (l_self ?st)" using ok by (simp add: plain_def)
  show ?thesis
  proof (cases r)
    case (Inl e)
    then show ?thesis using f False rh by (auto simp: receive_body_def Let_def)
  next
    case (Inr h)
    then have "still_in left_in (l_self ?st) (l_shared ?st) < still_in left_in (l_self st) (l_shared st)"
      using receive_header_progress [OF fin] rh by (simp add: still_in_def)
    moreover have "flow_within left_in (Suc (still_in left_in (l_self ?st) (l_shared ?st))) f"
      using f False rh Inr receive_control_within [OF fin ok', of h f] receive_data_frame_within [OF fin ok', of x mlen h f]
      by (simp add: receive_body_def Let_def split: if_splits)
    ultimately show ?thesis by (simp add: flow_within_mono)
  qed
qed

lemma receive_within:
  assumes fin: "finite_input env left_in" and ok: "plain self" and r: "receive env x self sh message = Some y"
  shows "flow_within left_in (still_in left_in self sh) (Return y)"
proof -
  let ?st = "\<lparr>l_first_fragment_opcode = None, l_length = 0, l_self = self, l_shared = sh, l_message = message\<rparr>"
  have "receive_loop env x (length message) ?st = Some y" using r by (simp add: receive_def)
  then have "plain (l_self ?st) \<Longrightarrow> flow_within left_in (still_in left_in (l_self ?st) (l_shared ?st)) (Return y)"
  proof (induction rule: receive_loop_induct)
    case (return st y)
    then show ?case using receive_body_within [OF fin] by blast
  next
    case (again st st' y)
    then have "plain (l_self st')" "still_in left_in (l_self st') (l_shared st') < still_in left_in (l_self st) (l_shared st)"
      using receive_body_within [OF fin again.prems again.hyps(1)] by auto
    then show ?case using again.IH by (simp add: flow_within_mono)
  qed
  then show ?thesis using ok by simp
qed

lemma receive_when_closed: "r_is_closed self \<Longrightarrow> receive env x self sh message = Some (Inl conn_Error.Closed, self, sh, message)"
  by (simp add: receive_def receive_loop.simps [of _ _ _ "\<lparr>l_first_fragment_opcode = _, l_length = _, l_self = _, l_shared = _, l_message = _\<rparr>"]
      receive_body_def)

lemma receive_data_within:
  assumes fin: "finite_input env left_in"
  shows "plain self \<Longrightarrow> \<exists>r self' sh' message'. receive_data env x self sh message = Some (r, self', sh', message') \<and>
    (\<forall>d. r = Inr d \<longrightarrow> plain self' \<and> still_in left_in self' sh' < still_in left_in self sh)"
proof (induction "still_in left_in self sh" arbitrary: self sh message rule: less_induct)
  case less
  have c: "codec_ok (r_codec self)" "\<not> r_has_extensions self" using less.prems by (simp_all add: plain_def)
  obtain r1 self1 sh1 msg1 where k: "receive env x self sh message = Some (r1, self1, sh1, msg1)"
    using receive_loop_returns [OF fin, of "\<lparr>l_first_fragment_opcode = None, l_length = 0, l_self = self, l_shared = sh, l_message = message\<rparr>"
        "length message" x] c by (auto simp: receive_def)
  note w = receive_within [OF fin less.prems k]
  note rd = receive_data.simps [of env x self sh message]
  show ?case
  proof (cases r1)
    case (Inl e)
    then show ?thesis using k by (simp add: rd)
  next
    case (Inr i)
    show ?thesis
    proof (cases i)
      case (Data d)
      then show ?thesis using k w Inr by (simp add: rd)
    next
      case (Pong p)
      then show ?thesis using k w Inr less.hyps [of self1 sh1 msg1] by (fastforce simp: rd)
    next
      case (Closed cr)
      then show ?thesis using k w Inr
        by (simp add: rd receive_data.simps [of env x self1] receive_when_closed)
    qed
  qed
qed

end
