(* ===== verification/Receiver_Props.thy ===== *)
theory Receiver_Props
  imports Connection_Safety Memory_Socket
begin

text \<open>
  The properties of the receiving half: from the refinement theorem by evaluating the specification, and
  from the safety lemmas.
\<close>

section \<open>The specification on whole messages\<close>

lemma receive_ok:
  assumes "env_ok env inp outp" "list_all (frame_ok c) frames"
    "recv_at inp outp c mode limit d self sh (concat (map frame_wire frames) @ rest) out False"
    "spec_receive limit (length message) None 0 message frames = Some (r, message', as, closed, left)"
  shows "\<exists>self' sh' bs stream' read_frames f. receive env x self sh message = Some (r, self', sh', message') \<and>
    answers_on_wire mode as bs \<and> recv_at inp outp c mode limit d self' sh' stream' (out @ bs) closed \<and>
    frames = read_frames @ f # left \<and>
    left_over d r (apply_mask (fst f) (snd f)) (concat (map frame_wire left) @ rest) stream'"
  unfolding receive_def
  by (rule receive_loop_refines [OF assms(1,2) _ assms(4), where out = out]) (simp add: loop_at_def assms(3))

text \<open>A frame of a fragmented message after its first, or a ping in between.\<close>

definition middle_frame :: "frame \<Rightarrow> bool" where
  "middle_frame f \<longleftrightarrow> h_opcode (fst f) = OpCode.Ping \<or> h_opcode (fst f) = OpCode.Continue \<and> \<not> h_fin (fst f)"

definition pings :: "frame list \<Rightarrow> bytes list" where
  "pings fs = map snd (filter (\<lambda>f. h_opcode (fst f) = OpCode.Ping) fs)"

definition fragments :: "frame list \<Rightarrow> bytes" where
  "fragments fs = concat (map snd (filter (\<lambda>f. h_opcode (fst f) \<noteq> OpCode.Ping) fs))"

lemma pings_simps [simp]:
  "pings [] = []" "pings (f # fs) = (if h_opcode (fst f) = OpCode.Ping then [snd f] else []) @ pings fs"
  "fragments [] = []" "fragments (f # fs) = (if h_opcode (fst f) = OpCode.Ping then [] else snd f) @ fragments fs"
  by (simp_all add: pings_def fragments_def)

definition data_result :: "OpCode \<Rightarrow> nat \<Rightarrow> conn_Error + Incoming" where
  "data_result oc n = Inr (Incoming.Data (if oc = OpCode.Text then Data.Text n else Data.Binary n))"

lemma spec_middle:
  assumes "list_all middle_frame fs" "list_all (frame_ok c) fs" "unat len + length (fragments fs) \<le> unat limit"
  shows "\<exists>len'. unat len' = unat len + length (fragments fs) \<and>
    spec_receive limit mlen (Some oc) len msg (fs @ rest) =
     answered (map (Pair OpCode.Pong) (pings fs))
       (spec_receive limit mlen (Some oc) len' (msg @ fragments fs) rest)"
  using assms
proof (induction fs arbitrary: len msg)
  case Nil
  then show ?case by auto
next
  case (Cons f fs)
  show ?case
  proof (cases "h_opcode (fst f) = OpCode.Ping")
    case True
    then have "spec_frame limit mlen (Some oc) len msg f = Cont (Some oc) len msg [(OpCode.Pong, snd f)]"
      by (simp add: spec_frame_def spec_control_def)
    then show ?thesis using Cons.IH [of len msg] Cons.prems True
      by (auto)
  next
    case False
    let ?len = "saturating_add len (h_payload_len (fst f))"
    have l: "unat ?len = unat len + length (snd f)"
      using Cons.prems False unsigned_less [of limit, where ?'a = nat] by (simp add: unat_saturating_add frame_ok_def)
    then have "spec_frame limit mlen (Some oc) len msg f = Cont (Some oc) ?len (msg @ snd f) []"
      using Cons.prems False by (simp add: middle_frame_def spec_frame_def spec_data_def Let_def word_less_nat_alt)
    moreover obtain len' where "unat len' = unat ?len + length (fragments fs)"
      "spec_receive limit mlen (Some oc) ?len (msg @ snd f) (fs @ rest) =
       answered (map (Pair OpCode.Pong) (pings fs))
         (spec_receive limit mlen (Some oc) len' ((msg @ snd f) @ fragments fs) rest)"
      using Cons.IH [of ?len "msg @ snd f"] Cons.prems False l by auto
    ultimately show ?thesis using False l
      by (intro exI [of _ len']) simp
  qed
qed

lemma spec_fragmented:
  assumes "list_all (frame_ok c) (first # fs @ [final])" "list_all middle_frame fs"
    "\<not> h_fin (fst first)" "h_opcode (fst first) = oc" "\<not> is_control oc" "oc \<noteq> OpCode.Continue"
    "h_fin (fst final)" "h_opcode (fst final) = OpCode.Continue"
    "length (snd first @ fragments fs @ snd final) \<le> unat limit"
  shows "spec_receive limit (length msg) None 0 msg (first # fs @ final # left) =
    Some (data_result oc (length (snd first @ fragments fs @ snd final)), msg @ snd first @ fragments fs @ snd final,
      map (Pair OpCode.Pong) (pings fs), False, left)"
proof -
  let ?len = "saturating_add 0 (h_payload_len (fst first))"
  have lim: "unat limit < 2 ^ 64" using unsigned_less [of limit, where ?'a = nat] by simp
  have l: "unat ?len = length (snd first)" using assms lim by (simp add: unat_saturating_add frame_ok_def)
  have f: "spec_frame limit (length msg) None 0 msg first = Cont (Some oc) ?len (msg @ snd first) []"
    using assms l by (simp add: spec_frame_def spec_data_def Let_def word_less_nat_alt)
  obtain len' where len': "unat len' = unat ?len + length (fragments fs)"
    "spec_receive limit (length msg) (Some oc) ?len (msg @ snd first) (fs @ final # left) =
     answered (map (Pair OpCode.Pong) (pings fs))
       (spec_receive limit (length msg) (Some oc) len' ((msg @ snd first) @ fragments fs) (final # left))"
    using spec_middle [of fs c ?len limit "length msg" oc "msg @ snd first" "final # left"] assms l by auto
  have "unat (saturating_add len' (h_payload_len (fst final))) = length (snd first) + length (fragments fs) + length (snd final)"
    using assms l lim len'(1) by (simp add: unat_saturating_add frame_ok_def)
  then have "spec_frame limit (length msg) (Some oc) len' ((msg @ snd first) @ fragments fs) final =
     Stop (data_result oc (length (snd first @ fragments fs @ snd final))) (msg @ snd first @ fragments fs @ snd final) [] False"
    using assms by (simp add: spec_frame_def spec_data_def Let_def word_less_nat_alt spec_message_def data_result_def)
  then show ?thesis using f len'(2) by simp
qed

section \<open>The end of the input\<close>

lemma receive_header_eof:
  assumes env: "env_ok env inp outp" and wf: "wf_header codec h"
  shows "header_bytes h = (buffer @ inp w) @ q \<Longrightarrow> q \<noteq> [] \<Longrightarrow>
    \<exists>buffer' w'. receive_header env codec buffer w = (Inl conn_Error.Closed, buffer', w')"
proof (induction "MAX_HEADER_SIZE - length buffer" arbitrary: buffer w rule: less_induct)
  case less
  from less.prems obtain n where n: "0 < n" "decode_header codec buffer = Inr (NeedMore n)"
    using codec.strict_prefix_decode [OF wf, of buffer "inp w @ q"] by auto
  show ?case
  proof (cases "inp w = []")
    case True
    then show ?thesis using read_reliable [OF env_okD(1,2) [OF env] n(1), of w buffer]
      by (auto simp: receive_header.simps [of _ _ buffer] n(2) from_io_def)
  next
    case False
    then obtain w1 bs where r: "read env w buffer n = (Inr (), w1, buffer @ bs)" "bs \<noteq> []" "bs @ inp w1 = inp w"
      using read_reliable [OF env_okD(1,2) [OF env] n(1), of w buffer] by auto
    have "MAX_HEADER_SIZE - length (buffer @ bs) < MAX_HEADER_SIZE - length buffer"
      using codec.need_more [OF n(2)] r(2) by (cases bs) auto
    then obtain buffer' w' where "receive_header env codec (buffer @ bs) w1 = (Inl conn_Error.Closed, buffer', w')"
      using less.hyps [of "buffer @ bs" w1] less.prems r(3) by auto
    then show ?thesis by (simp add: receive_header.simps [of _ _ buffer] n(2) r)
  qed
qed

lemma receive_loop_eof:
  assumes env: "env_ok env inp outp" and wf: "wf_header c h" "header_bytes h = part @ q" "q \<noteq> []"
  shows "list_all (frame_ok c) frames \<Longrightarrow>
    loop_at inp outp c mode limit d mlen st fo len msg (concat (map frame_wire frames) @ part) out \<Longrightarrow>
    spec_receive limit mlen fo len msg frames = None \<Longrightarrow>
    \<exists>self' sh' msg'. receive_loop env x mlen st = Some (Inl conn_Error.Closed, self', sh', msg')"
proof (induction frames arbitrary: st fo len msg out)
  case Nil
  have "wf_header (r_codec (l_self st)) h" using Nil.prems(2) wf(1) by (auto simp: loop_at_def recv_at_def)
  then obtain buffer' w' where "receive_header env (r_codec (l_self st)) (r_buffer (l_self st)) (sh_world (l_shared st)) =
      (Inl conn_Error.Closed, buffer', w')"
    using receive_header_eof [OF env] Nil.prems(2) wf by (force simp: loop_at_def recv_at_def)
  then show ?case using Nil.prems(2)
    by (simp add: receive_loop.simps [of _ _ _ st] receive_body_def Let_def loop_at_def recv_at_def)
next
  case (Cons f frames)
  have s: "step_refines env x inp outp c mode limit d mlen st out (apply_mask (fst f) (snd f)) (concat (map frame_wire frames) @ part)
      (spec_frame limit mlen fo len msg f)"
    using Cons.prems by (intro frame_refines [OF env]) simp_all
  obtain fo2 len2 msg2 as2 where "spec_frame limit mlen fo len msg f = Cont fo2 len2 msg2 as2"
    "spec_receive limit mlen fo2 len2 msg2 frames = None"
    using Cons.prems(3) by (auto simp: answered_def split: spec_step.splits)
  moreover from this obtain st' bs where "receive_body env x mlen st = Some (Again st')"
      "loop_at inp outp c mode limit d mlen st' fo2 len2 msg2 (concat (map frame_wire frames) @ part) (out @ bs)"
    using s by (auto simp: step_refines_def)
  ultimately show ?case using Cons.IH Cons.prems(1) by (simp add: receive_loop_Again)
qed

lemma receive_ok_rest:
  assumes "env_ok env inp outp" "list_all (frame_ok c) frames"
    "recv_at inp outp c mode limit d self sh (concat (map frame_wire frames) @ rest) out False"
    "spec_receive limit (length message) None 0 message frames = Some (r, message', as, closed, left)" "\<not> too_large r"
  shows "\<exists>self' sh' bs. receive env x self sh message = Some (r, self', sh', message') \<and> answers_on_wire mode as bs \<and>
    recv_at inp outp c mode limit d self' sh' (concat (map frame_wire left) @ rest) (out @ bs) closed"
  using receive_ok [OF assms(1-4)] left_over_rest [OF assms(5)] by metis

lemma saturating_add_0 [simp]: "saturating_add 0 b = b"
  using unsigned_less [of b, where ?'a = nat] by (simp add: saturating_add_def)

lemma payload_sum:
  assumes "frame_ok c f" "unat len + length (snd f) < 2 ^ 64"
  shows "unat (saturating_add len (h_payload_len (fst f))) = unat len + length (snd f)"
  using assms by (simp add: unat_saturating_add frame_ok_def)

section \<open>A receiver to run\<close>

definition masked_frame :: "bool \<Rightarrow> OpCode \<Rightarrow> u32 \<Rightarrow> bytes \<Rightarrow> frame" where
  "masked_frame fin oc key p =
     (\<lparr>h_fin = fin, h_rsv1 = False, h_rsv2 = False, h_rsv3 = False, h_masked = True, h_opcode = oc,
       h_mask = key, h_payload_len = of_nat (length p)\<rparr>, p)"

definition example_receiver :: "usize \<Rightarrow> Receiver" where
  "example_receiver limit =
     \<lparr>r_id = 1, r_mode = Server, r_codec = codec_new, r_has_extensions = False, r_buffer = [], r_ctrl_buffer = [],
      r_max_message_size = limit, r_is_closed = False\<rparr>"

definition example_shared :: "bytes \<Rightarrow> (Mem, unit) Shared" where
  "example_shared bs = \<lparr>sh_world = \<lparr>mem_in = bs, mem_out = [], mem_key = 0\<rparr>, sh_extensions = []\<rparr>"

lemma example_recv_at:
  "recv_at mem_in mem_out codec_new Server limit d (example_receiver limit) (example_shared bs) bs [] False"
  unfolding recv_at_def example_receiver_def example_shared_def
  using codec_new_ok [unfolded codec_ok_def]
  by (intro conjI exI [of _ "c_header_buffer codec_new"]) simp_all

lemma masked_frame_simps [simp]:
  "fst (masked_frame fin oc key p) = \<lparr>h_fin = fin, h_rsv1 = False, h_rsv2 = False, h_rsv3 = False, h_masked = True,
     h_opcode = oc, h_mask = key, h_payload_len = of_nat (length p)\<rparr>"
  "snd (masked_frame fin oc key p) = p"
  by (simp_all add: masked_frame_def)

lemma masked_frame_ok:
  assumes "length p \<le> 125" "\<not> is_reserved oc" "is_control oc \<longrightarrow> fin"
  shows "frame_ok codec_new (masked_frame fin oc key p)"
proof -
  have "unat (of_nat (length p) :: usize) = length p" using assms by (simp add: unat_of_nat take_bit_nat_eq_self)
  then show ?thesis using assms
    by (simp add: frame_ok_def wf_header_def codec_new_def word_le_nat_alt)
qed

lemma receive_closed_by:
  assumes env: "env_ok env inp outp" and f: "frame_ok c (h, p)" "h_opcode h = OpCode.Close"
    and at: "recv_at inp outp c mode limit d self sh (frame_wire (h, p) @ rest) out False"
  shows "case close_answer p of
      Inl e \<Rightarrow> \<exists>self' sh'. receive env x self sh message = Some (Inl e, self', sh', message) \<and>
        recv_at inp outp c mode limit d self' sh' rest out False
    | Inr (_, reason) \<Rightarrow> \<exists>self' sh' bs.
        receive env x self sh message =
          Some (case reason of Some cr \<Rightarrow> Inr (Incoming.Closed cr) | None \<Rightarrow> Inl conn_Error.Closed, self', sh', message) \<and>
        answers_on_wire mode [(OpCode.Close, case reason of Some cr \<Rightarrow> to_be_bytes 2 (cr_code cr) | None \<Rightarrow> [])] bs \<and>
        recv_at inp outp c mode limit d self' sh' rest (out @ bs) True \<and>
        (\<forall>m. receive env x self' sh' m = Some (Inl conn_Error.Closed, self', sh', m))"
proof -
  have again: "receive env x self' sh' m = Some (Inl conn_Error.Closed, self', sh', m)"
    if "recv_at inp outp c mode limit d self' sh' stream out' True" for self' sh' stream out' m
    using that by (simp add: receive_def receive_loop.simps receive_body_def recv_at_def)
  have ok: "spec_receive limit (length message) None 0 message [(h, p)] = Some (r, message, as, closed, []) \<Longrightarrow>
    \<not> too_large r \<Longrightarrow> \<exists>self' sh' bs. receive env x self sh message = Some (r, self', sh', message) \<and>
    answers_on_wire mode as bs \<and> recv_at inp outp c mode limit d self' sh' rest (out @ bs) closed" for r as closed
    using receive_ok_rest [OF env, of c "[(h, p)]" mode limit d self sh rest out message r message as closed "[]" x] f at
    by (simp del: spec_receive.simps)
  show ?thesis
  proof (cases "close_answer p")
    case (Inl e)
    then have "\<not> too_large (Inl e)" using close_answer_error by fastforce
    then show ?thesis using ok [of "Inl e" "[]" False] Inl f(2) by (simp add: spec_frame_def spec_control_def)
  next
    case (Inr a)
    obtain hd reason where [simp]: "a = (hd, reason)" by force
    let ?r = "case reason of Some cr \<Rightarrow> Inr (Incoming.Closed cr) | None \<Rightarrow> Inl conn_Error.Closed"
    let ?code = "case reason of Some cr \<Rightarrow> to_be_bytes 2 (cr_code cr) | None \<Rightarrow> []"
    have "\<exists>self' sh' bs. receive env x self sh message = Some (?r, self', sh', message) \<and>
        answers_on_wire mode [(OpCode.Close, ?code)] bs \<and> recv_at inp outp c mode limit d self' sh' rest (out @ bs) True"
      by (rule ok) (use Inr f(2) in \<open>cases reason; simp add: spec_frame_def spec_control_def\<close>)+
    then show ?thesis using again Inr by (simp del: answers_on_wire.simps) blast
  qed
qed


section \<open>The properties\<close>

text \<open>
  C1. Refinement: when the socket delivers the bytes of well-formed frames, in pieces of any size, and no
  extension is in use, \<open>receive\<close> returns what the message layer specification returns for these
  frames: the same result, the same message, the same answers on the wire in order, and it leaves
  exactly the remaining frames unread. After a message that is too large, the input is as \<open>left_over\<close> says.
\<close>

theorem receive_refines_spec:
  assumes "env_ok env inp outp" "list_all (frame_ok c) frames"
    "recv_at inp outp c mode limit d self sh (concat (map frame_wire frames) @ rest) out False"
    "spec_receive limit (length message) None 0 message frames = Some (r, message', as, closed, left)"
  shows "\<exists>self' sh' bs stream' read_frames f. receive env x self sh message = Some (r, self', sh', message') \<and>
    answers_on_wire mode as bs \<and> recv_at inp outp c mode limit d self' sh' stream' (out @ bs) closed \<and>
    frames = read_frames @ f # left \<and>
    left_over d r (apply_mask (fst f) (snd f)) (concat (map frame_wire left) @ rest) stream'"
  by (rule receive_ok [OF assms])

theorem receive_refines_spec_witness:
  "\<forall>x. \<exists>self' sh' bs stream'. receive (mem_env 3) x (example_receiver 10) (example_shared
      (concat (map frame_wire [masked_frame True OpCode.Binary 9 [1, 2]]) @ [9])) [5] =
      Some (Inr (Incoming.Data (Data.Binary 2)), self', sh', [5, 1, 2]) \<and> answers_on_wire Server [] bs \<and>
    recv_at mem_in mem_out codec_new Server 10 True self' sh' stream' ([] @ bs) False \<and> stream' = [9]"
proof
  fix x
  have "spec_receive 10 (length [5 :: u8]) None 0 [5] [masked_frame True OpCode.Binary 9 [1, 2]] =
      Some (Inr (Incoming.Data (Data.Binary 2)), [5, 1, 2], [], False, [])"
    by (simp add: spec_frame_def spec_data_def saturating_add_def spec_message_def)
  from receive_refines_spec [OF mem_env_ok [of 3] _ example_recv_at [of 10 True] this, where rest = "[9]" and x = x]
  show "\<exists>self' sh' bs stream'. receive (mem_env 3) x (example_receiver 10) (example_shared
      (concat (map frame_wire [masked_frame True OpCode.Binary 9 [1, 2]]) @ [9])) [5] =
      Some (Inr (Incoming.Data (Data.Binary 2)), self', sh', [5, 1, 2]) \<and> answers_on_wire Server [] bs \<and>
    recv_at mem_in mem_out codec_new Server 10 True self' sh' stream' ([] @ bs) False \<and> stream' = [9]"
    by (auto simp: masked_frame_ok)
qed

text \<open>
  C3. Termination: with a bounded amount of input still to come, and reads and writes that may fail at any point,
  \<open>receive\<close> returns (no endless loop, no panic). No assumption is made on what the peer sends. With extensions,
  whatever they decode, this needs the buffer for the message to be empty at the call.
\<close>

theorem receive_returns:
  assumes "finite_input env left_in" "codec_ok (r_codec self)" "r_has_extensions self \<longrightarrow> message = []"
  shows "\<exists>y. receive env x self sh message = Some y"
  unfolding receive_def by (rule receive_loop_returns [OF assms(1)]) (simp_all add: assms)

theorem receive_returns_witness:
  "\<forall>x. \<exists>y. receive (mem_env 1) x ((example_receiver 10)\<lparr>r_has_extensions := True\<rparr>) (example_shared [0x8A, 0x85, 1, 2]) [] = Some y"
proof -
  have "finite_input (mem_env 1) (\<lambda>w. length (mem_in w))"
    by (auto simp: finite_input_def mem_env_def Let_def split: if_splits)
  moreover have "codec_ok (r_codec ((example_receiver 10)\<lparr>r_has_extensions := True\<rparr>))" by (simp add: example_receiver_def)
  ultimately show ?thesis by (intro allI receive_returns) simp_all
qed

text \<open>
  C4. Safety: on a connection without extensions, and with a size limit below the largest \<^verbatim>\<open>usize\<close>, whatever the peer sends,
  \<open>receive\<close> only appends to the message buffer, and a message it delivers is what it appended, at most \<open>max_message_size\<close> bytes.
  (Extensions may make a message longer, and rewrite the buffer.)
\<close>

theorem receive_bounded:
  assumes "source_ok env inp outp" "\<not> r_has_extensions self" "r_max_message_size self < - 1"
    "receive env x self sh message = Some (r, self', sh', message')"
  shows "\<exists>p. message' = message @ p \<and>
    (\<forall>d. r = Inr (Incoming.Data d) \<longrightarrow> data_len d = length p \<and> length p \<le> unat (r_max_message_size self))"
  using receive_loop_bounded [OF assms(1,3) assms(4) [unfolded receive_def]] assms(2)
  by (simp add: bounded_loop_def bounded_result_def)

theorem receive_bounded_witness:
  "\<forall>x. \<exists>self' sh' p. receive (mem_env 1) x (example_receiver 10) (example_shared
      (concat (map frame_wire [masked_frame True OpCode.Text 7 [0x48]]) @ [])) [5] =
     Some (Inr (Incoming.Data (Data.Text 1)), self', sh', [5] @ p) \<and> length p \<le> 10"
proof
  fix x
  have "spec_receive 10 (length [5 :: u8]) None 0 [5] [masked_frame True OpCode.Text 7 [0x48]] =
      Some (Inr (Incoming.Data (Data.Text 1)), [5, 0x48], [], False, [])"
    by (simp add: spec_frame_def spec_data_def saturating_add_def spec_message_def)
  from receive_ok [OF mem_env_ok [of 1] _ example_recv_at [of 10 True] this, where rest = "[]" and x = x]
  obtain self' sh' where r: "receive (mem_env 1) x (example_receiver 10) (example_shared
      (concat (map frame_wire [masked_frame True OpCode.Text 7 [0x48]]) @ [])) [5] =
     Some (Inr (Incoming.Data (Data.Text 1)), self', sh', [5, 0x48])" by (auto simp: masked_frame_ok)
  from receive_bounded [OF env_okD(1) [OF mem_env_ok] _ _ r]
  show "\<exists>self' sh' p. receive (mem_env 1) x (example_receiver 10) (example_shared
      (concat (map frame_wire [masked_frame True OpCode.Text 7 [0x48]]) @ [])) [5] =
     Some (Inr (Incoming.Data (Data.Text 1)), self', sh', [5] @ p) \<and> length p \<le> 10"
    using r by (simp add: example_receiver_def)
qed

text \<open>
  C2. Reassembly: the fragments of a message, with pings between them, arrive as one message of the first
  fragment's type whose content is the concatenation of the fragments; each ping is answered by a
  pong with the same payload, in order, and the pings do not disturb the message.
\<close>

theorem receive_reassembles:
  assumes env: "env_ok env inp outp"
    and frames: "list_all (frame_ok c) (first # fs @ [final])" "list_all middle_frame fs"
      "\<not> h_fin (fst first)" "\<not> is_control (h_opcode (fst first))" "h_opcode (fst first) \<noteq> OpCode.Continue"
      "h_fin (fst final)" "h_opcode (fst final) = OpCode.Continue"
    and limit: "length (snd first @ fragments fs @ snd final) \<le> unat limit"
    and at: "recv_at inp outp c mode limit d self sh (concat (map frame_wire (first # fs @ [final])) @ rest) out False"
  shows "\<exists>self' sh' bs. receive env x self sh message =
      Some (data_result (h_opcode (fst first)) (length (snd first @ fragments fs @ snd final)), self', sh',
        message @ snd first @ fragments fs @ snd final) \<and>
    answers_on_wire mode (map (Pair OpCode.Pong) (pings fs)) bs \<and>
    recv_at inp outp c mode limit d self' sh' rest (out @ bs) False"
  using receive_ok [OF env frames(1) at spec_fragmented [OF frames(1,2,3) refl frames(4-7) limit]]
  by (auto simp: data_result_def)

theorem receive_reassembles_witness:
  "\<forall>x. \<exists>self' sh' bs. receive (mem_env 2) x (example_receiver 10) (example_shared (concat (map frame_wire
      (masked_frame False OpCode.Text 1 [0x48] # [masked_frame True OpCode.Ping 2 [7], masked_frame False OpCode.Continue 3 [0x65]] @
       [masked_frame True OpCode.Continue 4 [0x79]])) @ [])) [] =
      Some (Inr (Incoming.Data (Data.Text 3)), self', sh', [0x48, 0x65, 0x79]) \<and>
    answers_on_wire Server [(OpCode.Pong, [7])] bs \<and> recv_at mem_in mem_out codec_new Server 10 True self' sh' [] ([] @ bs) False"
proof
  fix x
  let ?fs = "[masked_frame True OpCode.Ping 2 [7], masked_frame False OpCode.Continue 3 [0x65]]"
  show "\<exists>self' sh' bs. receive (mem_env 2) x (example_receiver 10) (example_shared (concat (map frame_wire
      (masked_frame False OpCode.Text 1 [0x48] # ?fs @ [masked_frame True OpCode.Continue 4 [0x79]])) @ [])) [] =
      Some (Inr (Incoming.Data (Data.Text 3)), self', sh', [0x48, 0x65, 0x79]) \<and>
    answers_on_wire Server [(OpCode.Pong, [7])] bs \<and> recv_at mem_in mem_out codec_new Server 10 True self' sh' [] ([] @ bs) False"
    using receive_reassembles [OF mem_env_ok [of 2] _ _ _ _ _ _ _ _ example_recv_at [where d = True], where first = "masked_frame False OpCode.Text 1 [0x48]" and
        fs = ?fs and final = "masked_frame True OpCode.Continue 4 [0x79]" and limit = 10 and rest = "[]" and
        x = x and message = "[]"]
    by (simp add: masked_frame_ok middle_frame_def data_result_def numeral_3_eq_3 del: answers_on_wire.simps)
qed

text \<open>The status codes an endpoint may receive: those of RFC 6455 and its registry, and the private ranges.\<close>

definition assigned_code :: "nat \<Rightarrow> bool" where
  "assigned_code n \<longleftrightarrow> n \<in> {1000..1003} \<union> {1007..1013} \<union> {1015} \<union> {3000..4999}"

text \<open>
  A call of \<open>receive\<close> that closes the connection: its result, and one close frame with the given body. Every later call
  fails with \<open>Closed\<close>, and does no input or output.
\<close>

definition closes where
  "closes env inp outp c mode limit d x self sh message rest out result body \<longleftrightarrow>
     (\<exists>self' sh' bs. receive env x self sh message = Some (result, self', sh', message) \<and>
        answers_on_wire mode [(OpCode.Close, body)] bs \<and> recv_at inp outp c mode limit d self' sh' rest (out @ bs) True \<and>
        (\<forall>m. receive env x self' sh' m = Some (Inl conn_Error.Closed, self', sh', m)))"

lemma close_answer_cases:
  "close_answer [] = Inr (header_new OpCode.Close, None)" "close_answer [b1] = Inr (header_new OpCode.Close, None)"
  "from_utf8 descr = Inl e \<Longrightarrow> close_answer (b1 # b2 # descr) = Inl (Utf8 e)"
  "from_utf8 descr = Inr descr \<Longrightarrow> close_answer (b1 # b2 # descr) = Inr (header_new OpCode.Close,
     Some (if assigned_code (256 * unat b1 + unat b2) then \<lparr>cr_code = of_nat (256 * unat b1 + unat b2), cr_descr = Some descr\<rparr>
       else \<lparr>cr_code = 1002, cr_descr = None\<rparr>))"
proof -
  let ?n = "256 * unat b1 + unat b2" and ?c = "from_be_bytes [b1, b2] :: u16"
  note c = be_bytes_2(1) [of b1 b2] and u = be_bytes_2(3) [of b1 b2, folded be_bytes_2(1)]
  have num: "1000 \<le> ?c \<longleftrightarrow> 1000 \<le> ?n" "?c \<le> 1003 \<longleftrightarrow> ?n \<le> 1003" "1007 \<le> ?c \<longleftrightarrow> 1007 \<le> ?n"
    "?c \<le> 1011 \<longleftrightarrow> ?n \<le> 1011" "?c = 1012 \<longleftrightarrow> ?n = 1012" "?c = 1013 \<longleftrightarrow> ?n = 1013"
    "?c = 1015 \<longleftrightarrow> ?n = 1015" "3000 \<le> ?c \<longleftrightarrow> 3000 \<le> ?n" "?c \<le> 4999 \<longleftrightarrow> ?n \<le> 4999"
    by (simp_all add: word_le_nat_alt word_unat_eq_iff u)
  have a: "assigned_code ?n \<longleftrightarrow> 1000 \<le> ?c \<and> ?c \<le> 1003 \<or> 1007 \<le> ?c \<and> ?c \<le> 1011 \<or> ?c = 1012 \<or> ?c = 1013 \<or> ?c = 1015 \<or>
      3000 \<le> ?c \<and> ?c \<le> 4999"
    unfolding num assigned_code_def by auto
  show "from_utf8 descr = Inr descr \<Longrightarrow> close_answer (b1 # b2 # descr) = Inr (header_new OpCode.Close,
     Some (if assigned_code ?n then \<lparr>cr_code = of_nat ?n, cr_descr = Some descr\<rparr> else \<lparr>cr_code = 1002, cr_descr = None\<rparr>))"
    unfolding a unfolding c [symmetric] by (simp add: close_answer_def Let_def)
qed (simp_all add: close_answer_def Let_def from_utf8_error_def)

text \<open>
  C5. Close: a close frame without a status code is answered by one with an empty body, and returned as the error \<open>Closed\<close>. A
  description that is not UTF-8 is an error; nothing is written, and the connection stays open. Otherwise a code
  that the RFC or its registry assigns, or a private one, is answered with the same code and returned with the
  description, any other is answered with the protocol error 1002, which is also what is returned. After each answer every
  call of \<open>receive\<close> fails with \<open>Closed\<close> and does no input or output.
\<close>

theorem receive_close:
  assumes env: "env_ok env inp outp" and f: "frame_ok c (h, p)" "h_opcode h = OpCode.Close"
    and at: "recv_at inp outp c mode limit d self sh (frame_wire (h, p) @ rest) out False"
  shows "case p of
      b1 # b2 # descr \<Rightarrow>
        (case from_utf8 descr of
           Inl e \<Rightarrow> \<exists>self' sh'. receive env x self sh message = Some (Inl (Utf8 e), self', sh', message) \<and>
             recv_at inp outp c mode limit d self' sh' rest out False
         | Inr _ \<Rightarrow>
             let n = 256 * unat b1 + unat b2 in
             if assigned_code n
             then closes env inp outp c mode limit d x self sh message rest out
               (Inr (Incoming.Closed \<lparr>cr_code = of_nat n, cr_descr = Some descr\<rparr>)) [b1, b2]
             else closes env inp outp c mode limit d x self sh message rest out
               (Inr (Incoming.Closed \<lparr>cr_code = 1002, cr_descr = None\<rparr>)) [3, 0xEA])
    | _ \<Rightarrow> closes env inp outp c mode limit d x self sh message rest out (Inl conn_Error.Closed) []"
proof -
  note closed = receive_closed_by [OF assms, of x message]
  have pe: "to_be_bytes 2 (1002 :: u16) = [3, 0xEA]" by (simp add: to_be_bytes_2)
  consider (short) "length p < 2" | (bad) b1 b2 descr e where "p = b1 # b2 # descr" "from_utf8 descr = Inl e"
    | (good) b1 b2 descr where "p = b1 # b2 # descr" "from_utf8 descr = Inr descr"
    by (cases "length p < 2"; cases p; cases "tl p"; cases "from_utf8 (tl (tl p))") (auto dest: from_utf8_Inr)
  then show ?thesis
  proof cases
    case short
    then consider "p = []" | b where "p = [b]" by (cases p; cases "tl p") auto
    then show ?thesis using closed by cases (simp_all add: closes_def close_answer_cases del: answers_on_wire.simps)
  next
    case bad
    then show ?thesis using closed by (simp add: close_answer_cases(3))
  next
    case good
    show ?thesis
      using closed unfolding good(1) close_answer_cases(4) [OF good(2)]
      by (simp add: good(2) closes_def Let_def be_bytes_2(2) [simplified] pe del: answers_on_wire.simps split: if_splits)
  qed
qed

theorem receive_close_witness:
  "\<forall>x. closes (mem_env 2) mem_in mem_out codec_new Server 10 True x (example_receiver 10)
      (example_shared (frame_wire (masked_frame True OpCode.Close 1 [3, 0xE9, 0x62]) @ [])) [] [] []
      (Inr (Incoming.Closed \<lparr>cr_code = 1001, cr_descr = Some [0x62]\<rparr>)) [3, 0xE9]"
proof
  fix x
  let ?f = "masked_frame True OpCode.Close 1 [3, 0xE9, 0x62]"
  show "closes (mem_env 2) mem_in mem_out codec_new Server 10 True x (example_receiver 10)
      (example_shared (frame_wire ?f @ [])) [] [] [] (Inr (Incoming.Closed \<lparr>cr_code = 1001, cr_descr = Some [0x62]\<rparr>)) [3, 0xE9]"
    using receive_close [OF mem_env_ok [of 2] _ _ example_recv_at [of 10 True], where h = "fst ?f" and p = "snd ?f" and x = x and rest = "[]"
        and message = "[]", unfolded prod.collapse]
    by (simp add: masked_frame_ok from_utf8_ascii assigned_code_def)
qed

text \<open>
  Disconnection: when the peer's input ends, between frames or inside the header of one, before the
  message is complete, \<open>receive\<close> reports that the connection is closed, and not an I/O error.
\<close>

theorem receive_disconnected:
  assumes env: "env_ok env inp outp" and frames: "list_all (frame_ok c) frames"
    and part: "wf_header c h" "header_bytes h = part @ q" "q \<noteq> []"
    and at: "recv_at inp outp c mode limit d self sh (concat (map frame_wire frames) @ part) out False"
    and incomplete: "spec_receive limit (length message) None 0 message frames = None"
  shows "\<exists>self' sh' message'. receive env x self sh message = Some (Inl conn_Error.Closed, self', sh', message')"
  unfolding receive_def
  by (rule receive_loop_eof [OF env part frames _ incomplete, where out = out and mode = mode and d = d]) (simp add: loop_at_def at)

theorem receive_disconnected_witness:
  "\<forall>x. \<exists>self' sh' message'. receive (mem_env 2) x (example_receiver 10) (example_shared
      (concat (map frame_wire [masked_frame False OpCode.Text 1 [0x48]]) @ [0x80])) [] = Some (Inl conn_Error.Closed, self', sh', message')"
proof
  fix x
  let ?h = "fst (masked_frame True OpCode.Continue 0 [])"
  have "to_be_bytes 4 (0 :: u32) = [0, 0, 0, 0]" by (simp add: to_be_bytes_4)
  then have q: "header_bytes ?h = [0x80] @ [0x80, 0, 0, 0, 0]"
    by (simp add: header_bytes_def rfc_first_byte ext_len_def len_code_def model_defs first_byte_def)
  have h: "wf_header codec_new ?h" using masked_frame_ok [of "[]" OpCode.Continue True 0] by (simp add: frame_ok_def)
  have s: "spec_receive 10 (length ([] :: bytes)) None 0 [] [masked_frame False OpCode.Text 1 [0x48]] = None"
    by (simp add: spec_frame_def spec_data_def saturating_add_def)
  show "\<exists>self' sh' message'. receive (mem_env 2) x (example_receiver 10) (example_shared
      (concat (map frame_wire [masked_frame False OpCode.Text 1 [0x48]]) @ [0x80])) [] = Some (Inl conn_Error.Closed, self', sh', message')"
    by (rule receive_disconnected [OF mem_env_ok _ h q _ example_recv_at s]) (simp_all add: masked_frame_ok)
qed

text \<open>
  An oversized message in a single frame is rejected with \<open>MessageTooLarge\<close>, which carries its length and
  the limit; its payload is skipped, nothing is stored, and the receiver is in step with the next frame.
\<close>

theorem receive_oversized:
  assumes env: "env_ok env inp outp" and f: "frame_ok c f" "\<not> is_control (h_opcode (fst f))"
    and big: "unat limit < length (snd f)"
    and at: "recv_at inp outp c mode limit True self sh (frame_wire f @ rest) out False"
  shows "\<exists>self' sh'. receive env x self sh message =
      Some (Inl (MessageTooLarge (h_payload_len (fst f)) limit), self', sh', message) \<and>
    recv_at inp outp c mode limit True self' sh' rest out False"
proof -
  have s: "spec_receive limit (length message) None 0 message [f] =
      Some (Inl (MessageTooLarge (h_payload_len (fst f)) limit), message, [], False, [])"
    using f big by (simp add: spec_frame_def spec_data_def word_less_nat_alt frame_ok_def)
  have "unat (h_payload_len (fst f)) = length (snd f)" using f(1) by (simp add: frame_ok_def)
  then show ?thesis using receive_ok [OF env _ _ s, of c mode True self sh rest out x] f(1) at by auto
qed

theorem receive_oversized_witness:
  "\<forall>x. \<exists>self' sh'. receive (mem_env 2) x (example_receiver 1)
      (example_shared (frame_wire (masked_frame True OpCode.Binary 1 [7, 8]) @ [9])) [] =
      Some (Inl (MessageTooLarge 2 1), self', sh', []) \<and>
    recv_at mem_in mem_out codec_new Server 1 True self' sh' [9] [] False"
proof
  fix x
  show "\<exists>self' sh'. receive (mem_env 2) x (example_receiver 1)
      (example_shared (frame_wire (masked_frame True OpCode.Binary 1 [7, 8]) @ [9])) [] =
      Some (Inl (MessageTooLarge 2 1), self', sh', []) \<and>
    recv_at mem_in mem_out codec_new Server 1 True self' sh' [9] [] False"
    using receive_oversized [OF mem_env_ok [of 2] _ _ _ example_recv_at, where f = "masked_frame True OpCode.Binary 1 [7, 8]" and
        limit = 1 and rest = "[9]" and x = x and message = "[]"]
    by (simp add: masked_frame_ok)
qed

text \<open>
  C6. When instead a later fragment makes the message too large, the receiver skips as many bytes of the
  socket as the whole message has, although the earlier fragments were read already: it loses that many
  bytes of the frames that follow, and is out of step with its peer.
\<close>

theorem receive_oversized_fragments:
  assumes env: "env_ok env inp outp" and f: "frame_ok c f" "frame_ok c g"
    "\<not> h_fin (fst f)" "\<not> is_control (h_opcode (fst f))" "h_opcode (fst f) \<noteq> OpCode.Continue" "h_opcode (fst g) = OpCode.Continue"
    and big: "length (snd f) \<le> unat limit" "unat limit < length (snd f) + length (snd g)" "length (snd f) + length (snd g) < 2 ^ 64"
    and at: "recv_at inp outp c mode limit True self sh (frame_wire f @ frame_wire g @ rest) out False"
  shows "\<exists>current self' sh'. receive env x self sh message =
      Some (Inl (MessageTooLarge current limit), self', sh', message @ snd f) \<and>
    recv_at inp outp c mode limit True self' sh' (drop (length (snd f)) rest) out False"
proof -
  let ?a = "h_payload_len (fst f)" and ?b = "saturating_add (h_payload_len (fst f)) (h_payload_len (fst g))"
  have a: "unat ?a = length (snd f)" using f(1) by (simp add: frame_ok_def)
  then have b: "unat ?b = length (snd f) + length (snd g)" using payload_sum [OF f(2), of ?a] big(3) by simp
  have s: "spec_receive limit (length message) None 0 message [f, g] =
      Some (Inl (MessageTooLarge ?b limit), message @ snd f, [], False, [])"
    using f a b big by (simp add: spec_frame_def spec_data_def word_less_nat_alt Let_def)
  have "\<exists>self' sh' stream'. receive env x self sh message = Some (Inl (MessageTooLarge ?b limit), self', sh', message @ snd f) \<and>
      recv_at inp outp c mode limit True self' sh' stream' out False \<and>
      stream' = drop (unat ?b) (apply_mask (fst g) (snd g) @ rest)"
    using receive_ok [OF env _ _ s, of c mode True self sh rest out x] f(1,2) at by (auto simp: append_eq_Cons_conv)
  then show ?thesis by (auto simp: b)
qed

theorem receive_oversized_fragments_witness:
  "\<forall>x. \<exists>current self' sh'. receive (mem_env 2) x (example_receiver 3)
      (example_shared (frame_wire (masked_frame False OpCode.Text 1 [1, 2]) @
         frame_wire (masked_frame True OpCode.Continue 1 [3, 4]) @ [5, 6, 7])) [] =
      Some (Inl (MessageTooLarge current 3), self', sh', [1, 2]) \<and>
    recv_at mem_in mem_out codec_new Server 3 True self' sh' [7] [] False"
proof
  fix x
  show "\<exists>current self' sh'. receive (mem_env 2) x (example_receiver 3)
      (example_shared (frame_wire (masked_frame False OpCode.Text 1 [1, 2]) @
         frame_wire (masked_frame True OpCode.Continue 1 [3, 4]) @ [5, 6, 7])) [] =
      Some (Inl (MessageTooLarge current 3), self', sh', [1, 2]) \<and>
    recv_at mem_in mem_out codec_new Server 3 True self' sh' [7] [] False"
    using receive_oversized_fragments [OF mem_env_ok [of 2] _ _ _ _ _ _ _ _ _ example_recv_at, where
        f = "masked_frame False OpCode.Text 1 [1, 2]" and g = "masked_frame True OpCode.Continue 1 [3, 4]" and limit = 3 and
        rest = "[5, 6, 7]" and x = x and message = "[]"]
    by (simp add: masked_frame_ok)
qed

text \<open>
  C7. A pong between the fragments of a message is returned at once, and the type and length of the
  message begun are forgotten: the next fragment, though the peer follows the protocol, is rejected
  as an unexpected continuation.
\<close>

theorem receive_pong_interrupts:
  assumes env: "env_ok env inp outp" and f: "frame_ok c f" "frame_ok c pong" "frame_ok c g"
    "\<not> h_fin (fst f)" "\<not> is_control (h_opcode (fst f))" "h_opcode (fst f) \<noteq> OpCode.Continue"
    "h_opcode (fst pong) = OpCode.Pong" "h_opcode (fst g) = OpCode.Continue"
    and limit: "length (snd f) \<le> unat limit" "length (snd g) \<le> unat limit"
    and at: "recv_at inp outp c mode limit d self sh (frame_wire f @ frame_wire pong @ frame_wire g @ rest) out False"
  shows "\<exists>self' sh' self'' sh''.
    receive env x self sh message = Some (Inr (Incoming.Pong (snd pong)), self', sh', message @ snd f) \<and>
    receive env x self' sh' (message @ snd f) =
      Some (Inl (conn_Error.UnexpectedOpCode OpCode.Continue), self'', sh'', message @ snd f @ snd g)"
proof -
  let ?m = "message @ snd f"
  have a: "unat (h_payload_len (fst h)) = length (snd h)" if "frame_ok c h" for h
    using that by (simp add: frame_ok_def)
  have s1: "spec_receive limit (length message) None 0 message [f, pong] = Some (Inr (Incoming.Pong (snd pong)), ?m, [], False, [])"
    using f a [OF f(1)] limit by (simp add: spec_frame_def spec_data_def spec_control_def word_less_nat_alt Let_def)
  have s2: "spec_receive limit (length ?m) None 0 ?m [g] =
      Some (Inl (conn_Error.UnexpectedOpCode OpCode.Continue), message @ snd f @ snd g, [], False, [])"
    using f a [OF f(3)] limit by (cases "h_fin (fst g)") (simp_all add: spec_frame_def spec_data_def word_less_nat_alt Let_def)
  obtain self' sh' where r1: "receive env x self sh message = Some (Inr (Incoming.Pong (snd pong)), self', sh', ?m)"
    "recv_at inp outp c mode limit d self' sh' (frame_wire g @ rest) out False"
    using receive_ok_rest [OF env _ _ s1, of c mode d self sh "frame_wire g @ rest" out x] f at by auto
  moreover obtain self'' sh'' where
    "receive env x self' sh' ?m = Some (Inl (conn_Error.UnexpectedOpCode OpCode.Continue), self'', sh'', message @ snd f @ snd g)"
    using receive_ok_rest [OF env _ _ s2, of c mode d self' sh' rest out x] f r1(2) by auto
  ultimately show ?thesis by blast
qed

theorem receive_pong_interrupts_witness:
  "\<forall>x. \<exists>self' sh' self'' sh''.
    receive (mem_env 2) x (example_receiver 9) (example_shared (frame_wire (masked_frame False OpCode.Text 1 [1, 2]) @
       frame_wire (masked_frame True OpCode.Pong 1 [3]) @ frame_wire (masked_frame True OpCode.Continue 1 [4]) @ [])) [] =
      Some (Inr (Incoming.Pong [3]), self', sh', [1, 2]) \<and>
    receive (mem_env 2) x self' sh' [1, 2] = Some (Inl (conn_Error.UnexpectedOpCode OpCode.Continue), self'', sh'', [1, 2, 4])"
proof
  fix x
  show "\<exists>self' sh' self'' sh''.
    receive (mem_env 2) x (example_receiver 9) (example_shared (frame_wire (masked_frame False OpCode.Text 1 [1, 2]) @
       frame_wire (masked_frame True OpCode.Pong 1 [3]) @ frame_wire (masked_frame True OpCode.Continue 1 [4]) @ [])) [] =
      Some (Inr (Incoming.Pong [3]), self', sh', [1, 2]) \<and>
    receive (mem_env 2) x self' sh' [1, 2] = Some (Inl (conn_Error.UnexpectedOpCode OpCode.Continue), self'', sh'', [1, 2, 4])"
    using receive_pong_interrupts [OF mem_env_ok [of 2] _ _ _ _ _ _ _ _ _ _ example_recv_at, where
        f = "masked_frame False OpCode.Text 1 [1, 2]" and pong = "masked_frame True OpCode.Pong 1 [3]" and
        g = "masked_frame True OpCode.Continue 1 [4]" and limit = 9 and rest = "[]" and x = x and message = "[]"]
    by (simp add: masked_frame_ok)
qed

section \<open>Receiving data only\<close>

lemma receive_ping:
  assumes env: "env_ok env inp outp" and f: "frame_ok c f" "h_opcode (fst f) = OpCode.Ping"
    and at: "recv_at inp outp c mode limit d self sh (frame_wire f @ rest) out False"
  shows "\<exists>self' sh' bs. receive env x self sh message = receive env x self' sh' message \<and>
    answers_on_wire mode [(OpCode.Pong, snd f)] bs \<and> recv_at inp outp c mode limit d self' sh' rest (out @ bs) False"
proof -
  let ?st = "\<lparr>l_first_fragment_opcode = None, l_length = 0, l_self = self, l_shared = sh, l_message = message\<rparr>"
  have "loop_at inp outp c mode limit d (length message) ?st None 0 message (frame_wire f @ rest) out"
    using at by (simp add: loop_at_def)
  from frame_refines [OF env f(1) this, of x] f(2) obtain st' bs where
    st': "receive_body env x (length message) ?st = Some (Again st')" "answers_on_wire mode [(OpCode.Pong, snd f)] bs"
      "loop_at inp outp c mode limit d (length message) st' None 0 message rest (out @ bs)"
    unfolding step_refines_def spec_frame_def spec_control_def by auto
  then have "st' = \<lparr>l_first_fragment_opcode = None, l_length = 0, l_self = l_self st', l_shared = l_shared st', l_message = message\<rparr>"
    by (simp add: loop_at_def)
  then have "receive env x self sh message = receive env x (l_self st') (l_shared st') message"
    using receive_loop_Again [OF st'(1)] by (simp add: receive_def)
  then show ?thesis using st' by (auto simp: loop_at_def)
qed

lemma receive_data_ok:
  assumes env: "env_ok env inp outp" and f: "frame_ok c f" "h_fin (fst f)" "\<not> is_control (h_opcode (fst f))"
    "h_opcode (fst f) \<noteq> OpCode.Continue" "length (snd f) \<le> unat limit"
  shows "list_all (frame_ok c) fs \<Longrightarrow> list_all (\<lambda>g. h_opcode (fst g) \<in> {OpCode.Ping, OpCode.Pong}) fs \<Longrightarrow>
    recv_at inp outp c mode limit d self sh (concat (map frame_wire (fs @ [f])) @ rest) out False \<Longrightarrow>
    \<exists>self' sh' bs. receive_data env x self sh message =
      Some (Inr (if h_opcode (fst f) = OpCode.Text then Data.Text (length (snd f)) else Data.Binary (length (snd f))),
        self', sh', message @ snd f) \<and>
    answers_on_wire mode (map (Pair OpCode.Pong) (pings fs)) bs \<and> recv_at inp outp c mode limit d self' sh' rest (out @ bs) False"
proof (induction fs arbitrary: self sh out)
  case Nil
  have "unat (h_payload_len (fst f)) = length (snd f)" using f(1) by (simp add: frame_ok_def)
  then have s: "spec_receive limit (length message) None 0 message [f] = Some (data_result (h_opcode (fst f)) (length (snd f)),
      message @ snd f, [], False, [])"
    using f by (simp add: spec_frame_def spec_data_def spec_message_def data_result_def word_less_nat_alt)
  have "\<exists>self' sh'. receive env x self sh message = Some (data_result (h_opcode (fst f)) (length (snd f)), self', sh', message @ snd f) \<and>
      recv_at inp outp c mode limit d self' sh' rest out False"
    using receive_ok_rest [OF env _ _ s, of c mode d self sh rest out x] Nil.prems(3) f(1) by (auto simp: data_result_def)
  then show ?case by (auto simp: receive_data.simps [of _ _ self] data_result_def)
next
  case (Cons g fs)
  let ?rest = "concat (map frame_wire (fs @ [f])) @ rest"
  have at: "recv_at inp outp c mode limit d self sh (frame_wire g @ ?rest) out False" using Cons.prems(3) by simp
  show ?case
  proof (cases "h_opcode (fst g) = OpCode.Ping")
    case True
    obtain self1 sh1 bs where g: "receive env x self sh message = receive env x self1 sh1 message"
      "answers_on_wire mode [(OpCode.Pong, snd g)] bs" "recv_at inp outp c mode limit d self1 sh1 ?rest (out @ bs) False"
      using receive_ping [OF env _ True at, of x message] Cons.prems(1) unfolding list.pred_inject(2) by blast
    have eq: "receive_data env x self sh message = receive_data env x self1 sh1 message"
      by (simp add: receive_data.simps [of _ _ self] receive_data.simps [of _ _ self1] g(1))
    from Cons.IH [OF _ _ g(3)] Cons.prems(1,2) obtain self' sh' bs' where r:
      "receive_data env x self1 sh1 message =
        Some (Inr (if h_opcode (fst f) = OpCode.Text then Data.Text (length (snd f)) else Data.Binary (length (snd f))), self', sh', message @ snd f)"
      "answers_on_wire mode (map (Pair OpCode.Pong) (pings fs)) bs'" "recv_at inp outp c mode limit d self' sh' rest ((out @ bs) @ bs') False"
      by auto
    show ?thesis
      by (intro exI [of _ self'] exI [of _ sh'] exI [of _ "bs @ bs'"])
         (use r eq answers_on_wire_append [OF g(2) r(2)] True in \<open>simp del: answers_on_wire.simps\<close>)
  next
    case False
    then have s: "spec_receive limit (length message) None 0 message [g] = Some (Inr (Incoming.Pong (snd g)), message, [], False, [])"
      using Cons.prems(2) by (simp add: spec_frame_def spec_control_def)
    obtain self1 sh1 where "receive env x self sh message = Some (Inr (Incoming.Pong (snd g)), self1, sh1, message)"
      "recv_at inp outp c mode limit d self1 sh1 ?rest out False"
      using receive_ok_rest [OF env _ _ s, of c mode d self sh ?rest out x] at Cons.prems(1) by auto
    then show ?thesis using Cons.IH Cons.prems(1,2) False by (simp add: receive_data.simps [of _ _ self])
  qed
qed

text \<open>
  \<open>receive_data\<close> passes over pongs, answers pings, and returns the next whole message; its loop ends
  with that message.
\<close>

theorem receive_data_skips_control:
  assumes "env_ok env inp outp" "list_all (frame_ok c) fs" "list_all (\<lambda>g. h_opcode (fst g) \<in> {OpCode.Ping, OpCode.Pong}) fs"
    "frame_ok c f" "h_fin (fst f)" "\<not> is_control (h_opcode (fst f))" "h_opcode (fst f) \<noteq> OpCode.Continue"
    "length (snd f) \<le> unat limit"
    "recv_at inp outp c mode limit d self sh (concat (map frame_wire (fs @ [f])) @ rest) out False"
  shows "\<exists>self' sh' bs. receive_data env x self sh message =
      Some (Inr (if h_opcode (fst f) = OpCode.Text then Data.Text (length (snd f)) else Data.Binary (length (snd f))),
        self', sh', message @ snd f) \<and>
    answers_on_wire mode (map (Pair OpCode.Pong) (pings fs)) bs \<and> recv_at inp outp c mode limit d self' sh' rest (out @ bs) False"
  by (rule receive_data_ok [OF assms(1,4-8,2,3,9)])

theorem receive_data_skips_control_witness:
  "\<forall>x. \<exists>self' sh' bs. receive_data (mem_env 2) x (example_receiver 9) (example_shared (concat (map frame_wire
      ([masked_frame True OpCode.Pong 1 [3], masked_frame True OpCode.Ping 1 [4]] @ [masked_frame True OpCode.Text 1 [5]])) @ [])) [] =
      Some (Inr (Data.Text 1), self', sh', [5]) \<and>
    answers_on_wire Server [(OpCode.Pong, [4])] bs \<and> recv_at mem_in mem_out codec_new Server 9 True self' sh' [] ([] @ bs) False"
proof
  fix x
  let ?fs = "[masked_frame True OpCode.Pong 1 [3], masked_frame True OpCode.Ping 1 [4]]"
  show "\<exists>self' sh' bs. receive_data (mem_env 2) x (example_receiver 9) (example_shared (concat (map frame_wire
      (?fs @ [masked_frame True OpCode.Text 1 [5]])) @ [])) [] = Some (Inr (Data.Text 1), self', sh', [5]) \<and>
    answers_on_wire Server [(OpCode.Pong, [4])] bs \<and> recv_at mem_in mem_out codec_new Server 9 True self' sh' [] ([] @ bs) False"
    using receive_data_skips_control [OF mem_env_ok [of 2] _ _ _ _ _ _ _ example_recv_at [where d = True], where
        fs = ?fs and f = "masked_frame True OpCode.Text 1 [5]" and limit = 9 and rest = "[]" and x = x and message = "[]"]
    by (simp add: masked_frame_ok del: answers_on_wire.simps)
qed

section \<open>Protocol errors and close codes\<close>

text \<open>
  Protocol errors: a continuation outside a fragmented message, and a new data frame inside one,
  are reported as \<open>UnexpectedOpCode\<close> with the offending opcode; the receiver stays in step with the peer.
\<close>

theorem receive_unexpected_opcode:
  assumes env: "env_ok env inp outp" and f: "frame_ok c f" "\<not> is_control (h_opcode (fst f))" "\<not> h_fin (fst f)"
    and g: "frame_ok c g" "\<not> is_control (h_opcode (fst g))" "h_opcode (fst f) = OpCode.Continue \<or> h_opcode (fst g) \<noteq> OpCode.Continue"
    and limit: "length (snd f) + length (snd g) \<le> unat limit"
    and at: "recv_at inp outp c mode limit d self sh (frame_wire f @ frame_wire g @ rest) out False"
  shows "\<exists>self' sh' message'. receive env x self sh message = Some (Inl (conn_Error.UnexpectedOpCode
      (if h_opcode (fst f) = OpCode.Continue then OpCode.Continue else h_opcode (fst g))), self', sh', message') \<and>
    recv_at inp outp c mode limit d self' sh' (if h_opcode (fst f) = OpCode.Continue then frame_wire g @ rest else rest) out False"
proof -
  have a: "unat (h_payload_len (fst f)) = length (snd f)" using f(1) by (simp add: frame_ok_def)
  have lt: "unat limit < 2 ^ 64" using unsigned_less [of limit, where ?'a = nat] by simp
  have b: "unat (saturating_add (h_payload_len (fst f)) (h_payload_len (fst g))) = length (snd f) + length (snd g)"
    using payload_sum [OF g(1), of "h_payload_len (fst f)"] a limit lt by simp
  show ?thesis
  proof (cases "h_opcode (fst f) = OpCode.Continue")
    case True
    then have s: "spec_receive limit (length message) None 0 message [f] =
        Some (Inl (conn_Error.UnexpectedOpCode OpCode.Continue), message @ snd f, [], False, [])"
      using f a limit by (simp add: spec_frame_def spec_data_def word_less_nat_alt)
    show ?thesis using receive_ok_rest [OF env _ _ s, of c mode d self sh "frame_wire g @ rest" out x] f(1) at True by auto
  next
    case False
    then have s: "spec_receive limit (length message) None 0 message [f, g] =
        Some (Inl (conn_Error.UnexpectedOpCode (h_opcode (fst g))), message @ snd f @ snd g, [], False, [])"
      using f g a b limit
      by (cases "h_fin (fst g)") (simp_all add: spec_frame_def spec_data_def word_less_nat_alt Let_def)
    show ?thesis using receive_ok_rest [OF env _ _ s, of c mode d self sh rest out x] f(1) g(1) at False by auto
  qed
qed

theorem receive_unexpected_opcode_witness:
  "\<forall>x. \<exists>self' sh' message'. receive (mem_env 2) x (example_receiver 9) (example_shared
      (frame_wire (masked_frame False OpCode.Text 1 [5]) @ frame_wire (masked_frame True OpCode.Binary 2 [6]) @ [])) [] =
      Some (Inl (conn_Error.UnexpectedOpCode OpCode.Binary), self', sh', message') \<and>
    recv_at mem_in mem_out codec_new Server 9 True self' sh' [] [] False"
proof
  fix x
  show "\<exists>self' sh' message'. receive (mem_env 2) x (example_receiver 9) (example_shared
      (frame_wire (masked_frame False OpCode.Text 1 [5]) @ frame_wire (masked_frame True OpCode.Binary 2 [6]) @ [])) [] =
      Some (Inl (conn_Error.UnexpectedOpCode OpCode.Binary), self', sh', message') \<and>
    recv_at mem_in mem_out codec_new Server 9 True self' sh' [] [] False"
    using receive_unexpected_opcode [OF mem_env_ok [of 2] _ _ _ _ _ _ _ example_recv_at [where d = True], where
        f = "masked_frame False OpCode.Text 1 [5]" and g = "masked_frame True OpCode.Binary 2 [6]" and limit = 9 and
        rest = "[]" and x = x and message = "[]"]
    by (simp add: masked_frame_ok)
qed

end
