(* ===== verification/Sender_Props.thy ===== *)
theory Sender_Props
  imports Receiver_Props
begin

text \<open>
  The properties of the sending half, and of two endpoints talking to each other.
\<close>

section \<open>Writing whole frames\<close>

lemma answer_frame_simps [simp]:
  "snd (answer_frame mode m (oc, p)) = p" "h_opcode (fst (answer_frame mode m (oc, p))) = oc"
  "h_fin (fst (answer_frame mode m (oc, p)))" "h_masked (fst (answer_frame mode m (oc, p))) = is_client mode"
  "h_payload_len (fst (answer_frame mode m (oc, p))) = of_nat (length p)"
  by (simp_all add: answer_frame_def sent_header_def header_new_def)

lemma unat_of_nat_le: "n \<le> unat (b :: usize) \<Longrightarrow> unat (of_nat n :: usize) = n"
  using unsigned_less [of b, where ?'a = nat] by (simp add: unat_of_nat take_bit_nat_eq_self)

lemma answer_frame_ok:
  assumes "\<not> is_reserved oc" "is_control oc \<Longrightarrow> length p \<le> 125" "length p \<le> unat (c_max_data_size c)"
  shows "frame_ok c (answer_frame mode m (oc, p))"
  using assms unat_of_nat_le [OF assms(3)]
  by (auto simp: frame_ok_def answer_frame_def sent_header_def header_new_def wf_header_def word_le_nat_alt)

definition sender_ok :: "Mode \<Rightarrow> Sender \<Rightarrow> bool" where
  "sender_ok mode self \<longleftrightarrow> codec_ok (s_codec self) \<and> \<not> s_has_extensions self \<and> s_mode self = mode"

lemma sender_write_ok:
  assumes "sink_ok env inp outp" "sender_ok mode self"
  shows "\<exists>m self' w'. sender_write env self w (header_new oc) data = Some (Inr (), self', w') \<and> sender_ok mode self' \<and>
     outp w' = outp w @ frame_wire (answer_frame mode m (oc, as_ref data)) \<and> inp w' = inp w"
proof -
  from assms(2) have "codec_ok (s_codec self)" by (simp add: sender_ok_def)
  from write_frame_ok [OF assms(1) this, of "s_mode self" w "header_new oc" data "s_mask_buffer self"]
  obtain m buf w' h' data' mb' where
    "write_frame env (s_mode self) (s_codec self) w (header_new oc) data (s_mask_buffer self) =
       Some (Inr (), (s_codec self)\<lparr>c_header_buffer := buf\<rparr>, w', h', data', mb')" "length buf = MAX_HEADER_SIZE"
    "h' = sent_header (s_mode self) m (header_new oc) (as_ref data)"
    "outp w' = outp w @ header_bytes h' @ apply_mask h' (as_ref data)" "inp w' = inp w" by auto
  then show ?thesis using assms(2)
    by (auto simp: sender_write_def sender_ok_def codec_ok_def answer_frame_def frame_wire_def)
qed

text \<open>The operations of the sending half, and what each asks to be sent.\<close>

datatype send_op =
    SendText str | SendTextOwned str | SendBinary bytes | SendBinaryMut bytes
  | SendPing ByteSlice125 | SendPong ByteSlice125 | CloseOp

fun perform :: "'w Env \<Rightarrow> 'e Extension \<Rightarrow> Sender \<Rightarrow> ('w, 'e) Shared \<Rightarrow> send_op \<Rightarrow>
    ((conn_Error + unit) \<times> Sender \<times> ('w, 'e) Shared) option" where
  "perform env x self sh (SendText s) = send_text env x self sh s"
| "perform env x self sh (SendTextOwned s) = send_text_owned env x self sh s"
| "perform env x self sh (SendBinary b) = send_binary env x self sh b"
| "perform env x self sh (SendBinaryMut b) = send_binary_mut env x self sh b"
| "perform env x self sh (SendPing b) =
     map_option (\<lambda>(r, self, w). (r, self, sh\<lparr>sh_world := w\<rparr>)) (send_ping env self (sh_world sh) b)"
| "perform env x self sh (SendPong b) =
     map_option (\<lambda>(r, self, w). (r, self, sh\<lparr>sh_world := w\<rparr>)) (send_pong env self (sh_world sh) b)"
| "perform env x self sh CloseOp =
     map_option (\<lambda>(r, self, w). (r, self, sh\<lparr>sh_world := w\<rparr>)) (sender_close env self (sh_world sh))"

fun op_answer :: "send_op \<Rightarrow> answer" where
  "op_answer (SendText s) = (OpCode.Text, s)"
| "op_answer (SendTextOwned s) = (OpCode.Text, s)"
| "op_answer (SendBinary b) = (OpCode.Binary, b)"
| "op_answer (SendBinaryMut b) = (OpCode.Binary, b)"
| "op_answer (SendPing b) = (OpCode.Ping, byte_slice_125_as_ref b)"
| "op_answer (SendPong b) = (OpCode.Pong, byte_slice_125_as_ref b)"
| "op_answer CloseOp = (OpCode.Close, to_be_bytes 2 (1000 :: u16))"

fun op_storage :: "send_op \<Rightarrow> Storage" where
  "op_storage (SendTextOwned s) = Owned s"
| "op_storage (SendBinaryMut b) = Unique b"
| "op_storage op = Shared (snd (op_answer op))"

lemma perform_data_op:
  "\<not> is_control (fst (op_answer op)) \<Longrightarrow>
    perform env x s sh op = send_frame env x s sh (header_new (fst (op_answer op))) (op_storage op)"
  by (cases op) (simp_all add: send_text_def send_text_owned_def send_binary_def send_binary_mut_def)

lemma as_ref_op_storage: "as_ref (op_storage op) = snd (op_answer op)"
  by (cases op) auto

lemma op_not_reserved: "\<not> is_reserved (fst (op_answer op))"
  by (cases op) auto

text \<open>Every operation puts exactly one frame on the wire (closing a socket may fail afterwards).\<close>

lemma perform_ok:
  assumes snk: "sink_ok env inp outp" and ok: "sender_ok mode self"
  shows "\<exists>m r self' sh'. perform env x self sh op = Some (r, self', sh') \<and> (op \<noteq> CloseOp \<longrightarrow> r = Inr ()) \<and>
    (\<forall>e. r = Inl e \<longrightarrow> e = conn_Error.Closed) \<and> sender_ok mode self' \<and>
    outp (sh_world sh') = outp (sh_world sh) @ frame_wire (answer_frame mode m (op_answer op)) \<and>
    inp (sh_world sh') = inp (sh_world sh) \<and> sh_extensions sh' = sh_extensions sh"
proof -
  have ext: "\<not> s_has_extensions self" using ok by (simp add: sender_ok_def)
  have w: "\<exists>m self' w'. sender_write env self (sh_world sh) (header_new oc) data = Some (Inr (), self', w') \<and> sender_ok mode self' \<and>
     outp w' = outp (sh_world sh) @ frame_wire (answer_frame mode m (oc, as_ref data)) \<and> inp w' = inp (sh_world sh)" for oc data
    using sender_write_ok [OF snk ok] by blast
  show ?thesis
  proof (cases op)
    case CloseOp
    obtain m self' w' where c: "sender_write env self (sh_world sh) (header_new OpCode.Close) (Shared (to_be_bytes 2 (1000 :: u16))) =
        Some (Inr (), self', w')" "sender_ok mode self'"
      "outp w' = outp (sh_world sh) @ frame_wire (answer_frame mode m (op_answer CloseOp))" "inp w' = inp (sh_world sh)"
      using w [of OpCode.Close "Shared (to_be_bytes 2 (1000 :: u16))"] by auto
    obtain w2 where w2: "sock_flush env w' = (Inr (), w2)" "outp w2 = outp w'" "inp w2 = inp w'"
      using snk unfolding sink_ok_def by blast
    obtain r w3 where w3: "sock_close env w2 = (r, w3)" "outp w3 = outp w2" "inp w3 = inp w2"
      using snk unfolding sink_ok_def by blast
    show ?thesis using c w2 w3 CloseOp by (cases r) (auto simp: sender_close_def sender_flush_def Let_def)
  next
    case (SendText s)
    then show ?thesis using w [of OpCode.Text "Shared s"] ext by (auto simp: send_text_def send_frame_def)
  next
    case (SendTextOwned s)
    then show ?thesis using w [of OpCode.Text "Owned s"] ext by (auto simp: send_text_owned_def send_frame_def)
  next
    case (SendBinary b)
    then show ?thesis using w [of OpCode.Binary "Shared b"] ext by (auto simp: send_binary_def send_frame_def)
  next
    case (SendBinaryMut b)
    then show ?thesis using w [of OpCode.Binary "Unique b"] ext by (auto simp: send_binary_mut_def send_frame_def)
  next
    case (SendPing b)
    then show ?thesis using w [of OpCode.Ping "Shared (byte_slice_125_as_ref b)"] by (auto simp: send_ping_def)
  next
    case (SendPong b)
    then show ?thesis using w [of OpCode.Pong "Shared (byte_slice_125_as_ref b)"] by (auto simp: send_pong_def)
  qed
qed

section \<open>From one endpoint to the other\<close>

lemma receive_whole:
  assumes env: "env_ok env inp outp" and f: "frame_ok c f" "h_fin (fst f)" "\<not> is_control (h_opcode (fst f))"
    "h_opcode (fst f) \<noteq> OpCode.Continue" "length (snd f) \<le> unat limit"
    and at: "recv_at inp outp c mode limit d self sh (frame_wire f @ rest) out False"
  shows "\<exists>self' sh'. receive env x self sh message =
      Some (data_result (h_opcode (fst f)) (length (snd f)), self', sh', message @ snd f) \<and>
    recv_at inp outp c mode limit d self' sh' rest out False"
proof -
  have "unat (h_payload_len (fst f)) = length (snd f)" using f(1) by (simp add: frame_ok_def)
  then have s: "spec_receive limit (length message) None 0 message [f] = Some (data_result (h_opcode (fst f)) (length (snd f)),
      message @ snd f, [], False, [])"
    using f by (simp add: spec_frame_def spec_data_def spec_message_def data_result_def word_less_nat_alt)
  show ?thesis using receive_ok_rest [OF env _ _ s, of c mode d self sh rest out x] at f(1) by (auto simp: data_result_def)
qed

text \<open>
  C15. End to end: text or binary data sent by one endpoint, with any of the four operations and whether client or
  server, is received by the other as one message of that type with the same bytes, if it is within the
  receiver's limits.
\<close>

theorem send_then_receive:
  assumes snd: "sink_ok env inp outp" "sender_ok mode self" "op_answer op = (oc, data)" "oc \<in> {OpCode.Text, OpCode.Binary}"
    and rcv: "env_ok env2 inp2 outp2" "length data \<le> unat limit" "length data \<le> unat (c_max_data_size c)"
  shows "\<exists>self' sh' bs. perform env x self sh op = Some (Inr (), self', sh') \<and>
    outp (sh_world sh') = outp (sh_world sh) @ bs \<and>
    (\<forall>self2 sh2 rest out2 message. recv_at inp2 outp2 c mode2 limit d self2 sh2 (bs @ rest) out2 False \<longrightarrow>
      (\<exists>self3 sh3. receive env2 x2 self2 sh2 message = Some (data_result oc (length data), self3, sh3, message @ data) \<and>
        recv_at inp2 outp2 c mode2 limit d self3 sh3 rest out2 False))"
proof -
  from perform_ok [OF snd(1,2), of x sh op] snd(3,4) obtain m self' sh' where
    p: "perform env x self sh op = Some (Inr (), self', sh')"
      "outp (sh_world sh') = outp (sh_world sh) @ frame_wire (answer_frame mode m (oc, data))" by auto
  have "frame_ok c (answer_frame mode m (oc, data))" using rcv(3) snd(4) by (intro answer_frame_ok) auto
  then have "\<exists>self3 sh3. receive env2 x2 self2 sh2 message = Some (data_result oc (length data), self3, sh3, message @ data) \<and>
        recv_at inp2 outp2 c mode2 limit d self3 sh3 rest out2 False"
    if "recv_at inp2 outp2 c mode2 limit d self2 sh2 (frame_wire (answer_frame mode m (oc, data)) @ rest) out2 False"
    for self2 sh2 rest out2 message
    using receive_whole [OF rcv(1) _ _ _ _ _ that, of x2 message] snd(4) rcv(2) by auto
  then show ?thesis using p by blast
qed

definition example_sender :: "Mode \<Rightarrow> Sender" where
  "example_sender mode = \<lparr>s_id = 1, s_mode = mode, s_codec = codec_new, s_mask_buffer = [], s_has_extensions = False\<rparr>"

lemma example_sender_ok: "sender_ok mode (example_sender mode)"
  by (simp add: sender_ok_def example_sender_def)

theorem send_then_receive_witness:
  "\<forall>x x2. \<exists>self' sh' self3 sh3. perform (mem_env 1) x (example_sender Client) (example_shared []) (SendText [0x48, 0x69]) =
      Some (Inr (), self', sh') \<and>
    receive (mem_env 3) x2 (example_receiver 10) (example_shared (mem_out (sh_world sh'))) [] =
      Some (Inr (Incoming.Data (Data.Text 2)), self3, sh3, [0x48, 0x69])"
proof (intro allI)
  fix x x2 :: "unit Extension"
  have h: "op_answer (SendText [0x48, 0x69]) = (OpCode.Text, [0x48, 0x69])" "OpCode.Text \<in> {OpCode.Text, OpCode.Binary}"
    "length [0x48, 0x69 :: u8] \<le> unat (10 :: usize)" "length [0x48, 0x69 :: u8] \<le> unat (c_max_data_size codec_new)"
    by (simp_all add: codec_new_def)
  from send_then_receive [OF env_okD(3) [OF mem_env_ok [of 1]] example_sender_ok h(1,2) mem_env_ok [of 3] h(3,4),
      where mode = Client and x = x and sh = "example_shared []" and ?mode2.0 = Server and d = True and ?x2.0 = x2]
  obtain self' sh' bs where p: "perform (mem_env 1) x (example_sender Client) (example_shared []) (SendText [0x48, 0x69]) = Some (Inr (), self', sh')"
    "mem_out (sh_world sh') = mem_out (sh_world (example_shared [])) @ bs"
    "\<forall>self2 sh2 rest out2 message. recv_at mem_in mem_out codec_new Server 10 True self2 sh2 (bs @ rest) out2 False \<longrightarrow>
      (\<exists>self3 sh3. receive (mem_env 3) x2 self2 sh2 message =
         Some (data_result OpCode.Text (length [0x48, 0x69 :: u8]), self3, sh3, message @ [0x48, 0x69]) \<and>
        recv_at mem_in mem_out codec_new Server 10 True self3 sh3 rest out2 False)" by blast
  have "bs = mem_out (sh_world sh')" using p(2) by (simp add: example_shared_def)
  then show "\<exists>self' sh' self3 sh3. perform (mem_env 1) x (example_sender Client) (example_shared []) (SendText [0x48, 0x69]) =
      Some (Inr (), self', sh') \<and>
    receive (mem_env 3) x2 (example_receiver 10) (example_shared (mem_out (sh_world sh'))) [] =
      Some (Inr (Incoming.Data (Data.Text 2)), self3, sh3, [0x48, 0x69])"
    using p(1) p(3) [rule_format, of "example_receiver 10" "example_shared bs" "[]" "[]" "[]"] example_recv_at [of 10 True bs]
    by (auto simp: data_result_def)
qed

text \<open>
  Ping: a ping sent by one endpoint is answered by the other with a pong of the same payload, while the
  call of \<open>receive\<close> that met it goes on with the rest of its input.
\<close>

theorem ping_answered:
  assumes snd: "sink_ok env inp outp" "sender_ok mode self" "length p \<le> 125"
    and rcv: "env_ok env2 inp2 outp2" "length p \<le> unat (c_max_data_size c)"
  shows "\<exists>self' sh' bs. perform env x self sh (SendPing (ByteSlice125 p)) = Some (Inr (), self', sh') \<and>
    outp (sh_world sh') = outp (sh_world sh) @ bs \<and>
    (\<forall>self2 sh2 rest out2 message. recv_at inp2 outp2 c mode2 limit d self2 sh2 (bs @ rest) out2 False \<longrightarrow>
      (\<exists>self3 sh3 pong. receive env2 x2 self2 sh2 message = receive env2 x2 self3 sh3 message \<and>
        answers_on_wire mode2 [(OpCode.Pong, p)] pong \<and> recv_at inp2 outp2 c mode2 limit d self3 sh3 rest (out2 @ pong) False))"
proof -
  from perform_ok [OF snd(1,2), of x sh "SendPing (ByteSlice125 p)"] obtain m self' sh' where
    pf: "perform env x self sh (SendPing (ByteSlice125 p)) = Some (Inr (), self', sh')"
      "outp (sh_world sh') = outp (sh_world sh) @ frame_wire (answer_frame mode m (OpCode.Ping, p))" by auto
  have f: "frame_ok c (answer_frame mode m (OpCode.Ping, p))" using snd(3) rcv(2) by (intro answer_frame_ok) auto
  show ?thesis
    by (intro exI conjI, rule pf(1), rule pf(2), intro allI impI)
       (use receive_ping [OF rcv(1) f] in \<open>simp del: answers_on_wire.simps\<close>)
qed

theorem ping_answered_witness:
  "\<forall>x x2. \<exists>self' sh' self3 sh3 pong. perform (mem_env 1) x (example_sender Client) (example_shared []) (SendPing (ByteSlice125 [7])) =
      Some (Inr (), self', sh') \<and>
    receive (mem_env 3) x2 (example_receiver 10) (example_shared (mem_out (sh_world sh'))) [] = receive (mem_env 3) x2 self3 sh3 [] \<and>
    answers_on_wire Server [(OpCode.Pong, [7])] pong \<and> mem_out (sh_world sh3) = pong"
proof (intro allI)
  fix x x2 :: "unit Extension"
  have h: "length [7 :: u8] \<le> 125" "length [7 :: u8] \<le> unat (c_max_data_size codec_new)" by (simp_all add: codec_new_def)
  from ping_answered [OF env_okD(3) [OF mem_env_ok [of 1]] example_sender_ok h(1) mem_env_ok [of 3] h(2), where mode = Client and
      x = x and sh = "example_shared []" and ?mode2.0 = Server and limit = 10 and d = True and ?x2.0 = x2]
  obtain self' sh' bs where p: "perform (mem_env 1) x (example_sender Client) (example_shared []) (SendPing (ByteSlice125 [7])) = Some (Inr (), self', sh')"
    "mem_out (sh_world sh') = mem_out (sh_world (example_shared [])) @ bs"
    "\<forall>self2 sh2 rest out2 message. recv_at mem_in mem_out codec_new Server 10 True self2 sh2 (bs @ rest) out2 False \<longrightarrow>
      (\<exists>self3 sh3 pong. receive (mem_env 3) x2 self2 sh2 message = receive (mem_env 3) x2 self3 sh3 message \<and>
        answers_on_wire Server [(OpCode.Pong, [7])] pong \<and> recv_at mem_in mem_out codec_new Server 10 True self3 sh3 rest (out2 @ pong) False)"
    by blast
  have bs: "bs = mem_out (sh_world sh')" using p(2) by (simp add: example_shared_def)
  have "recv_at mem_in mem_out codec_new Server 10 True (example_receiver 10) (example_shared bs) (bs @ []) [] False"
    using example_recv_at [of 10 True bs] by simp
  from p(3) [rule_format, OF this, of "[]"] obtain self3 sh3 pong where
    "receive (mem_env 3) x2 (example_receiver 10) (example_shared bs) [] = receive (mem_env 3) x2 self3 sh3 []"
    "answers_on_wire Server [(OpCode.Pong, [7])] pong" "mem_out (sh_world sh3) = pong"
    by (auto simp: recv_at_def simp del: answers_on_wire.simps)
  then show "\<exists>self' sh' self3 sh3 pong. perform (mem_env 1) x (example_sender Client) (example_shared []) (SendPing (ByteSlice125 [7])) =
      Some (Inr (), self', sh') \<and>
    receive (mem_env 3) x2 (example_receiver 10) (example_shared (mem_out (sh_world sh'))) [] = receive (mem_env 3) x2 self3 sh3 [] \<and>
    answers_on_wire Server [(OpCode.Pong, [7])] pong \<and> mem_out (sh_world sh3) = pong"
    using p(1) bs by blast
qed

text \<open>
  Close: when one endpoint closes, the other receives the reason 1000 with an empty description, answers
  with a close frame of the same code, and is closed.
\<close>

theorem close_delivered:
  assumes snd: "sink_ok env inp outp" "sender_ok mode self"
    and rcv: "env_ok env2 inp2 outp2" "2 \<le> unat (c_max_data_size c)"
  shows "\<exists>r self' sh' bs. perform env x self sh CloseOp = Some (r, self', sh') \<and>
    outp (sh_world sh') = outp (sh_world sh) @ bs \<and>
    (\<forall>self2 sh2 rest out2 message. recv_at inp2 outp2 c mode2 limit d self2 sh2 (bs @ rest) out2 False \<longrightarrow>
      (\<exists>self3 sh3 answer. receive env2 x2 self2 sh2 message =
          Some (Inr (Incoming.Closed \<lparr>cr_code = 1000, cr_descr = Some []\<rparr>), self3, sh3, message) \<and>
        answers_on_wire mode2 [(OpCode.Close, to_be_bytes 2 (1000 :: u16))] answer \<and>
        recv_at inp2 outp2 c mode2 limit d self3 sh3 rest (out2 @ answer) True))"
proof -
  let ?code = "to_be_bytes 2 (1000 :: u16)"
  from perform_ok [OF snd(1,2), of x sh CloseOp] obtain m r self' sh' where
    pf: "perform env x self sh CloseOp = Some (r, self', sh')"
      "outp (sh_world sh') = outp (sh_world sh) @ frame_wire (answer_frame mode m (OpCode.Close, ?code))" by auto
  let ?f = "answer_frame mode m (OpCode.Close, ?code)"
  have f: "frame_ok c (fst ?f, ?code)"
    using answer_frame_ok [of OpCode.Close ?code c mode m] rcv(2) by (simp add: answer_frame_def)
  have ca: "close_answer ?code = Inr (header_new OpCode.Close, Some \<lparr>cr_code = 1000, cr_descr = Some []\<rparr>)"
    by (simp add: to_be_bytes_2 close_answer_def from_utf8_ascii from_be_bytes_def)
  have w: "frame_wire (fst ?f, ?code) = frame_wire ?f" by (simp add: answer_frame_def)
  have "\<exists>self3 sh3 answer. receive env2 x2 self2 sh2 message =
          Some (Inr (Incoming.Closed \<lparr>cr_code = 1000, cr_descr = Some []\<rparr>), self3, sh3, message) \<and>
        answers_on_wire mode2 [(OpCode.Close, ?code)] answer \<and>
        recv_at inp2 outp2 c mode2 limit d self3 sh3 rest (out2 @ answer) True"
    if "recv_at inp2 outp2 c mode2 limit d self2 sh2 (frame_wire ?f @ rest) out2 False" for self2 sh2 rest out2 message
    using receive_closed_by [OF rcv(1) f _ that [folded w], of x2 message] unfolding ca by (simp del: answers_on_wire.simps) blast
  then show ?thesis using pf by blast
qed

theorem close_delivered_witness:
  "\<forall>x x2. \<exists>r self' sh' self3 sh3. perform (mem_env 1) x (example_sender Client) (example_shared []) CloseOp = Some (r, self', sh') \<and>
    receive (mem_env 3) x2 (example_receiver 10) (example_shared (mem_out (sh_world sh'))) [] =
      Some (Inr (Incoming.Closed \<lparr>cr_code = 1000, cr_descr = Some []\<rparr>), self3, sh3, [])"
proof (intro allI)
  fix x x2 :: "unit Extension"
  have h: "2 \<le> unat (c_max_data_size codec_new)" by (simp add: codec_new_def)
  from close_delivered [OF env_okD(3) [OF mem_env_ok [of 1]] example_sender_ok mem_env_ok [of 3] h, where mode = Client and
      x = x and sh = "example_shared []" and ?mode2.0 = Server and limit = 10 and d = True and ?x2.0 = x2]
  obtain r self' sh' bs where p: "perform (mem_env 1) x (example_sender Client) (example_shared []) CloseOp = Some (r, self', sh')"
    "mem_out (sh_world sh') = mem_out (sh_world (example_shared [])) @ bs"
    "\<forall>self2 sh2 rest out2 message. recv_at mem_in mem_out codec_new Server 10 True self2 sh2 (bs @ rest) out2 False \<longrightarrow>
      (\<exists>self3 sh3 answer. receive (mem_env 3) x2 self2 sh2 message =
          Some (Inr (Incoming.Closed \<lparr>cr_code = 1000, cr_descr = Some []\<rparr>), self3, sh3, message) \<and>
        answers_on_wire Server [(OpCode.Close, to_be_bytes 2 (1000 :: u16))] answer \<and>
        recv_at mem_in mem_out codec_new Server 10 True self3 sh3 rest (out2 @ answer) True)" by blast
  have bs: "bs = mem_out (sh_world sh')" using p(2) by (simp add: example_shared_def)
  have "recv_at mem_in mem_out codec_new Server 10 True (example_receiver 10) (example_shared bs) (bs @ []) [] False"
    using example_recv_at [of 10 True bs] by simp
  from p(3) [rule_format, OF this, of "[]"] p(1) bs
  show "\<exists>r self' sh' self3 sh3. perform (mem_env 1) x (example_sender Client) (example_shared []) CloseOp = Some (r, self', sh') \<and>
    receive (mem_env 3) x2 (example_receiver 10) (example_shared (mem_out (sh_world sh'))) [] =
      Some (Inr (Incoming.Closed \<lparr>cr_code = 1000, cr_descr = Some []\<rparr>), self3, sh3, [])"
    by blast
qed

end
