(* ===== verification/Builder_Props.thy ===== *)
theory Builder_Props
  imports Sender_Props
begin

text \<open>
  The builder: what a configured connection starts with, and that it starts in the state the theorems on
  sender and receiver assume.
\<close>

lemma reserved_bits_set_max [simp]: "reserved_bits (set_max_data_size c n) = reserved_bits c"
  by (simp add: reserved_bits_def set_max_data_size_def)

text \<open>Adding extensions changes the reserved bits and the extension list, and nothing else.\<close>

lemma add_extension_keeps:
  "c_max_data_size (b_codec (add_extension x e b)) = c_max_data_size (b_codec b)"
  "c_header_buffer (b_codec (add_extension x e b)) = c_header_buffer (b_codec b)"
  "b_extensions (add_extension x e b) = b_extensions b @ [e]"
  "b_id (add_extension x e b) = b_id b" "b_mode (add_extension x e b) = b_mode b" "b_socket (add_extension x e b) = b_socket b"
  "b_buffer (add_extension x e b) = b_buffer b" "b_max_message_size (add_extension x e b) = b_max_message_size b"
  by (simp_all add: add_extension_def add_reserved_bits_def split: prod.splits)

lemma reserved_bits_add_extension:
  "reserved_bits (b_codec (add_extension x e b)) =
     (fst (reserved_bits (b_codec b)) \<or> fst (ext_reserved_bits x e),
      fst (snd (reserved_bits (b_codec b))) \<or> fst (snd (ext_reserved_bits x e)),
      snd (snd (reserved_bits (b_codec b))) \<or> snd (snd (ext_reserved_bits x e)))"
  using reserved_bits_add_one [of "b_codec b" "fst (ext_reserved_bits x e)" "fst (snd (ext_reserved_bits x e))" "snd (snd (ext_reserved_bits x e))"]
  by (simp add: add_extension_def split_beta)

lemma fold_add_extension:
  "c_max_data_size (b_codec (fold (add_extension x) es b)) = c_max_data_size (b_codec b) \<and>
   c_header_buffer (b_codec (fold (add_extension x) es b)) = c_header_buffer (b_codec b) \<and>
   b_extensions (fold (add_extension x) es b) = b_extensions b @ es \<and>
   b_id (fold (add_extension x) es b) = b_id b \<and> b_mode (fold (add_extension x) es b) = b_mode b \<and>
   b_socket (fold (add_extension x) es b) = b_socket b \<and> b_buffer (fold (add_extension x) es b) = b_buffer b \<and>
   b_max_message_size (fold (add_extension x) es b) = b_max_message_size b \<and>
   reserved_bits (b_codec (fold (add_extension x) es b)) =
     (fst (reserved_bits (b_codec b)) \<or> (\<exists>e \<in> set es. fst (ext_reserved_bits x e)),
      fst (snd (reserved_bits (b_codec b))) \<or> (\<exists>e \<in> set es. fst (snd (ext_reserved_bits x e))),
      snd (snd (reserved_bits (b_codec b))) \<or> (\<exists>e \<in> set es. snd (snd (ext_reserved_bits x e))))"
proof (induction es arbitrary: b)
  case (Cons e es)
  show ?case
    using Cons.IH [of "add_extension x e b"]
    by (simp add: add_extension_keeps reserved_bits_add_extension disj_assoc)
qed simp

text \<open>A builder with every option set.\<close>

definition configured :: "'w Env \<Rightarrow> 'e Extension \<Rightarrow> 'w \<Rightarrow> Mode \<Rightarrow> bytes \<Rightarrow> usize \<Rightarrow> usize \<Rightarrow> 'e list \<Rightarrow> ('w, 'e) Builder" where
  "configured env x w mode buf frame_max message_max es =
     add_extensions x (set_max_message_size (set_max_frame_size (set_buffer (builder_new env w mode) buf) frame_max) message_max) es"

text \<open>
  The builder: only the enabled extensions are used, in their order; both halves accept exactly the reserved bits
  these claim and know whether there are any; sizes, buffer and mode are those that were set, and
  both halves carry the same connection id.
\<close>

theorem builder_finish:
  "case finish (configured env x w mode buf frame_max message_max es) of (s, r, sh) \<Rightarrow>
     sh_extensions sh = filter (ext_is_enabled x) es \<and>
     s_has_extensions s = (\<exists>e \<in> set es. ext_is_enabled x e) \<and> r_has_extensions r = s_has_extensions s \<and>
     r_codec r = s_codec s \<and> codec_ok (s_codec s) \<and> c_max_data_size (s_codec s) = frame_max \<and>
     reserved_bits (s_codec s) =
       (\<exists>e \<in> set es. ext_is_enabled x e \<and> fst (ext_reserved_bits x e),
        \<exists>e \<in> set es. ext_is_enabled x e \<and> fst (snd (ext_reserved_bits x e)),
        \<exists>e \<in> set es. ext_is_enabled x e \<and> snd (snd (ext_reserved_bits x e))) \<and>
     r_max_message_size r = message_max \<and> r_buffer r = buf \<and> \<not> r_is_closed r \<and>
     s_mode s = mode \<and> r_mode r = mode \<and> s_id s = r_id r"
proof -
  obtain m w1 where m: "random_u32 env w = (m, w1)" by force
  show ?thesis
    using fold_add_extension [of x "filter (ext_is_enabled x) es"
        "set_max_message_size (set_max_frame_size (set_buffer (builder_new env w mode) buf) frame_max) message_max"]
    by (auto simp: finish_def configured_def add_extensions_def builder_new_def m set_buffer_def set_max_frame_size_def
        set_max_message_size_def Let_def codec_ok_def set_max_data_size_def codec_new_def reserved_bits_def filter_empty_conv)
qed

text \<open>
  A finished connection without extensions is in the state the receiver's and sender's theorems
  start from: the input is the buffer the builder was given, then the socket.
\<close>

theorem builder_establishes:
  assumes "sink_ok env inp outp" "\<forall>e \<in> set es. \<not> ext_is_enabled x e"
  shows "case finish (configured env x w mode buf frame_max message_max es) of (s, r, sh) \<Rightarrow>
     sender_ok mode s \<and>
     recv_at inp outp (set_max_data_size codec_new frame_max) mode message_max (buf = []) r sh (buf @ inp w) (outp w) False"
proof -
  obtain m w1 where m: "random_u32 env w = (m, w1)" by force
  then have "outp w1 = outp w" "inp w1 = inp w" using assms(1) unfolding sink_ok_def by auto
  moreover have "filter (ext_is_enabled x) es = []" using assms(2) by (simp add: filter_empty_conv)
  ultimately show ?thesis
    by (auto simp: finish_def configured_def add_extensions_def builder_new_def m set_buffer_def set_max_frame_size_def
        set_max_message_size_def Let_def codec_ok_def set_max_data_size_def codec_new_def sender_ok_def recv_at_def)
qed

theorem builder_establishes_witness:
  "\<forall>x. case finish (configured (mem_env 1) x \<lparr>mem_in = [1, 2], mem_out = [], mem_key = 5\<rparr> Client [0] 100 200 ([] :: unit list)) of (s, r, sh) \<Rightarrow>
     sender_ok Client s \<and>
     recv_at mem_in mem_out (set_max_data_size codec_new 100) Client 200 False r sh [0, 1, 2] [] False"
proof
  fix x :: "unit Extension"
  show "case finish (configured (mem_env 1) x \<lparr>mem_in = [1, 2], mem_out = [], mem_key = 5\<rparr> Client [0] 100 200 []) of (s, r, sh) \<Rightarrow>
     sender_ok Client s \<and>
     recv_at mem_in mem_out (set_max_data_size codec_new 100) Client 200 False r sh [0, 1, 2] [] False"
    using builder_establishes [OF env_okD(3) [OF mem_env_ok [of 1]], where es = "[]" and x = x and mode = Client
        and w = "\<lparr>mem_in = [1, 2], mem_out = [], mem_key = 5\<rparr>" and buf = "[0]" and frame_max = 100 and message_max = 200]
    by simp
qed

end
