(* ===== verification/Handshake_Deflate.thy ===== *)
theory Handshake_Deflate
  imports Handshake_Props Deflate_Props Builder_Props
begin

text \<open>
  Handshakes that negotiate compression: the headers a deflate extension writes are well formed, and after the
  handshake both connections are built with matching extensions.
\<close>

section \<open>The offers of a deflate extension\<close>

definition token_param :: "Param \<Rightarrow> bool" where
  "token_param p \<longleftrightarrow> param_ok p \<and> param_name p \<noteq> []"

definition params_ok :: "Deflate \<Rightarrow> bool" where
  "params_ok d = list_all token_param (d_params d)"

lemma params_ok_update [simp]: "params_ok (d\<lparr>d_params := ps\<rparr>) = list_all token_param ps"
  "params_ok (d\<lparr>d_our_max_window_bits := v\<rparr>) = params_ok d" "params_ok (d\<lparr>d_their_max_window_bits := v\<rparr>) = params_ok d"
  "params_ok (d\<lparr>d_enabled := b\<rparr>) = params_ok d"
  by (simp_all add: params_ok_def)

lemma digit_token: "k < 10 \<Longrightarrow> token_byte (0x30 + of_nat k)"
proof -
  assume "k < 10"
  then have "unat (0x30 + of_nat k :: u8) = 0x30 + k" by (simp add: unat_word_ariths unat_of_nat take_bit_eq_mod)
  then show ?thesis using \<open>k < 10\<close> by (simp add: token_byte_def name_byte_def in_range_def word_le_nat_alt)
qed

lemma decimal_token: "list_all token_byte (decimal n)"
  by (induction n rule: decimal.induct) (subst decimal.simps, simp add: digit_token)

lemma u8_to_string_token: "list_all token_byte (u8_to_string v)"
  by (simp add: u8_to_string_def decimal_token)

lemma deflate_names_token [simp]:
  "list_all token_byte SERVER_NO_CONTEXT_TAKEOVER" "list_all token_byte SERVER_MAX_WINDOW_BITS"
  "list_all token_byte CLIENT_NO_CONTEXT_TAKEOVER" "list_all token_byte CLIENT_MAX_WINDOW_BITS"
  by (simp_all add: SERVER_NO_CONTEXT_TAKEOVER_def SERVER_MAX_WINDOW_BITS_def CLIENT_NO_CONTEXT_TAKEOVER_def
      CLIENT_MAX_WINDOW_BITS_def lit_def token_byte_def name_byte_def in_range_def)

lemma deflate_names_nonempty [simp]:
  "SERVER_NO_CONTEXT_TAKEOVER \<noteq> []" "SERVER_MAX_WINDOW_BITS \<noteq> []" "CLIENT_NO_CONTEXT_TAKEOVER \<noteq> []" "CLIENT_MAX_WINDOW_BITS \<noteq> []"
  by (simp_all add: SERVER_NO_CONTEXT_TAKEOVER_def SERVER_MAX_WINDOW_BITS_def CLIENT_NO_CONTEXT_TAKEOVER_def CLIENT_MAX_WINDOW_BITS_def)

lemma token_param_new [simp]:
  "token_param (param_new n) \<longleftrightarrow> list_all token_byte n \<and> n \<noteq> []"
  by (simp add: token_param_def param_ok_def param_new_def model_defs)

lemma token_param_set [simp]: "token_param p \<Longrightarrow> token_param (param_set_value p (Some (u8_to_string v)))"
  by (auto simp: token_param_def param_ok_def u8_to_string_token model_defs)

lemma set_or_push_ok:
  "list_all token_byte n \<Longrightarrow> n \<noteq> [] \<Longrightarrow> list_all token_param ps \<Longrightarrow> list_all token_param (set_or_push n (u8_to_string v) ps)"
  by (induction ps) simp_all

lemma offering_params_ok:
  assumes "offering server_bits client_bits = Some d"
  shows "params_ok d"
proof -
  have new: "params_ok (deflate_new Client)" by (simp add: params_ok_def deflate_new_def)
  have server: "params_ok d'" if "params_ok d" "set_max_server_window_bits d n = Some d'" for d d' n
    using that by (auto simp: set_max_server_window_bits_def params_ok_def split: if_splits)
  have client: "params_ok d'" if "params_ok d" "set_max_client_window_bits d n = Some d'" for d d' n
    using that set_or_push_ok [of CLIENT_MAX_WINDOW_BITS "d_params d"]
    by (auto simp: set_max_client_window_bits_def params_ok_def split: if_splits)
  obtain d1 where d1: "(case server_bits of Some n \<Rightarrow> set_max_server_window_bits (deflate_new Client) n | None \<Rightarrow> Some (deflate_new Client)) = Some d1"
    "(case client_bits of Some n \<Rightarrow> set_max_client_window_bits d1 n | None \<Rightarrow> Some d1) = Some d"
    using assms unfolding offering_def bind_eq_Some_conv by blast
  have "params_ok d1" using d1(1) new server [OF new] by (cases server_bits) auto
  then show ?thesis using d1(2) client by (cases client_bits) auto
qed

lemma configure_server_params_ok: "params_ok d \<Longrightarrow> configure_server d ps = (r, d') \<Longrightarrow> params_ok d'"
proof (induction ps arbitrary: d)
  case (Cons p ps)
  obtain r1 d1 where s: "set_their_max_window_bits d p None = (r1, d1)" by force
  have d1: "params_ok d1"
    using s Cons.prems(1) by (auto simp: set_their_max_window_bits_def params_ok_def split: option.splits if_splits)
  have add: "params_ok (d\<lparr>d_params := d_params d @ [q]\<rparr>)" if "token_param q" for q
    using Cons.prems(1) that by (simp add: params_ok_def)
  have window: "params_ok (d\<lparr>d_params := d_params d @ [param_set_value (param_new SERVER_MAX_WINDOW_BITS) (Some (u8_to_string v))],
      d_our_max_window_bits := v\<rparr>)" for v
    using Cons.prems(1) by (simp add: params_ok_def)
  show ?case using Cons.prems s d1 Cons.IH [OF d1] Cons.IH [OF window] Cons.IH [OF add [of "param_new CLIENT_NO_CONTEXT_TAKEOVER"]]
      Cons.IH [OF add [of "param_new SERVER_NO_CONTEXT_TAKEOVER"]]
    by (simp split: if_splits sum.splits option.splits)
qed simp

lemma deflate_server_params_ok:
  assumes "deflate_configure (deflate_new Server) ps = (r, d)"
  shows "params_ok d"
proof -
  obtain b d1 where c: "configure_server ((deflate_new Server)\<lparr>d_params := []\<rparr>) ps = (b, d1)" by force
  then have "params_ok d1" by (rule configure_server_params_ok [rotated]) simp
  then show ?thesis using assms c by (cases b) (auto simp: deflate_configure_def deflate_new_def params_ok_def)
qed

section \<open>Offer lines\<close>

lemma param_text_graphic: "param_ok p \<Longrightarrow> list_all graphic (param_text p)"
  using token_no_separator(1) by (auto simp: param_ok_def param_text_def graphic_def in_range_def split: option.splits)

lemma offer_value_ok:
  assumes "list_all token_byte name" "name \<noteq> []" "list_all token_param ps"
  shows "value_ok (ext_text name ps)"
proof -
  have g: "list_all graphic name" by (rule token_no_separator(1) [OF assms(1)])
  have p: "list_all printable (concat (map (\<lambda>p. 0x3B # 0x20 # param_text p) ps))"
    using assms(3)
  proof (induction ps)
    case (Cons q qs)
    then have "list_all printable (param_text q)" using graphic_list(1) [OF param_text_graphic] by (simp add: token_param_def)
    moreover have "printable 0x3B" "printable 0x20" by (simp_all add: printable_def in_range_def)
    ultimately show ?case using Cons by simp
  qed simp
  have "graphic (hd (ext_text name ps))" using g assms(2) by (cases name) (auto simp: ext_text_def)
  moreover have "graphic (List.last (ext_text name ps))"
  proof (cases ps rule: rev_cases)
    case Nil
    then show ?thesis using g assms(2) by (cases name rule: rev_cases) (auto simp: ext_text_def)
  next
    case (snoc qs q)
    then have "param_text q \<noteq> []" "list_all graphic (param_text q)" using assms(3) param_text_graphic by (auto simp: param_text_def token_param_def)
    then show ?thesis using snoc by (cases "param_text q" rule: rev_cases) (auto simp: ext_text_def)
  qed
  ultimately show ?thesis
    using p graphic_list(1) [OF g] graphic_printable by (auto simp: value_ok_def ext_text_def)
qed

lemma deflate_name_ok: "list_all token_byte (deflate_name d)" "deflate_name d \<noteq> []"
  by (simp_all add: deflate_name_def lit_def token_byte_def name_byte_def in_range_def)

lemma deflate_line: "append_extension_header_value (deflate_extension f) [d] [] = ext_text (deflate_name d) (d_params d)"
  by (simp add: append_extension_header_value_text offers_of_def deflate_extension_def)

lemma deflate_line_ok: "params_ok d \<Longrightarrow> value_ok (append_extension_header_value (deflate_extension f) [d] [])"
  unfolding deflate_line by (rule offer_value_ok) (auto simp: deflate_name_ok params_ok_def)

lemma negotiate_deflate:
  assumes "params_ok peer" "deflate_configure d (d_params peer) = (Inr (), d')"
  shows "negotiate (deflate_extension f) [d] [peer] = (Inr (), [d'])"
proof -
  let ?x = "deflate_extension f"
  have "list_all offer_ok (offers_of ?x [peer])"
    using assms(1) deflate_name_ok by (auto simp: offers_of_def offer_ok_def deflate_extension_def params_ok_def token_param_def list_all_iff)
  then have "negotiate ?x [d] [peer] = configure_offers ?x [d] (offers_of ?x [peer])"
    using configure_offers_text [of "offers_of ?x [peer]" "[]" ?x "[d]"]
    by (simp add: negotiate_def configure_extensions_def append_extension_header_value_text offers_of_def)
  then show ?thesis using assms(2) by (simp add: offers_of_def deflate_extension_def deflate_name_def)
qed

section \<open>A handshake that negotiates compression\<close>

lemma deflate_builder:
  assumes "d_enabled d"
  shows "cl_extensions c = [d] \<Longrightarrow> b_extensions (client_into_builder env (deflate_extension f) c) = [d]"
    "sv_extensions s = [d] \<Longrightarrow> b_extensions (server_into_builder env (deflate_extension f) s) = [d]"
    "cl_extensions c = [d] \<Longrightarrow> reserved_bits (b_codec (client_into_builder env (deflate_extension f) c)) = (True, False, False)"
    "sv_extensions s = [d] \<Longrightarrow> reserved_bits (b_codec (server_into_builder env (deflate_extension f) s)) = (True, False, False)"
  using assms
  by (simp_all add: client_into_builder_def server_into_builder_def builder_new_def set_buffer_def add_extensions_def add_extension_def
      deflate_extension_def deflate_reserved_bits_def Let_def reserved_bits_add_one split: prod.splits)

text \<open>
  C25. A client that offers compression, with or without limits on the window sizes, and a server that supports it complete
  the handshake with compression enabled on both sides. Each side compresses with the window size the other
  expects, and both connections are built with exactly that extension and accept its reserved bit.
\<close>

theorem deflate_handshake:
  assumes "env_ok env inp outp" "libs_ok lib inp outp" "client_ok (deflate_extension f) c" "random_16 lib (cl_socket c) = (n, w0)"
    and "length (client_request (deflate_extension f) c (base64 lib n)) \<le> MAX_HEADERS_SIZE" "asked_for (cl_protocols c) protocol"
    and "window_bits_or server_bits" "window_bits_or client_bits" "offering server_bits client_bits = Some client"
    and "server = snd (deflate_configure (deflate_new Server) (d_params client))"
    and "cl_extensions c = [client]" "sv_extensions s = [deflate_new Server]"
    and "inp (sv_socket s) = client_request (deflate_extension f) c (base64 lib n)"
    and "inp (cl_socket c) = server_response (deflate_extension f) (base64 lib (sha1 lib (base64 lib n @ KEY))) protocol [server] @ rest"
  shows "\<exists>req s1 s2 c' client'. receive_request lib env (deflate_extension f) s = Some (Inr req, s1) \<and>
    send_response lib env (deflate_extension f) s1 (Accept (request_key req) protocol) = Some (Inr (), s2) \<and>
    client_handshake lib env (deflate_extension f) c = Some (Inr (Accepted protocol), c') \<and>
    b_extensions (server_into_builder env (deflate_extension f) s2) = [server] \<and>
    b_extensions (client_into_builder env (deflate_extension f) c') = [client'] \<and>
    reserved_bits (b_codec (server_into_builder env (deflate_extension f) s2)) = (True, False, False) \<and>
    reserved_bits (b_codec (client_into_builder env (deflate_extension f) c')) = (True, False, False) \<and>
    d_our_max_window_bits server = d_their_max_window_bits client' \<and>
    d_our_max_window_bits client' = d_their_max_window_bits server \<and> cl_buffer c' @ inp (cl_socket c') = rest"
proof -
  let ?x = "deflate_extension f"
  obtain client' where n: "deflate_configure (deflate_new Server) (d_params client) = (Inr (), server)"
    "deflate_configure client (d_params server) = (Inr (), client')" "d_enabled server" "d_enabled client'"
    "d_their_max_window_bits client' = d_our_max_window_bits server" "d_their_max_window_bits server = d_our_max_window_bits client'"
    using negotiation_agrees [OF assms(7,8)] assms(9,10) by auto
  have ok: "params_ok client" "params_ok server"
    using offering_params_ok [OF assms(9)] deflate_server_params_ok [OF n(1)] by auto
  have en: "filter (ext_is_enabled ?x) [server] = [server]" using n(3) by (simp add: deflate_extension_def)
  have neg: "negotiate ?x (sv_extensions s) (cl_extensions c) = (Inr (), [server])"
    "negotiate ?x (cl_extensions c) (filter (ext_is_enabled ?x) [server]) = (Inr (), [client'])"
    "value_ok (append_extension_header_value ?x (filter (ext_is_enabled ?x) [server]) [])"
    unfolding en assms(11,12) using negotiate_deflate [OF ok(1) n(1)] negotiate_deflate [OF ok(2) n(2)] deflate_line_ok [OF ok(2)] by auto
  obtain req s1 s2 c' where h: "receive_request lib env ?x s = Some (Inr req, s1)"
    "send_response lib env ?x s1 (Accept (request_key req) protocol) = Some (Inr (), s2)"
    "client_handshake lib env ?x c = Some (Inr (Accepted protocol), c')" "sv_extensions s2 = [server]" "cl_extensions c' = [client']"
    "cl_buffer c' @ inp (cl_socket c') = rest"
    using handshake_completes [OF assms(1-5) neg assms(6,13,14)] by blast
  show ?thesis
    by (rule exI [of _ req], rule exI [of _ s1], rule exI [of _ s2], rule exI [of _ c'], rule exI [of _ client'])
       (simp add: h n(5,6) deflate_builder(1,3) [OF n(4) h(5)] deflate_builder(2,4) [OF n(3) h(4)])
qed

end
