(* ===== verification/Handshake_Http.thy ===== *)
theory Handshake_Http
  imports Handshake
begin

text \<open>
  \<^verbatim>\<open>src/handshake/http.rs\<close>: the server's side over the types of the \<^verbatim>\<open>http\<close> crate. That crate is
  not code of this repository: a request's \<^verbatim>\<open>HeaderMap\<close> is the record of what its methods answer, and
  the bytes a header value may hold are a parameter, since building a response with others fails.
\<close>

record HeaderMap =
  hm_get :: "str \<Rightarrow> bytes option"
  hm_get_all :: "str \<Rightarrow> bytes list"
  hm_iter :: "(str \<times> bytes) list"

record http_Reply =
  rp_status :: u16
  rp_headers :: "(str \<times> bytes) list"

record 'e HttpServer =
  hs_extensions :: "'e list"
  hs_buffer :: bytes

definition http_server_new :: "'e HttpServer" where
  "http_server_new = \<lparr>hs_extensions = [], hs_buffer = []\<rparr>"

definition http_set_buffer :: "'e HttpServer \<Rightarrow> bytes \<Rightarrow> 'e HttpServer" where
  "http_set_buffer self b = self\<lparr>hs_buffer := b\<rparr>"

definition http_take_buffer :: "'e HttpServer \<Rightarrow> bytes \<times> 'e HttpServer" where
  "http_take_buffer self = (hs_buffer self, self\<lparr>hs_buffer := []\<rparr>)"

definition http_add_extension :: "'e HttpServer \<Rightarrow> 'e \<Rightarrow> 'e HttpServer" where
  "http_add_extension self e = self\<lparr>hs_extensions := hs_extensions self @ [e]\<rparr>"

definition http_drain_extensions :: "'e HttpServer \<Rightarrow> 'e list \<times> 'e HttpServer" where
  "http_drain_extensions self = (hs_extensions self, self\<lparr>hs_extensions := []\<rparr>)"

definition http_into_builder :: "'w Env \<Rightarrow> 'e Extension \<Rightarrow> 'e HttpServer \<Rightarrow> 'w \<Rightarrow> ('w, 'e) Builder" where
  "http_into_builder env x self socket =
     (let builder = builder_new env socket Mode.Server;
          builder = set_buffer builder (hs_buffer self)
      in add_extensions x builder (hs_extensions self))"

section \<open>Upgrade requests\<close>

definition is_ascii_whitespace :: "u8 \<Rightarrow> bool" where
  "is_ascii_whitespace b \<longleftrightarrow> b \<in> {0x20, 0x09, 0x0A, 0x0C, 0x0D}"

fun position :: "('a \<Rightarrow> bool) \<Rightarrow> 'a list \<Rightarrow> nat option" where
  "position p [] = None"
| "position p (a # as) = (if p a then Some 0 else map_option Suc (position p as))"

definition rposition :: "('a \<Rightarrow> bool) \<Rightarrow> 'a list \<Rightarrow> nat option" where
  "rposition p as = map_option (\<lambda>i. length as - 1 - i) (position p (rev as))"

text \<open>Where there is a first byte that is no white space there is a last one, so that the \<^verbatim>\<open>unwrap\<close> does not fail.\<close>

definition http_trim :: "bytes \<Rightarrow> bytes" where
  "http_trim bs =
     (case position (\<lambda>b. \<not> is_ascii_whitespace b) bs of
        None \<Rightarrow> []
      | Some first \<Rightarrow>
          (case rposition (\<lambda>b. \<not> is_ascii_whitespace b) bs of
             None \<Rightarrow> []
           | Some to \<Rightarrow> take (to + 1 - first) (drop first bs)))"

definition header_contains_value :: "HeaderMap \<Rightarrow> str \<Rightarrow> bytes \<Rightarrow> bool" where
  "header_contains_value headers header value =
     list_ex (\<lambda>h. list_ex (\<lambda>v. eq_ignore_ascii_case (http_trim v) value) (split_on 0x2C h))
       (hm_get_all headers header)"

definition is_upgrade_request :: "HeaderMap \<Rightarrow> bool" where
  "is_upgrade_request headers \<longleftrightarrow>
     header_contains_value headers (lit ''connection'') (lit ''upgrade'') \<and>
     header_contains_value headers (lit ''upgrade'') (lit ''websocket'')"

section \<open>Answering a request\<close>

text \<open>The values of the extension headers, or the first UTF-8 error.\<close>

fun extension_config :: "(str \<times> bytes) list \<Rightarrow> hs_Error + str list" where
  "extension_config [] = Inr []"
| "extension_config ((name, v) # hs) =
     (if \<not> eq_ignore_ascii_case name SEC_WEBSOCKET_EXTENSIONS then extension_config hs
      else case from_utf8 v of
          Inl e \<Rightarrow> Inl (hs_from_utf8 e)
        | Inr s \<Rightarrow> (case extension_config hs of Inl e \<Rightarrow> Inl e | Inr ss \<Rightarrow> Inr (s # ss)))"

fun configure_lines :: "'e Extension \<Rightarrow> 'e list \<Rightarrow> str list \<Rightarrow> (hs_Error + unit) \<times> 'e list" where
  "configure_lines x extensions [] = (Inr (), extensions)"
| "configure_lines x extensions (line # rest) =
     (case configure_extensions x extensions line of
        (Inl e, extensions) \<Rightarrow> (Inl e, extensions)
      | (Inr _, extensions) \<Rightarrow> configure_lines x extensions rest)"

text \<open>Building the response; a header value with bytes that are not allowed makes the last call panic.\<close>

definition build_reply :: "(bytes \<Rightarrow> bool) \<Rightarrow> 'e Extension \<Rightarrow> 'e list \<Rightarrow> bytes \<Rightarrow> http_Reply option" where
  "build_reply value_ok x extensions accept_key =
     (let headers = [(lit ''connection'', lit ''upgrade''), (lit ''upgrade'', lit ''websocket''),
                     (lit ''sec-websocket-accept'', accept_key)] @
            (if extensions \<noteq> []
             then [(lit ''sec-websocket-extensions'',
                    append_extension_header_value x (filter (ext_is_enabled x) extensions) [])]
             else [])
      in if list_all (\<lambda>(n, v). value_ok v) headers then Some \<lparr>rp_status = 101, rp_headers = headers\<rparr> else None)"

definition http_receive_request :: "'w Libs \<Rightarrow> (bytes \<Rightarrow> bool) \<Rightarrow> 'e Extension \<Rightarrow> 'e HttpServer \<Rightarrow> HeaderMap \<Rightarrow>
    ((hs_Error + http_Reply) \<times> 'e HttpServer) option" where
  "http_receive_request lib value_ok x self headers =
     (if \<not> is_upgrade_request headers then Some (Inl InvalidSecWebSocketAccept, self)
      else case hm_get headers (lit ''Sec-WebSocket-Key'') of
          None \<Rightarrow> Some (Inl (HeaderNotFound (lit ''Sec-WebSocket-Key'')), self)
        | Some key \<Rightarrow>
            if hm_get headers (lit ''Sec-WebSocket-Version'') \<noteq> Some (lit ''13'')
            then Some (Inl (HeaderNotFound (lit ''Sec-WebSocket-Version'')), self)
            else if length key \<noteq> 24 then Some (Inl InvalidSecWebSocketAccept, self)
            else Option.bind (generate_accept_key lib key) (\<lambda>accept_key.
              case extension_config (hm_iter headers) of
                Inl e \<Rightarrow> Some (Inl e, self)
              | Inr lines \<Rightarrow>
                  (case configure_lines x (hs_extensions self) lines of
                     (Inl e, extensions) \<Rightarrow> Some (Inl e, self\<lparr>hs_extensions := extensions\<rparr>)
                   | (Inr _, extensions) \<Rightarrow>
                       map_option (\<lambda>response. (Inr response, self\<lparr>hs_extensions := extensions\<rparr>))
                         (build_reply value_ok x extensions accept_key))))"

end
