(* ===== verification/Http_Props.thy ===== *)
theory Http_Props
  imports Handshake_Props Handshake_Http
begin

text \<open>
  The handshake over the types of the \<^verbatim>\<open>http\<close> crate: upgrade requests are recognised as a reference definition
  says, and the response is one the client accepts.
\<close>

section \<open>Handshakes over the types of the http crate\<close>

lemma position_split: "position P as = (if list_ex P as then Some (length (takeWhile (\<lambda>a. \<not> P a) as)) else None)"
  by (induction as) auto

lemma takeWhile_shorter: "list_ex (\<lambda>b. \<not> P b) xs \<Longrightarrow> length (takeWhile P xs) < length xs"
  by (induction xs) auto

lemma dropWhile_stops: "list_ex (\<lambda>b. \<not> P b) xs \<Longrightarrow> \<exists>b \<in> set (dropWhile P xs). \<not> P b"
  by (induction xs) auto

lemma http_trim_eq:
  "http_trim bs = rev (dropWhile is_ascii_whitespace (rev (dropWhile is_ascii_whitespace bs)))"
proof (cases "list_all is_ascii_whitespace bs")
  case True
  then have d: "dropWhile is_ascii_whitespace bs = []" and e: "\<not> list_ex (\<lambda>b. \<not> is_ascii_whitespace b) bs"
    by (simp_all add: list_all_iff list_ex_iff)
  show ?thesis unfolding d http_trim_def position_split using e by simp
next
  case False
  let ?w = is_ascii_whitespace
  let ?l = "takeWhile ?w bs" and ?m = "dropWhile ?w bs"
  let ?r = "takeWhile ?w (rev bs)"
  have ex: "list_ex (\<lambda>b. \<not> ?w b) bs" "list_ex (\<lambda>b. \<not> ?w b) (rev bs)" using False by (auto simp: list_ex_iff list_all_iff)
  obtain b where b: "b \<in> set ?m" "\<not> ?w b"
    using dropWhile_stops [OF ex(1)] by blast
  have tw: "takeWhile ?w (rev bs) = takeWhile ?w (rev ?m)" "dropWhile ?w (rev bs) = dropWhile ?w (rev ?m) @ rev ?l"
    using b takeWhile_append1 [of b "rev ?m" ?w "rev ?l"] dropWhile_append1 [of b "rev ?m" ?w "rev ?l"]
    by (metis (no_types) rev_append set_rev takeWhile_dropWhile_id)+
  have "length ?r \<le> length ?m" unfolding tw(1) using length_takeWhile_le [of ?w "rev ?m"] by simp
  moreover have "length bs = length ?l + length ?m" by (metis length_append takeWhile_dropWhile_id)
  moreover have "length ?r < length bs" using takeWhile_shorter [OF ex(2)] by simp
  ultimately have len: "length bs - 1 - length ?r + 1 - length ?l = length ?m - length ?r" by simp
  have "http_trim bs = take (length ?m - length ?r) (drop (length ?l) bs)"
    using ex len by (simp add: http_trim_def position_split rposition_def)
  also have "drop (length ?l) bs = ?m" by (simp add: dropWhile_eq_drop)
  also have "take (length ?m - length ?r) ?m = rev (drop (length ?r) (rev ?m))" by (simp add: rev_drop)
  also have "drop (length ?r) (rev ?m) = dropWhile ?w (rev ?m)" unfolding tw(1) by (simp add: dropWhile_eq_drop)
  finally show ?thesis .
qed

text \<open>A list item, with white space around it.\<close>

definition padded :: "bytes \<Rightarrow> bytes \<Rightarrow> bool" where
  "padded item v \<longleftrightarrow> (\<exists>l r. item = l @ v @ r \<and> list_all is_ascii_whitespace l \<and> list_all is_ascii_whitespace r)"

lemma http_trim_padded: "padded bs (http_trim bs)"
proof -
  let ?w = is_ascii_whitespace
  let ?m = "dropWhile ?w bs"
  have "?m = http_trim bs @ rev (takeWhile ?w (rev ?m))"
    unfolding http_trim_eq by (metis rev_append rev_rev_ident takeWhile_dropWhile_id)
  then have "bs = takeWhile ?w bs @ http_trim bs @ rev (takeWhile ?w (rev ?m))"
    by (metis takeWhile_dropWhile_id)
  moreover have "list_all ?w (takeWhile ?w bs)" "list_all ?w (rev (takeWhile ?w (rev ?m)))"
    by (auto simp: list_all_iff dest: set_takeWhileD)
  ultimately show ?thesis unfolding padded_def by blast
qed

lemma whitespace_lowercase: "is_ascii_whitespace (to_ascii_lowercase b) = is_ascii_whitespace b"
proof (cases "in_range 0x41 0x5A b")
  case True
  then have n: "0x41 \<le> unat b" "unat b \<le> 0x5A" by (simp_all add: in_range_def word_le_nat_alt)
  have "\<not> is_ascii_whitespace (b + 0x20)"
  proof
    assume "is_ascii_whitespace (b + 0x20)"
    then have "unat (b + 0x20) \<in> unat ` {0x20, 0x09, 0x0A, 0x0C, 0x0D :: u8}"
      unfolding is_ascii_whitespace_def by (rule imageI)
    moreover have "unat (b + 0x20) = unat b + 0x20" using n by (simp add: unat_word_ariths)
    ultimately show False using n by auto
  qed
  moreover have "\<not> is_ascii_whitespace b" using n by (auto simp: is_ascii_whitespace_def)
  ultimately show ?thesis using True by (simp add: to_ascii_lowercase_def)
qed (simp add: to_ascii_lowercase_def)

lemma http_trim_of_padded:
  assumes "padded item v" "v \<noteq> []" "\<not> is_ascii_whitespace (hd v)" "\<not> is_ascii_whitespace (List.last v)"
  shows "http_trim item = v"
proof -
  obtain l r where i: "item = l @ v @ r" "list_all is_ascii_whitespace l" "list_all is_ascii_whitespace r"
    using assms(1) unfolding padded_def by blast
  have "dropWhile is_ascii_whitespace item = v @ r"
    using i assms(2,3) by (cases v) (auto simp: list_all_iff dropWhile_append2)
  moreover have "dropWhile is_ascii_whitespace (rev r @ rev v) = dropWhile is_ascii_whitespace (rev v)"
    by (rule dropWhile_append2) (use i(3) in \<open>simp add: list_all_iff\<close>)
  moreover have "dropWhile is_ascii_whitespace (rev v) = rev v"
    using assms(2,4) by (cases v rule: rev_cases) auto
  ultimately show ?thesis by (simp add: http_trim_eq)
qed

lemma header_contains_value_iff:
  assumes "value \<noteq> []" "\<not> is_ascii_whitespace (hd value)" "\<not> is_ascii_whitespace (List.last value)"
  shows "header_contains_value hm name value \<longleftrightarrow>
    (\<exists>h \<in> set (hm_get_all hm name). \<exists>item \<in> set (split_on 0x2C h). \<exists>v. padded item v \<and> eq_ignore_ascii_case v value)"
proof -
  have "http_trim item = v" if v: "padded item v" "eq_ignore_ascii_case v value" for item v
  proof (rule http_trim_of_padded [OF v(1)])
    have m: "map to_ascii_lowercase v = map to_ascii_lowercase value" using v(2) by (simp add: eq_ignore_ascii_case_def)
    then show "v \<noteq> []" using assms(1) by auto
    then show "\<not> is_ascii_whitespace (hd v)" "\<not> is_ascii_whitespace (List.last v)"
      using assms m by (metis hd_map last_map whitespace_lowercase)+
  qed
  then show ?thesis using http_trim_padded by (simp add: header_contains_value_def list_ex_iff) metis
qed

text \<open>
  C32. Equivalence: trimming by the positions of the first and last byte that are not white space is the same as
  looking for an item with white space around it, so a request is taken for an upgrade exactly when one of its
  connection headers lists \<^verbatim>\<open>upgrade\<close> and one of its upgrade headers lists \<^verbatim>\<open>websocket\<close>, in any case and
  with any padding.
\<close>

theorem upgrade_request_spec:
  "is_upgrade_request hm \<longleftrightarrow>
     (\<exists>h \<in> set (hm_get_all hm (lit ''connection'')). \<exists>item \<in> set (split_on 0x2C h).
        \<exists>v. padded item v \<and> eq_ignore_ascii_case v (lit ''upgrade'')) \<and>
     (\<exists>h \<in> set (hm_get_all hm (lit ''upgrade'')). \<exists>item \<in> set (split_on 0x2C h).
        \<exists>v. padded item v \<and> eq_ignore_ascii_case v (lit ''websocket''))"
  unfolding is_upgrade_request_def
  by (subst (1 2) header_contains_value_iff) (simp_all add: lit_def is_ascii_whitespace_def)

definition reply_headers :: "http_Reply \<Rightarrow> http_Header list" where
  "reply_headers r = map (\<lambda>(n, v). \<lparr>hdr_name = n, hdr_value = v\<rparr>) (rp_headers r)"

lemma accept_reply:
  assumes "list_all printable line" "rp_headers r = [(lit ''connection'', lit ''upgrade''), (lit ''upgrade'', lit ''websocket''),
      (lit ''sec-websocket-accept'', base64 lib (sha1 lib (cl_nonce c @ KEY)))] @
      (if has_ext then [(lit ''sec-websocket-extensions'', line)] else [])"
    and "(if has_ext then configure_extensions x (cl_extensions c) line else (Inr (), cl_extensions c)) = (Inr (), ces)"
  shows "accept_response lib x c (reply_headers r) = (Inr (Accepted None), c\<lparr>cl_extensions := ces\<rparr>)"
proof -
  let ?ext = "if has_ext then [hdr ''sec-websocket-extensions'' line] else []"
  have hs: "reply_headers r = [hdr ''connection'' (lit ''upgrade''), hdr ''upgrade'' (lit ''websocket''),
      hdr ''sec-websocket-accept'' (base64 lib (sha1 lib (cl_nonce c @ KEY)))] @ ?ext"
    using assms(2) by (simp add: reply_headers_def hdr_def)
  have n: "named (lit ''Upgrade'') (hdr ''upgrade'' v)" "named (lit ''Connection'') (hdr ''connection'' v)"
    "named (lit ''Sec-WebSocket-Accept'') (hdr ''sec-websocket-accept'' v)"
    "named (lit ''Sec-WebSocket-Extensions'') (hdr ''sec-websocket-extensions'' v)" for v
    by (simp_all add: named_def eq_ignore_ascii_case_def lit_def to_ascii_lowercase_def in_range_def)
  have e: "expect_ascii_header (reply_headers r) (lit ''Upgrade'') (lit ''websocket'') = Inr ()"
    "expect_ascii_header (reply_headers r) (lit ''Connection'') (lit ''upgrade'') = Inr ()"
    unfolding hs expect_ascii_header_Inr using n by auto
  have "configure_from_headers x (cl_extensions c) (reply_headers r) = configure_from_headers x (cl_extensions c) ?ext"
    unfolding hs by (rule configure_from_headers_free) (auto simp: sec_names not_named_length)
  also have "\<dots> = (Inr (), ces)"
    using assms(1,3) n(4) [of line, unfolded named_def hdr_simps]
    by (auto simp: SEC_WEBSOCKET_EXTENSIONS_def from_utf8_printable)
  finally have "configure_from_headers x (cl_extensions c) (reply_headers r) = (Inr (), ces)" .
  moreover have "find (named (lit ''Sec-WebSocket-Accept'')) (reply_headers r) =
      Some (hdr ''sec-websocket-accept'' (base64 lib (sha1 lib (cl_nonce c @ KEY))))"
    "find (named SEC_WEBSOCKET_PROTOCOL) (reply_headers r) = None"
    unfolding hs by (simp_all add: n sec_names not_named_length)
  ultimately show ?thesis
    by (simp add: accept_response_def e with_first_header_named select_protocol_named check_accept_def)
qed

lemma http_receive_request_ok:
  assumes "libs_ok lib inp outp" "is_upgrade_request hm" "hm_get hm (lit ''Sec-WebSocket-Key'') = Some (cl_nonce c)"
    and "length (cl_nonce c) = 24" "hm_get hm (lit ''Sec-WebSocket-Version'') = Some (lit ''13'')"
    and "extension_config (hm_iter hm) = Inr lines" "configure_lines x (hs_extensions s) lines = (Inr (), ses)"
    and "\<forall>v. list_all printable v \<longrightarrow> header_value_ok v"
    and "line = append_extension_header_value x (filter (ext_is_enabled x) ses) []" "list_all printable line"
    and "(if ses \<noteq> [] then configure_extensions x (cl_extensions c) line else (Inr (), cl_extensions c)) = (Inr (), ces)"
  shows "\<exists>reply. http_receive_request lib header_value_ok x s hm = Some (Inr reply, s\<lparr>hs_extensions := ses\<rparr>) \<and>
    rp_status reply = 101 \<and> accept_response lib x c (reply_headers reply) = (Inr (Accepted None), c\<lparr>cl_extensions := ces\<rparr>) \<and>
    (ses \<noteq> [] \<longleftrightarrow> (\<exists>v. (lit ''sec-websocket-extensions'', v) \<in> set (rp_headers reply)))"
proof -
  let ?key = "base64 lib (sha1 lib (cl_nonce c @ KEY))"
  let ?headers = "[(lit ''connection'', lit ''upgrade''), (lit ''upgrade'', lit ''websocket''), (lit ''sec-websocket-accept'', ?key)] @
      (if ses \<noteq> [] then [(lit ''sec-websocket-extensions'', line)] else [])"
  have v: "header_value_ok (lit ''upgrade'')" "header_value_ok (lit ''websocket'')" "header_value_ok ?key" "header_value_ok line"
    using assms(8,10) graphic_list(1) [OF libs_okD(4) [OF assms(1)]] values_ok(1,3) by (simp_all add: value_ok_def)
  have "build_reply header_value_ok x ses ?key = Some \<lparr>rp_status = 101, rp_headers = ?headers\<rparr>"
    using v assms(9) by (simp add: build_reply_def Let_def)
  then have "http_receive_request lib header_value_ok x s hm =
      Some (Inr \<lparr>rp_status = 101, rp_headers = ?headers\<rparr>, s\<lparr>hs_extensions := ses\<rparr>)"
    using assms(2-7) by (simp add: http_receive_request_def libs_okD(5) [OF assms(1)])
  moreover have "accept_response lib x c (reply_headers \<lparr>rp_status = 101, rp_headers = ?headers\<rparr>) =
      (Inr (Accepted None), c\<lparr>cl_extensions := ces\<rparr>)"
    by (rule accept_reply [OF assms(10) _ assms(11)]) simp
  moreover have "lit ''sec-websocket-extensions'' \<noteq> lit ''connection''" "lit ''sec-websocket-extensions'' \<noteq> lit ''upgrade''"
    "lit ''sec-websocket-extensions'' \<noteq> lit ''sec-websocket-accept''"
    by (simp_all add: lit_def)
  ultimately show ?thesis by (intro exI [of _ "\<lparr>rp_status = 101, rp_headers = ?headers\<rparr>"]) auto
qed

text \<open>
  The handshake over \<^verbatim>\<open>http\<close> types: an upgrade request with a key of 24 bytes and version 13, whose extension headers
  are well formed, gets a response, and a client with that key as its nonce accepts the response's headers. If
  the server has extensions the response has an extension header, empty when none of them is enabled.
\<close>

theorem http_reply_accepted:
  assumes "libs_ok lib inp outp" "is_upgrade_request hm" "hm_get hm (lit ''Sec-WebSocket-Key'') = Some (cl_nonce c)"
    and "length (cl_nonce c) = 24" "hm_get hm (lit ''Sec-WebSocket-Version'') = Some (lit ''13'')"
    and "extension_config (hm_iter hm) = Inr lines" "configure_lines x (hs_extensions s) lines = (Inr (), ses)"
    and "\<forall>v. list_all printable v \<longrightarrow> header_value_ok v"
    and "line = append_extension_header_value x (filter (ext_is_enabled x) ses) []" "list_all printable line"
    and "(if ses \<noteq> [] then configure_extensions x (cl_extensions c) line else (Inr (), cl_extensions c)) = (Inr (), ces)"
  shows "\<exists>reply. http_receive_request lib header_value_ok x s hm = Some (Inr reply, s\<lparr>hs_extensions := ses\<rparr>) \<and>
    rp_status reply = 101 \<and> accept_response lib x c (reply_headers reply) = (Inr (Accepted None), c\<lparr>cl_extensions := ces\<rparr>) \<and>
    (ses \<noteq> [] \<longleftrightarrow> (\<exists>v. (lit ''sec-websocket-extensions'', v) \<in> set (rp_headers reply)))"
  by (rule http_receive_request_ok [OF assms])

end
