(* ===== verification/Handshake_Runs.thy ===== *)
theory Handshake_Runs
  imports Memory_Libs Handshake_Deflate Http_Props
begin

text \<open>
  Concrete runs of the handshakes, on the in-memory socket.
\<close>

abbreviation deflate where "deflate \<equiv> deflate_extension store_flate"

section \<open>A client and a server\<close>

definition example_nonce :: bytes where
  "example_nonce = base64_std (replicate 12 0x5A @ to_be_bytes 4 (1 :: u32))"

definition example_accept :: bytes where
  "example_accept = base64_std (take 20 ((example_nonce @ KEY) @ replicate 20 0))"

definition example_client :: "bytes \<Rightarrow> Deflate list \<Rightarrow> (Mem, Deflate) Client" where
  "example_client answer es =
     (client_new \<lparr>mem_in = answer, mem_out = [], mem_key = 1\<rparr> (lit ''localhost'') (lit ''/chat''))\<lparr>cl_extensions := es\<rparr>"

definition example_request :: "Deflate list \<Rightarrow> bytes" where
  "example_request es = client_request deflate (example_client [] es) example_nonce"

definition example_server :: "Deflate list \<Rightarrow> Deflate list \<Rightarrow> (Mem, Deflate) Server" where
  "example_server es ces =
     (server_new \<lparr>mem_in = example_request ces, mem_out = [], mem_key = 7\<rparr>)\<lparr>sv_extensions := es\<rparr>"

lemma example_random: "random_16 mem_libs (cl_socket (example_client answer es)) =
    (replicate 12 0x5A @ to_be_bytes 4 (1 :: u32), \<lparr>mem_in = answer, mem_out = [], mem_key = 2\<rparr>)"
  by (simp add: mem_libs_def example_client_def client_new_def)

lemma example_base64: "base64 mem_libs (replicate 12 0x5A @ to_be_bytes 4 (1 :: u32)) = example_nonce"
  "base64 mem_libs (sha1 mem_libs (example_nonce @ KEY)) = example_accept"
  unfolding mem_libs_def Libs.simps example_accept_def by (simp_all only: example_nonce_def)

lemma example_simps [simp]:
  "cl_host (example_client answer es) = lit ''localhost''" "cl_resource (example_client answer es) = lit ''/chat''"
  "cl_extensions (example_client answer es) = es" "cl_protocols (example_client answer es) = []"
  "mem_in (cl_socket (example_client answer es)) = answer" "mem_out (cl_socket (example_client answer es)) = []"
  "sv_extensions (example_server es ces) = es" "mem_in (sv_socket (example_server es ces)) = example_request ces"
  "mem_out (sv_socket (example_server es ces)) = []"
  by (simp_all add: example_client_def client_new_def example_server_def server_new_def)

lemma example_nonce_length [simp]: "length example_nonce = 24"
  unfolding example_nonce_def base64_std_length by simp

lemma example_request_eq: "client_request deflate (example_client answer es) example_nonce = example_request es"
  by (simp add: example_request_def example_client_def client_headers_def client_new_def)

lemma example_client_ok:
  assumes "value_ok (append_extension_header_value deflate es [])"
  shows "client_ok deflate (example_client answer es)"
  using assms
  by (simp add: client_ok_def example_client_def client_new_def client_headers_def protocol_headers_def extension_headers_def MAX_NUM_HEADERS_def
      value_ok_def) (simp add: lit_def path_byte_def name_byte_def printable_def in_range_def)

theorem handshake_agreement_witness:
  "\<exists>req s1 s2 c'. receive_request mem_libs (mem_env 100) deflate (example_server [] []) = Some (Inr req, s1) \<and>
    request_key req = example_nonce \<and> request_path req = lit ''/chat'' \<and> rh_host (request_headers req) = lit ''localhost'' \<and>
    send_response mem_libs (mem_env 100) deflate s1 (Accept (request_key req) None) = Some (Inr (), s2) \<and>
    mem_out (sv_socket s2) = server_response deflate example_accept None [] \<and>
    client_handshake mem_libs (mem_env 100) deflate (example_client (server_response deflate example_accept None [] @ [0x81, 0]) []) =
      Some (Inr (Accepted None), c') \<and>
    mem_out (cl_socket c') = example_request [] \<and> cl_buffer c' @ mem_in (cl_socket c') = [0x81, 0]"
proof -
  let ?c = "example_client (server_response deflate example_accept None [] @ [0x81, 0]) []"
  have c: "client_ok deflate ?c" by (rule example_client_ok) (simp add: value_ok_def)
  have len: "length (client_request deflate ?c (base64 mem_libs (replicate 12 0x5A @ to_be_bytes 4 (1 :: u32)))) \<le> MAX_HEADERS_SIZE"
    unfolding example_base64(1)
    by (simp add: example_client_def client_new_def head_def request_line_def client_headers_def header_line_def protocol_headers_def
        extension_headers_def MAX_HEADERS_SIZE_def crlf_def)
  show ?thesis
    using handshake_agreement [OF mem_env_ok [of 100] mem_libs_ok c example_random len,
        where s = "example_server [] []" and ses = "[]" and ces = "[]" and protocol = None and rest = "[0x81, 0]"]
    unfolding example_base64 example_request_eq
    by (simp add: negotiate_def asked_for_def value_ok_def) blast
qed

section \<open>Runs with compression\<close>

definition example_offer :: Deflate where
  "example_offer = the (offering (Some 10) None)"

definition example_answer :: Deflate where
  "example_answer = snd (deflate_configure (deflate_new Server) (d_params example_offer))"

lemma example_offer: "offering (Some 10) None = Some example_offer"
  "d_params example_offer = [param_new SERVER_NO_CONTEXT_TAKEOVER, param_new CLIENT_NO_CONTEXT_TAKEOVER, param_new CLIENT_MAX_WINDOW_BITS,
     param_set_value (param_new SERVER_MAX_WINDOW_BITS) (Some (lit ''10''))]"
  by (simp_all add: example_offer_def offering_def set_max_server_window_bits_def deflate_new_def u8_to_string_def decimal.simps lit_def)

lemma example_offer_length: "length (client_request deflate (example_client answer [example_offer]) example_nonce) \<le> MAX_HEADERS_SIZE"
proof -
  have "append_extension_header_value deflate [example_offer] [] = ext_text (deflate_name example_offer) (d_params example_offer)"
    by (rule deflate_line)
  moreover have "length (ext_text (deflate_name example_offer) (d_params example_offer)) \<le> 200"
    by (simp add: ext_text_def example_offer(2) param_text_def param_new_def model_defs deflate_name_def
        SERVER_NO_CONTEXT_TAKEOVER_def SERVER_MAX_WINDOW_BITS_def CLIENT_NO_CONTEXT_TAKEOVER_def CLIENT_MAX_WINDOW_BITS_def)
  ultimately show ?thesis
    by (simp add: example_client_def client_new_def head_def request_line_def client_headers_def header_line_def protocol_headers_def
        extension_headers_def MAX_HEADERS_SIZE_def crlf_def del: append_extension_header_value.simps)
qed

theorem deflate_handshake_witness:
  "\<exists>req s1 s2 c' client'. receive_request mem_libs (mem_env 100) deflate (example_server [deflate_new Server] [example_offer]) = Some (Inr req, s1) \<and>
    send_response mem_libs (mem_env 100) deflate s1 (Accept (request_key req) None) = Some (Inr (), s2) \<and>
    client_handshake mem_libs (mem_env 100) deflate (example_client (server_response deflate example_accept None [example_answer]) [example_offer]) =
      Some (Inr (Accepted None), c') \<and>
    b_extensions (server_into_builder (mem_env 100) deflate s2) = [example_answer] \<and>
    b_extensions (client_into_builder (mem_env 100) deflate c') = [client'] \<and>
    reserved_bits (b_codec (server_into_builder (mem_env 100) deflate s2)) = (True, False, False) \<and>
    reserved_bits (b_codec (client_into_builder (mem_env 100) deflate c')) = (True, False, False) \<and>
    d_our_max_window_bits example_answer = d_their_max_window_bits client' \<and>
    d_our_max_window_bits client' = d_their_max_window_bits example_answer"
proof -
  let ?c = "example_client (server_response deflate example_accept None [example_answer]) [example_offer]"
  have c: "client_ok deflate ?c" by (intro example_client_ok deflate_line_ok offering_params_ok [OF example_offer(1)])
  have len: "length (client_request deflate ?c (base64 mem_libs (replicate 12 0x5A @ to_be_bytes 4 (1 :: u32)))) \<le> MAX_HEADERS_SIZE"
    unfolding example_base64(1) by (rule example_offer_length)
  have "asked_for (cl_protocols ?c) None" "window_bits_or (Some 10)" "window_bits_or None"
    by (simp_all add: asked_for_def window_bits_or_def)
  from deflate_handshake [OF mem_env_ok [of 100] mem_libs_ok c example_random len this example_offer(1) example_answer_def,
      where s = "example_server [deflate_new Server] [example_offer]" and rest = "[]"]
  show ?thesis unfolding example_base64 example_request_eq by simp blast
qed

theorem extension_line_roundtrip_witness:
  "configure_extensions deflate [deflate_new Server] (append_extension_header_value deflate [example_offer] []) =
     configure_offers deflate [deflate_new Server] [(lit ''permessage-deflate'', d_params example_offer)]"
proof -
  have "offers_of deflate [example_offer] = [(lit ''permessage-deflate'', d_params example_offer)]"
    by (simp add: offers_of_def deflate_extension_def deflate_name_def)
  moreover have "list_all offer_ok (offers_of deflate [example_offer])"
    using offering_params_ok [OF example_offer(1)] deflate_name_ok
    by (auto simp: offers_of_def offer_ok_def deflate_extension_def params_ok_def token_param_def list_all_iff)
  ultimately show ?thesis using extension_line_roundtrip [of "[example_offer]" deflate deflate "[deflate_new Server]"] by simp
qed

section \<open>What is accepted\<close>

lemma example_response:
  "parse_response mem_libs MAX_NUM_HEADERS (server_response deflate example_accept None []) =
     Inr (Complete \<lparr>rs_version = Some 1, rs_code = Some 101, rs_headers = response_headers deflate example_accept None []\<rparr>
       (length (server_response deflate example_accept None [])))"
proof -
  have "list_all graphic example_accept" using libs_okD(4) [OF mem_libs_ok] example_base64(2) by metis
  note hs = response_headers_ok [OF this, of "[]" None deflate "[]"]
  show ?thesis
    using parse_response_okD [OF simple_parse_response_ok, of 101 "lit ''Switching Protocols''" "response_headers deflate example_accept None []"
        MAX_NUM_HEADERS] hs by (simp add: mem_libs_def asked_for_def value_ok_def [of "[]"])
qed

lemma example_decodes:
  "decode_response mem_libs deflate ((example_client [] [])\<lparr>cl_nonce := example_nonce, cl_buffer := server_response deflate example_accept None []\<rparr>) =
     (Inr (Done (Accepted None) (length (server_response deflate example_accept None []))),
      (example_client [] [])\<lparr>cl_nonce := example_nonce, cl_buffer := server_response deflate example_accept None []\<rparr>)"
  using accept_response_ok [of "(example_client [] [])\<lparr>cl_nonce := example_nonce, cl_buffer := server_response deflate example_accept None []\<rparr>"
      None deflate "[]" "[]" mem_libs]
  by (simp add: decode_response_def example_response example_base64 asked_for_def value_ok_def negotiate_def example_client_def client_new_def)

theorem client_accepts_only_witness:
  "\<exists>key. find (named (lit ''Sec-WebSocket-Accept'')) (response_headers deflate example_accept None []) = Some key \<and> hdr_value key = example_accept"
  using client_accepts_only [OF example_decodes] example_response example_base64(2) by auto

lemma example_decode_request:
  "\<exists>req s'. decode_request mem_libs deflate ((example_server [] [])\<lparr>sv_buffer := example_request []\<rparr>) = (Inr req, s')"
proof -
  let ?c = "example_client [] []"
  have c: "client_ok deflate ?c" by (rule example_client_ok) (simp add: value_ok_def)
  have g: "list_all graphic example_nonce" using libs_okD(4) [OF mem_libs_ok] example_base64(1) by metis
  have "list_all path_byte (lit ''/chat'')" using c by (simp add: client_ok_def)
  then have "parse_request mem_libs MAX_NUM_HEADERS (example_request []) = Inr (Complete \<lparr>rq_method = Some (lit ''GET''),
      rq_path = Some (lit ''/chat''), rq_version = Some 1, rq_headers = client_headers deflate ?c example_nonce\<rparr> (length (example_request [])))"
    using parse_request_okD [OF simple_parse_request_ok, of "lit ''GET''" "lit ''/chat''" "client_headers deflate ?c example_nonce" MAX_NUM_HEADERS]
      client_headers_ok [OF c g] by (simp add: mem_libs_def example_request_def)
  then show ?thesis
    using accept_request_ok [OF c example_nonce_length, where s = "(example_server [] [])\<lparr>sv_buffer := example_request []\<rparr>" and es = "[]"]
    by (simp add: decode_request_def negotiate_def)
qed

theorem server_accepts_only_witness:
  "\<exists>req s'. decode_request mem_libs deflate ((example_server [] [])\<lparr>sv_buffer := example_request []\<rparr>) = (Inr req, s') \<and>
     length (request_key req) = 24"
proof -
  obtain req s' where "decode_request mem_libs deflate ((example_server [] [])\<lparr>sv_buffer := example_request []\<rparr>) = (Inr req, s')"
    using example_decode_request by blast
  with server_accepts_only [OF this] show ?thesis by blast
qed

theorem receive_head_complete_witness:
  "\<exists>self'. receive_head (mem_env 3) 0 (server_new \<lparr>mem_in = lit ''GET'' @ crlf @ crlf, mem_out = [], mem_key = 0\<rparr> :: (Mem, Deflate) Server) =
     Some (Inr (), self')"
proof -
  have "has_head (lit ''GET'' @ crlf @ crlf)" by (simp add: has_head_def has_tail_def MAX_HEADERS_SIZE_def lit_def crlf_def)
  then show ?thesis
    using receive_head_complete [of "mem_env 3" mem_in mem_out "server_new \<lparr>mem_in = lit ''GET'' @ crlf @ crlf, mem_out = [], mem_key = 0\<rparr>"]
      mem_env_ok [of 3] by (auto simp: env_ok_def server_new_def)
qed

definition example_map :: HeaderMap where
  "example_map =
     \<lparr>hm_get = (\<lambda>n. if n = lit ''Sec-WebSocket-Key'' then Some example_nonce
        else if n = lit ''Sec-WebSocket-Version'' then Some (lit ''13'') else None),
      hm_get_all = (\<lambda>n. if n = lit ''connection'' then [lit ''keep-alive, Upgrade'']
        else if n = lit ''upgrade'' then [lit ''websocket''] else []),
      hm_iter = []\<rparr>"

lemma example_map_upgrade: "is_upgrade_request example_map"
  by (simp add: is_upgrade_request_def header_contains_value_def example_map_def http_trim_eq lit_def is_ascii_whitespace_def
      eq_ignore_ascii_case_def to_ascii_lowercase_def in_range_def)

theorem http_reply_accepted_witness:
  "\<exists>reply. http_receive_request mem_libs (list_all printable) deflate http_server_new example_map = Some (Inr reply, http_server_new) \<and>
     rp_status reply = 101 \<and>
     accept_response mem_libs deflate ((example_client [] [])\<lparr>cl_nonce := example_nonce\<rparr>) (reply_headers reply) =
       (Inr (Accepted None), (example_client [] [])\<lparr>cl_nonce := example_nonce\<rparr>)"
proof -
  let ?c = "(example_client [] [])\<lparr>cl_nonce := example_nonce\<rparr>"
  have g: "hm_get example_map (lit ''Sec-WebSocket-Key'') = Some (cl_nonce ?c)" "length (cl_nonce ?c) = 24"
    "hm_get example_map (lit ''Sec-WebSocket-Version'') = Some (lit ''13'')" "extension_config (hm_iter example_map) = Inr []"
    by (simp_all add: example_map_def lit_def)
  from http_reply_accepted [OF mem_libs_ok example_map_upgrade g, where x = deflate and s = http_server_new and ses = "[]" and line = "[]" and ces = "[]"
      and header_value_ok = "list_all printable"]
  show ?thesis by (simp add: http_server_new_def example_client_def client_new_def) blast
qed

theorem protocols_offered_witness:
  "\<exists>req s'. accept_request deflate ((example_server [] [])\<lparr>sv_protocols := [lit ''chat'']\<rparr>)
      \<lparr>rq_method = None, rq_path = Some (lit ''/chat''), rq_version = None,
       rq_headers = client_headers deflate ((example_client [] [])\<lparr>cl_protocols := [lit ''chat'', lit ''news'']\<rparr>) example_nonce\<rparr> = (Inr req, s') \<and>
     request_protocols req = []"
proof -
  let ?c = "(example_client [] [])\<lparr>cl_protocols := [lit ''chat'', lit ''news'']\<rparr>"
  have "value_ok (protocols_text [lit ''chat'', lit ''news''])" by (simp add: value_ok_def lit_def printable_def in_range_def)
  then have c: "client_ok deflate ?c"
    using example_client_ok [of "[]" "[]"]
    by (simp add: example_client_def client_new_def client_ok_def client_headers_def protocol_headers_def extension_headers_def MAX_NUM_HEADERS_def value_ok_def [of "[]"])
  show ?thesis
    using protocols_offered [OF c example_nonce_length, where s = "(example_server [] [])\<lparr>sv_protocols := [lit ''chat'']\<rparr>" and es = "[]"
        and rq = "\<lparr>rq_method = None, rq_path = Some (lit ''/chat''), rq_version = None, rq_headers = client_headers deflate ?c example_nonce\<rparr>"]
    by (simp add: negotiate_def) (simp add: lit_def)
qed

end
