(* ===== verification/Echo_Programs.thy ===== *)
theory Echo_Programs
  imports Deflate_Ext Handshake_Client Handshake_Server Handshake_Http
begin

text \<open>
  The programs under \<^verbatim>\<open>examples/\<close>, which put all parts of the crate together: the echo server and the echo client
  for the autobahn test suite (\<^verbatim>\<open>autobahn_server.rs\<close>, \<^verbatim>\<open>autobahn_client.rs\<close>) and the echo server behind an
  HTTP server (\<^verbatim>\<open>hyper_server.rs\<close>). Listening, connecting and the HTTP server itself are not code of this
  repository: the sockets a listener delivers are an argument, connecting is a function on the state of the
  network, and the upgraded stream of an HTTP connection is an argument. Buffering of sockets belongs to the
  environment. \<open>deflate\<close> says whether the feature of that name is enabled.
\<close>

section \<open>How a program ends\<close>

text \<open>The errors that \<^verbatim>\<open>?\<close> turns into a \<^verbatim>\<open>BoxedError\<close>, and a failed assertion.\<close>

datatype program_Error =
    IoError io_Error
  | ConnectionError conn_Error
  | HandshakeError hs_Error
  | Utf8Failure Utf8Error
  | ParseIntError
  | UpgradeError BoxedError

datatype 'a outcome = Ret 'a | Err program_Error | Panic

section \<open>Echoing a message\<close>

definition sender_flush_shared :: "'w Env \<Rightarrow> ('w, 'e) Shared \<Rightarrow> (conn_Error + unit) \<times> ('w, 'e) Shared" where
  "sender_flush_shared env sh = (case sender_flush env (sh_world sh) of (r, w) \<Rightarrow> (r, sh\<lparr>sh_world := w\<rparr>))"

definition echo_binary :: "'w Env \<Rightarrow> 'e Extension \<Rightarrow> Sender \<Rightarrow> ('w, 'e) Shared \<Rightarrow> bytes \<Rightarrow>
    ((conn_Error + unit) \<times> Sender \<times> ('w, 'e) Shared) option" where
  "echo_binary env x sender sh message =
     Option.bind (send_binary_mut env x sender sh message) (\<lambda>(r, sender, sh).
       case r of
         Inl e \<Rightarrow> Some (Inl e, sender, sh)
       | Inr _ \<Rightarrow> (case sender_flush_shared env sh of (r, sh) \<Rightarrow> Some (r, sender, sh)))"

definition echo_text :: "'w Env \<Rightarrow> 'e Extension \<Rightarrow> Sender \<Rightarrow> ('w, 'e) Shared \<Rightarrow> str \<Rightarrow>
    ((conn_Error + unit) \<times> Sender \<times> ('w, 'e) Shared) option" where
  "echo_text env x sender sh txt =
     Option.bind (send_text env x sender sh txt) (\<lambda>(r, sender, sh).
       case r of
         Inl e \<Rightarrow> Some (Inl e, sender, sh)
       | Inr _ \<Rightarrow> (case sender_flush_shared env sh of (r, sh) \<Rightarrow> Some (r, sender, sh)))"

section \<open>The autobahn server\<close>

text \<open>
  The loop over the messages of one connection. Any error of \<open>receive_data\<close> and text that is not UTF-8 break the
  loop; an error of sending ends the program.
\<close>

partial_function (option) echo_messages :: "'w Env \<Rightarrow> 'e Extension \<Rightarrow> Sender \<Rightarrow> Receiver \<Rightarrow> ('w, 'e) Shared \<Rightarrow>
    (unit outcome \<times> Sender \<times> Receiver \<times> ('w, 'e) Shared) option" where
  "echo_messages env x sender receiver sh =
     Option.bind (receive_data env x receiver sh []) (\<lambda>(r, receiver, sh, message).
       case r of
         Inr d \<Rightarrow>
           (case d of
              Data.Binary n \<Rightarrow>
                if n \<noteq> length message then Some (Panic, sender, receiver, sh)
                else Option.bind (echo_binary env x sender sh message) (\<lambda>(r, sender, sh).
                  case r of
                    Inl e \<Rightarrow> Some (Err (ConnectionError e), sender, receiver, sh)
                  | Inr _ \<Rightarrow> echo_messages env x sender receiver sh)
            | Data.Text n \<Rightarrow>
                if n \<noteq> length message then Some (Panic, sender, receiver, sh)
                else (case from_utf8 message of
                    Inl _ \<Rightarrow> Some (Ret (), sender, receiver, sh)
                  | Inr txt \<Rightarrow>
                      Option.bind (echo_text env x sender sh txt) (\<lambda>(r, sender, sh).
                        case r of
                          Inl e \<Rightarrow> Some (Err (ConnectionError e), sender, receiver, sh)
                        | Inr _ \<Rightarrow> echo_messages env x sender receiver sh)))
       | Inl e \<Rightarrow> Some (Ret (), sender, receiver, sh))"

declare echo_messages.simps [code]

definition new_server :: "bool \<Rightarrow> 'w \<Rightarrow> ('w, Deflate) Server" where
  "new_server deflate socket =
     (let server = server_new socket in
      if deflate then server_add_extension server (deflate_new Mode.Server) else server)"

text \<open>One accepted socket: handshake, then the loop. The socket is answered in its last state.\<close>

definition serve_socket :: "'w Libs \<Rightarrow> 'w Env \<Rightarrow> Deflate Extension \<Rightarrow> bool \<Rightarrow> 'w \<Rightarrow> (unit outcome \<times> 'w) option" where
  "serve_socket lib env x deflate socket =
     Option.bind (receive_request lib env x (new_server deflate socket)) (\<lambda>(r, server).
       case r of
         Inl e \<Rightarrow> Some (Err (HandshakeError e), sv_socket server)
       | Inr req \<Rightarrow>
           Option.bind (send_response lib env x server (Accept (request_key req) None)) (\<lambda>(r, server).
             case r of
               Inl e \<Rightarrow> Some (Err (HandshakeError e), sv_socket server)
             | Inr _ \<Rightarrow>
                 (case finish (server_into_builder env x server) of (sender, receiver, sh) \<Rightarrow>
                    map_option (\<lambda>(r, sender, receiver, sh). (r, sh_world sh)) (echo_messages env x sender receiver sh))))"

fun server_main :: "'w Libs \<Rightarrow> 'w Env \<Rightarrow> Deflate Extension \<Rightarrow> bool \<Rightarrow> (io_Error + 'w) list \<Rightarrow> (unit outcome \<times> 'w list) option" where
  "server_main lib env x deflate [] = Some (Ret (), [])"
| "server_main lib env x deflate (Inl e # incoming) = Some (Err (IoError e), [])"
| "server_main lib env x deflate (Inr socket # incoming) =
     Option.bind (serve_socket lib env x deflate socket) (\<lambda>(r, w).
       case r of
         Ret _ \<Rightarrow> map_option (\<lambda>(r, ws). (r, w # ws)) (server_main lib env x deflate incoming)
       | Err e \<Rightarrow> Some (Err e, [w])
       | Panic \<Rightarrow> Some (Panic, [w]))"

section \<open>The autobahn client\<close>

definition SOKETTO_VERSION :: str where "SOKETTO_VERSION = lit ''0.8.1''"

definition new_client :: "bool \<Rightarrow> 'w \<Rightarrow> str \<Rightarrow> ('w, Deflate) Client" where
  "new_client deflate socket path =
     (let client = client_new socket (lit ''127.0.0.1:9001'') path in
      if deflate then client_add_extension client (deflate_new Client) else client)"

text \<open>
  The beginning all three connections share: the handshake, which must be accepted, and then the rest \<open>k\<close> with the
  client.
\<close>

definition with_accepted :: "'w Libs \<Rightarrow> 'w Env \<Rightarrow> Deflate Extension \<Rightarrow> ('w, Deflate) Client \<Rightarrow>
    (('w, Deflate) Client \<Rightarrow> ('a outcome \<times> 'w) option) \<Rightarrow> ('a outcome \<times> 'w) option" where
  "with_accepted lib env x client k =
     Option.bind (client_handshake lib env x client) (\<lambda>(r, client).
       case r of
         Inl e \<Rightarrow> Some (Err (HandshakeError e), cl_socket client)
       | Inr response \<Rightarrow>
           (case response of Accepted _ \<Rightarrow> k client | _ \<Rightarrow> Some (Panic, cl_socket client)))"

definition num_of_cases :: "'w Libs \<Rightarrow> 'w Env \<Rightarrow> Deflate Extension \<Rightarrow> bool \<Rightarrow> 'w \<Rightarrow> (usize outcome \<times> 'w) option" where
  "num_of_cases lib env x deflate socket =
     with_accepted lib env x (new_client deflate socket (lit ''/getCaseCount'')) (\<lambda>client.
       case finish (client_into_builder env x client) of (_, receiver, sh) \<Rightarrow>
         map_option (\<lambda>(r, receiver, sh, data).
           (case r of
              Inl e \<Rightarrow> Err (ConnectionError e)
            | Inr kind \<Rightarrow>
                if \<not> data_is_text kind then Panic
                else (case from_utf8 data of
                    Inl e \<Rightarrow> Err (Utf8Failure e)
                  | Inr s \<Rightarrow> (case parse_usize s of None \<Rightarrow> Err ParseIntError | Some num \<Rightarrow> Ret num)), sh_world sh))
           (receive_data env x receiver sh []))"

text \<open>The loop of a test case: as in the server, but text that is not UTF-8 and errors other than \<open>Closed\<close> are returned.\<close>

partial_function (option) case_messages :: "'w Env \<Rightarrow> 'e Extension \<Rightarrow> Sender \<Rightarrow> Receiver \<Rightarrow> ('w, 'e) Shared \<Rightarrow>
    (unit outcome \<times> Sender \<times> Receiver \<times> ('w, 'e) Shared) option" where
  "case_messages env x sender receiver sh =
     Option.bind (receive_data env x receiver sh []) (\<lambda>(r, receiver, sh, message).
       case r of
         Inr d \<Rightarrow>
           (case d of
              Data.Binary n \<Rightarrow>
                if n \<noteq> length message then Some (Panic, sender, receiver, sh)
                else Option.bind (echo_binary env x sender sh message) (\<lambda>(r, sender, sh).
                  case r of
                    Inl e \<Rightarrow> Some (Err (ConnectionError e), sender, receiver, sh)
                  | Inr _ \<Rightarrow> case_messages env x sender receiver sh)
            | Data.Text n \<Rightarrow>
                if n \<noteq> length message then Some (Panic, sender, receiver, sh)
                else (case from_utf8 message of
                    Inl e \<Rightarrow> Some (Err (Utf8Failure e), sender, receiver, sh)
                  | Inr txt \<Rightarrow>
                      Option.bind (echo_text env x sender sh txt) (\<lambda>(r, sender, sh).
                        case r of
                          Inl e \<Rightarrow> Some (Err (ConnectionError e), sender, receiver, sh)
                        | Inr _ \<Rightarrow> case_messages env x sender receiver sh)))
       | Inl e \<Rightarrow>
           Some (if e = conn_Error.Closed then Ret () else Err (ConnectionError e), sender, receiver, sh))"

declare case_messages.simps [code]

definition run_case :: "'w Libs \<Rightarrow> 'w Env \<Rightarrow> Deflate Extension \<Rightarrow> bool \<Rightarrow> nat \<Rightarrow> 'w \<Rightarrow> (unit outcome \<times> 'w) option" where
  "run_case lib env x deflate n socket =
     (let resource = lit ''/runCase?case='' @ decimal n @ lit ''&agent=soketto-'' @ SOKETTO_VERSION in
      with_accepted lib env x (new_client deflate socket resource) (\<lambda>client.
        case finish (client_into_builder env x client) of (sender, receiver, sh) \<Rightarrow>
          map_option (\<lambda>(r, sender, receiver, sh). (r, sh_world sh)) (case_messages env x sender receiver sh)))"

definition update_report :: "'w Libs \<Rightarrow> 'w Env \<Rightarrow> Deflate Extension \<Rightarrow> bool \<Rightarrow> 'w \<Rightarrow> (unit outcome \<times> 'w) option" where
  "update_report lib env x deflate socket =
     (let resource = lit ''/updateReports?agent=soketto-'' @ SOKETTO_VERSION in
      with_accepted lib env x (new_client deflate socket resource) (\<lambda>client.
        case finish (client_into_builder env x client) of (sender, receiver, sh) \<Rightarrow>
          map_option (\<lambda>(r, sender, w). (case r of Inl e \<Rightarrow> Err (ConnectionError e) | Inr _ \<Rightarrow> Ret (), w))
            (sender_close env sender (sh_world sh))))"

text \<open>
  \<^verbatim>\<open>TcpStream::connect\<close> on the state \<open>net\<close> of the network, then one of the above. The sockets that were used are
  collected in their last states.
\<close>

definition connected :: "('n \<Rightarrow> (io_Error + 'w) \<times> 'n) \<Rightarrow> 'n \<Rightarrow> ('w \<Rightarrow> ('a outcome \<times> 'w) option) \<Rightarrow>
    ('a outcome \<times> 'n \<times> 'w list) option" where
  "connected connect net k =
     (case connect net of
        (Inl e, net) \<Rightarrow> Some (Err (IoError e), net, [])
      | (Inr socket, net) \<Rightarrow> map_option (\<lambda>(r, w). (r, net, [w])) (k socket))"

text \<open>The loop \<^verbatim>\<open>for i in 1..=n\<close>: an error of a case is logged only.\<close>

fun run_cases :: "('n \<Rightarrow> (io_Error + 'w) \<times> 'n) \<Rightarrow> 'w Libs \<Rightarrow> 'w Env \<Rightarrow> Deflate Extension \<Rightarrow> bool \<Rightarrow> nat list \<Rightarrow> 'n \<Rightarrow>
    (unit outcome \<times> 'n \<times> 'w list) option" where
  "run_cases connect lib env x deflate [] net = Some (Ret (), net, [])"
| "run_cases connect lib env x deflate (i # is) net =
     Option.bind (connected connect net (run_case lib env x deflate i)) (\<lambda>(r, net, ws).
       case r of
         Panic \<Rightarrow> Some (Panic, net, ws)
       | _ \<Rightarrow> map_option (\<lambda>(r, net, ws'). (r, net, ws @ ws')) (run_cases connect lib env x deflate is net))"

definition client_main :: "('n \<Rightarrow> (io_Error + 'w) \<times> 'n) \<Rightarrow> 'w Libs \<Rightarrow> 'w Env \<Rightarrow> Deflate Extension \<Rightarrow> bool \<Rightarrow> 'n \<Rightarrow>
    (unit outcome \<times> 'n \<times> 'w list) option" where
  "client_main connect lib env x deflate net =
     Option.bind (connected connect net (num_of_cases lib env x deflate)) (\<lambda>(r, net, ws).
       case r of
         Err e \<Rightarrow> Some (Err e, net, ws)
       | Panic \<Rightarrow> Some (Panic, net, ws)
       | Ret n \<Rightarrow>
           Option.bind (run_cases connect lib env x deflate [1 ..< unat n + 1] net) (\<lambda>(r, net, ws').
             case r of
               Panic \<Rightarrow> Some (Panic, net, ws @ ws')
             | _ \<Rightarrow>
                 map_option (\<lambda>(r, net, ws''). (r, net, ws @ ws' @ ws''))
                   (connected connect net (update_report lib env x deflate))))"

section \<open>The server behind an HTTP server\<close>

text \<open>A response with its body, and the task that is spawned, if any: the handshake server it starts with.\<close>

record full_Response =
  fr_status :: u16
  fr_headers :: "(str \<times> bytes) list"
  fr_body :: bytes

definition plain_response :: "bytes \<Rightarrow> full_Response" where
  "plain_response body = \<lparr>fr_status = 200, fr_headers = [], fr_body = body\<rparr>"

definition handler :: "'w Libs \<Rightarrow> (bytes \<Rightarrow> bool) \<Rightarrow> Deflate Extension \<Rightarrow> bool \<Rightarrow> HeaderMap \<Rightarrow>
    (full_Response \<times> Deflate HttpServer option) option" where
  "handler lib value_ok x deflate req =
     (if is_upgrade_request req then
        let server = http_server_new;
            server = (if deflate then http_add_extension server (deflate_new Mode.Server) else server) in
        map_option (\<lambda>(r, server).
          case r of
            Inr response \<Rightarrow>
              (\<lparr>fr_status = rp_status response, fr_headers = rp_headers response, fr_body = []\<rparr>, Some server)
          | Inl e \<Rightarrow> (plain_response (lit ''Something went wrong upgrading!''), None))
          (http_receive_request lib value_ok x server req)
      else Some (plain_response (lit ''Hello HTTP!''), None))"

text \<open>The spawned task. Its loop is the one of the autobahn server.\<close>

definition websocket_echo_messages :: "'w Env \<Rightarrow> 'e Extension \<Rightarrow> 'e HttpServer \<Rightarrow> BoxedError + 'w \<Rightarrow>
    (unit outcome \<times> 'w option) option" where
  "websocket_echo_messages env x server upgraded =
     (case upgraded of
        Inl e \<Rightarrow> Some (Err (UpgradeError e), None)
      | Inr stream \<Rightarrow>
          (case finish (http_into_builder env x server stream) of (sender, receiver, sh) \<Rightarrow>
             map_option (\<lambda>(r, sender, receiver, sh). (r, Some (sh_world sh))) (echo_messages env x sender receiver sh)))"

text \<open>
  \<^verbatim>\<open>main\<close>. The HTTP server is not code of this repository: \<open>serve\<close> stands for \<^verbatim>\<open>serve_connection\<close> of the \<^verbatim>\<open>hyper\<close> crate with
  upgrades, which runs the service for the requests of a connection. It answers its result, the connection after it, and for
  each task that the service has spawned what \<^verbatim>\<open>upgrade::on\<close> resolves to. The result is logged only.
\<close>

type_synonym service = "HeaderMap \<Rightarrow> (full_Response \<times> Deflate HttpServer option) option"

type_synonym 'w http_server = "service \<Rightarrow> 'w \<Rightarrow> (BoxedError + unit) \<times> 'w \<times> (Deflate HttpServer \<times> (BoxedError + 'w)) list"

type_synonym 'w connection_result = "'w \<times> (unit outcome \<times> 'w option) option list"

definition connection_task :: "'w http_server \<Rightarrow> 'w Libs \<Rightarrow> 'w Env \<Rightarrow> (bytes \<Rightarrow> bool) \<Rightarrow> Deflate Extension \<Rightarrow> bool \<Rightarrow> 'w \<Rightarrow>
    'w connection_result" where
  "connection_task serve lib env value_ok x deflate stream =
     (case serve (handler lib value_ok x deflate) stream of
        (r, w, spawned) \<Rightarrow> (w, map (\<lambda>(server, upgraded). websocket_echo_messages env x server upgraded) spawned))"

text \<open>The loop that accepts connections and spawns a task for each; it goes on after an error.\<close>

fun accept_loop :: "('w \<Rightarrow> 'r) \<Rightarrow> (io_Error + 'w) list \<Rightarrow> 'r list" where
  "accept_loop task [] = []"
| "accept_loop task (Inl e # incoming) = accept_loop task incoming"
| "accept_loop task (Inr stream # incoming) = task stream # accept_loop task incoming"

definition hyper_main :: "'w http_server \<Rightarrow> 'w Libs \<Rightarrow> 'w Env \<Rightarrow> (bytes \<Rightarrow> bool) \<Rightarrow> Deflate Extension \<Rightarrow> bool \<Rightarrow>
    io_Error + unit \<Rightarrow> (io_Error + 'w) list \<Rightarrow> program_Error + 'w connection_result list" where
  "hyper_main serve lib env value_ok x deflate bound incoming =
     (case bound of
        Inl e \<Rightarrow> Inl (IoError e)
      | Inr _ \<Rightarrow> Inr (accept_loop (connection_task serve lib env value_ok x deflate) incoming))"

end
