(* ===== verification/Echo_Spec.thy ===== *)
theory Echo_Spec
  imports Echo_Programs Sender_Props
begin

text \<open>
  A specification of the echo loops on lists of frames, which they refine; and that they return on every finite input.
\<close>

section \<open>The specification of receiving data\<close>

lemma spec_receive_left: "spec_receive limit mlen fo len msg fs = Some (r, msg', as, closed, left) \<Longrightarrow> length left < length fs"
proof (induction fs arbitrary: fo len msg as)
  case (Cons f fs)
  then show ?case by (auto split: spec_step.splits elim!: answered_SomeE) (metis less_SucI)
qed simp

text \<open>
  \<open>receive_data\<close> on frames: pongs are passed over, and after a close frame the next call of \<open>receive\<close> finds the
  connection closed.
\<close>

function spec_receive_data :: "usize \<Rightarrow> bytes \<Rightarrow> frame list \<Rightarrow> ((conn_Error + Data) \<times> bytes \<times> answer list \<times> frame list) option" where
  "spec_receive_data limit msg fs =
     (case spec_receive limit (length msg) None 0 msg fs of
        None \<Rightarrow> None
      | Some (r, msg, as, closed, left) \<Rightarrow>
          (case r of
             Inl e \<Rightarrow> Some (Inl e, msg, as, left)
           | Inr (Incoming.Data d) \<Rightarrow> Some (Inr d, msg, as, left)
           | Inr (Incoming.Closed cr) \<Rightarrow> Some (Inl conn_Error.Closed, msg, as, left)
           | Inr (Incoming.Pong p) \<Rightarrow>
               map_option (\<lambda>(r, msg, as', left). (r, msg, as @ as', left)) (spec_receive_data limit msg left)))"
  by pat_completeness auto
termination
  by (relation "measure (\<lambda>(limit, msg, fs). length fs)") (auto dest: spec_receive_left)

declare spec_receive_data.simps [simp del]

lemma spec_receive_closed:
  "spec_receive limit mlen fo len msg fs = Some (Inr r, msg', as, closed, left) \<Longrightarrow> closed = (\<exists>cr. r = Incoming.Closed cr)"
proof (induction fs arbitrary: fo len msg as)
  case (Cons f fs)
  have "c2 = (\<exists>cr. r2 = Incoming.Closed cr)" if "spec_frame limit mlen fo len msg f = Stop (Inr r2) msg2 as2 c2" for r2 msg2 as2 c2
    using that
    by (auto simp: spec_frame_def spec_control_def spec_data_def spec_message_def Let_def
        split: if_splits OpCode.splits sum.splits option.splits prod.splits bool.splits)
  then show ?case using Cons.prems Cons.IH by (auto split: spec_step.splits elim!: answered_SomeE)
qed simp

lemma receive_data_refines:
  assumes env: "env_ok env inp outp"
  shows "list_all (frame_ok c) frames \<Longrightarrow>
    recv_at inp outp c mode limit d self sh (concat (map frame_wire frames) @ rest) out False \<Longrightarrow>
    spec_receive_data limit message frames = Some (r, message', as, left) \<Longrightarrow>
    \<exists>self' sh' bs. receive_data env x self sh message = Some (r, self', sh', message') \<and> answers_on_wire mode as bs \<and>
      outp (sh_world sh') = out @ bs \<and>
      (\<forall>d'. r = Inr d' \<longrightarrow> list_all (frame_ok c) left \<and>
        recv_at inp outp c mode limit d self' sh' (concat (map frame_wire left) @ rest) (out @ bs) False)"
proof (induction "length frames" arbitrary: frames self sh out message as rule: less_induct)
  case less
  obtain r1 msg1 as1 closed left1 where s: "spec_receive limit (length message) None 0 message frames = Some (r1, msg1, as1, closed, left1)"
    using less.prems(3) by (auto simp: spec_receive_data.simps [of limit message] split: option.splits)
  from receive_ok [OF env less.prems(1,2) s, of x] obtain self1 sh1 bs1 stream1 read_frames f where
    k: "receive env x self sh message = Some (r1, self1, sh1, msg1)" "answers_on_wire mode as1 bs1"
      "recv_at inp outp c mode limit d self1 sh1 stream1 (out @ bs1) closed" "frames = read_frames @ f # left1"
      "left_over d r1 (apply_mask (fst f) (snd f)) (concat (map frame_wire left1) @ rest) stream1" by metis
  have out: "outp (sh_world sh1) = out @ bs1" and left: "list_all (frame_ok c) left1" "length left1 < length frames"
    using k(3,4) less.prems(1) by (auto simp: recv_at_def)
  note rd = receive_data.simps [of env x self sh message] spec_receive_data.simps [of limit message frames]
  show ?case
  proof (cases r1)
    case (Inl e)
    then show ?thesis using less.prems(3) s k(1,2) out by (auto simp: rd simp del: answers_on_wire.simps)
  next
    case (Inr i)
    have at1: "recv_at inp outp c mode limit d self1 sh1 (concat (map frame_wire left1) @ rest) (out @ bs1) closed"
      using k(3,5) Inr by simp
    have closed: "closed = (\<exists>cr. i = Incoming.Closed cr)" using spec_receive_closed s Inr by blast
    show ?thesis
    proof (cases i)
      case (Data d')
      then show ?thesis using less.prems(3) s k(1,2) Inr out at1 closed left(1) by (auto simp: rd simp del: answers_on_wire.simps)
    next
      case (Closed cr)
      then have "r_is_closed self1" using at1 closed by (simp add: recv_at_def)
      then have "receive_data env x self1 sh1 msg1 = Some (Inl conn_Error.Closed, self1, sh1, msg1)"
        by (simp add: receive_data.simps [of env x self1] receive_when_closed)
      then show ?thesis using less.prems(3) s k(1,2) Inr Closed out by (auto simp: rd simp del: answers_on_wire.simps)
    next
      case (Pong p)
      then obtain as2 where as2: "spec_receive_data limit msg1 left1 = Some (r, message', as2, left)" "as = as1 @ as2"
        using less.prems(3) s Inr by (auto simp: spec_receive_data.simps [of limit message frames])
      have "recv_at inp outp c mode limit d self1 sh1 (concat (map frame_wire left1) @ rest) (out @ bs1) False"
        using at1 closed Pong by simp
      from less.hyps [OF left(2,1) this as2(1)] obtain self2 sh2 bs2 where
        r: "receive_data env x self1 sh1 msg1 = Some (r, self2, sh2, message')" "answers_on_wire mode as2 bs2"
          "outp (sh_world sh2) = (out @ bs1) @ bs2"
          "\<forall>d'. r = Inr d' \<longrightarrow> list_all (frame_ok c) left \<and>
            recv_at inp outp c mode limit d self2 sh2 (concat (map frame_wire left) @ rest) ((out @ bs1) @ bs2) False" by auto
      have "receive_data env x self sh message = Some (r, self2, sh2, message')" using k(1) Inr Pong r(1) by (simp add: rd(1))
      then show ?thesis using r(3,4) answers_on_wire_append [OF k(2) r(2)] as2(2)
        by (intro exI [of _ self2] exI [of _ sh2] exI [of _ "bs1 @ bs2"]) simp
    qed
  qed
qed

lemma spec_receive_data_left:
  "spec_receive_data limit msg fs = Some (r, msg', as, left) \<Longrightarrow> length left < length fs"
proof (induction limit msg fs arbitrary: as rule: spec_receive_data.induct)
  case (1 limit msg fs)
  obtain r1 msg1 as1 closed left1 where s: "spec_receive limit (length msg) None 0 msg fs = Some (r1, msg1, as1, closed, left1)"
    using "1.prems" by (auto simp: spec_receive_data.simps [of limit msg] split: option.splits)
  have lt: "length left1 < length fs" by (rule spec_receive_left [OF s])
  show ?case
  proof (cases "\<exists>p. r1 = Inr (Incoming.Pong p)")
    case True
    then obtain p as2 where "r1 = Inr (Incoming.Pong p)" "spec_receive_data limit msg1 left1 = Some (r, msg', as2, left)"
      using "1.prems" s by (auto simp: spec_receive_data.simps [of limit msg])
    then show ?thesis using "1.IH" [OF s refl refl refl refl] lt by fastforce
  next
    case False
    then have "left = left1"
      using "1.prems" s by (auto simp: spec_receive_data.simps [of limit msg] split: sum.splits Incoming.splits)
    then show ?thesis using lt by simp
  qed
qed

section \<open>The specification of echoing\<close>

text \<open>
  The answers of an echo program, and how it ends: every message is sent back; the program stops at an error of
  receiving or at text that is not UTF-8, which the client (\<open>strict\<close>) reports; and it panics when the message
  buffer holds more than the message.
\<close>

definition error_outcome :: "bool \<Rightarrow> conn_Error \<Rightarrow> unit outcome" where
  "error_outcome strict e = (if strict \<and> e \<noteq> conn_Error.Closed then Err (ConnectionError e) else Ret ())"

definition utf8_outcome :: "bool \<Rightarrow> Utf8Error \<Rightarrow> unit outcome" where
  "utf8_outcome strict e = (if strict then Err (Utf8Failure e) else Ret ())"

function spec_echo :: "bool \<Rightarrow> usize \<Rightarrow> frame list \<Rightarrow> (unit outcome \<times> answer list) option" where
  "spec_echo strict limit fs =
     (case spec_receive_data limit [] fs of
        None \<Rightarrow> None
      | Some (r, msg, as, left) \<Rightarrow>
          (case r of
             Inl e \<Rightarrow> Some (error_outcome strict e, as)
           | Inr d \<Rightarrow>
               if data_len d \<noteq> length msg then Some (Panic, as)
               else (case (data_is_text d, from_utf8 msg) of
                   (True, Inl e) \<Rightarrow> Some (utf8_outcome strict e, as)
                 | (as_text, _) \<Rightarrow>
                     map_option (\<lambda>(r, as'). (r, as @ (if as_text then OpCode.Text else OpCode.Binary, msg) # as'))
                       (spec_echo strict limit left))))"
  by pat_completeness auto
termination
  by (relation "measure (\<lambda>(strict, limit, fs). length fs)") (auto dest: spec_receive_data_left)

declare spec_echo.simps [simp del]

text \<open>Both loops, as one: \<open>strict\<close> chooses the one of the client.\<close>

definition echo_loop :: "bool \<Rightarrow> 'w Env \<Rightarrow> 'e Extension \<Rightarrow> Sender \<Rightarrow> Receiver \<Rightarrow> ('w, 'e) Shared \<Rightarrow>
    (unit outcome \<times> Sender \<times> Receiver \<times> ('w, 'e) Shared) option" where
  "echo_loop strict env x s r sh = (if strict then case_messages env x s r sh else echo_messages env x s r sh)"

definition echo_data :: "'w Env \<Rightarrow> 'e Extension \<Rightarrow> Sender \<Rightarrow> ('w, 'e) Shared \<Rightarrow> bool \<Rightarrow> bytes \<Rightarrow>
    ((conn_Error + unit) \<times> Sender \<times> ('w, 'e) Shared) option" where
  "echo_data env x s sh as_text msg = (if as_text then echo_text env x s sh msg else echo_binary env x s sh msg)"

lemma echo_loop_simps: "echo_loop True = case_messages" "echo_loop False = echo_messages"
  by (intro ext, simp add: echo_loop_def)+

lemma echo_loop_unfold:
  "echo_loop strict env x s r sh =
     Option.bind (receive_data env x r sh []) (\<lambda>(res, r, sh, msg).
       case res of
         Inl e \<Rightarrow> Some (error_outcome strict e, s, r, sh)
       | Inr d \<Rightarrow>
           if data_len d \<noteq> length msg then Some (Panic, s, r, sh)
           else (case (data_is_text d, from_utf8 msg) of
               (True, Inl e) \<Rightarrow> Some (utf8_outcome strict e, s, r, sh)
             | (as_text, _) \<Rightarrow>
                 Option.bind (echo_data env x s sh as_text msg) (\<lambda>(res, s, sh).
                   case res of
                     Inl e \<Rightarrow> Some (Err (ConnectionError e), s, r, sh)
                   | Inr _ \<Rightarrow> echo_loop strict env x s r sh)))"
proof (cases "receive_data env x r sh []")
  case None
  then show ?thesis by (simp add: echo_loop_def case_messages.simps [of env x s r sh] echo_messages.simps [of env x s r sh])
next
  case (Some y)
  obtain res r1 sh1 msg where y: "y = (res, r1, sh1, msg)" by (cases y) auto
  note unfold = case_messages.simps [of env x s r sh] echo_messages.simps [of env x s r sh] Some y
  show ?thesis
  proof (cases res)
    case (Inl e)
    then show ?thesis by (cases strict) (simp_all add: unfold echo_loop_simps error_outcome_def)
  next
    case (Inr d)
    then show ?thesis
      by (cases strict; cases d; simp only: echo_loop_simps)
         (auto simp: unfold utf8_outcome_def echo_data_def split: sum.splits dest!: from_utf8_Inr)
  qed
qed

lemma echo_data_ok:
  assumes snk: "sink_ok env inp outp" and s: "sender_ok mode s"
  shows "\<exists>s' sh' bs. echo_data env x s sh as_text msg = Some (Inr (), s', sh') \<and> sender_ok mode s' \<and>
    answers_on_wire mode [(if as_text then OpCode.Text else OpCode.Binary, msg)] bs \<and>
    outp (sh_world sh') = outp (sh_world sh) @ bs \<and> inp (sh_world sh') = inp (sh_world sh)"
proof -
  let ?op = "if as_text then SendText msg else SendBinaryMut msg"
  from perform_ok [OF snk s, of x sh ?op] obtain m s1 sh1 where p: "perform env x s sh ?op = Some (Inr (), s1, sh1)" "sender_ok mode s1"
    "outp (sh_world sh1) = outp (sh_world sh) @ frame_wire (answer_frame mode m (op_answer ?op))" "inp (sh_world sh1) = inp (sh_world sh)"
    by (auto split: if_splits)
  obtain w where w: "sock_flush env (sh_world sh1) = (Inr (), w)" "outp w = outp (sh_world sh1)" "inp w = inp (sh_world sh1)"
    using snk unfolding sink_ok_def by blast
  show ?thesis
    by (intro exI [of _ s1] exI [of _ "sh1\<lparr>sh_world := w\<rparr>"] exI [of _ "frame_wire (answer_frame mode m (op_answer ?op))"])
       (use p w in \<open>auto simp: echo_data_def echo_text_def echo_binary_def sender_flush_shared_def sender_flush_def\<close>)
qed

lemma echo_loop_refines:
  assumes env: "env_ok env inp outp"
  shows "list_all (frame_ok c) frames \<Longrightarrow> sender_ok mode s \<Longrightarrow>
    recv_at inp outp c mode limit d r sh (concat (map frame_wire frames) @ rest) out False \<Longrightarrow>
    spec_echo strict limit frames = Some (res, as) \<Longrightarrow>
    \<exists>s' r' sh' bs. echo_loop strict env x s r sh = Some (res, s', r', sh') \<and> answers_on_wire mode as bs \<and> outp (sh_world sh') = out @ bs"
proof (induction "length frames" arbitrary: frames s r sh out as rule: less_induct)
  case less
  obtain r1 msg as1 left where s: "spec_receive_data limit [] frames = Some (r1, msg, as1, left)"
    using less.prems(4) by (auto simp: spec_echo.simps [of strict limit] split: option.splits)
  from receive_data_refines [OF env less.prems(1,3) s, of x] obtain self1 sh1 bs1 where
    k: "receive_data env x r sh [] = Some (r1, self1, sh1, msg)" "answers_on_wire mode as1 bs1" "outp (sh_world sh1) = out @ bs1"
      "\<forall>d'. r1 = Inr d' \<longrightarrow> list_all (frame_ok c) left \<and>
        recv_at inp outp c mode limit d self1 sh1 (concat (map frame_wire left) @ rest) (out @ bs1) False" by blast
  note rd = echo_loop_unfold [of strict env x s r sh] spec_echo.simps [of strict limit frames]
  show ?case
  proof (cases "\<exists>d'. r1 = Inr d' \<and> data_len d' = length msg \<and> \<not> (data_is_text d' \<and> isl (from_utf8 msg))")
    case False
    then show ?thesis using less.prems(4) s k(1-3)
      by (cases r1) (auto simp: rd isl_def simp del: answers_on_wire.simps split: sum.splits bool.splits prod.splits)
  next
    case True
    then obtain d' where d': "r1 = Inr d'" "data_len d' = length msg" "\<not> (data_is_text d' \<and> isl (from_utf8 msg))" by blast
    let ?t = "data_is_text d'"
    obtain as2 where as2: "spec_echo strict limit left = Some (res, as2)"
      "as = as1 @ (if ?t then OpCode.Text else OpCode.Binary, msg) # as2"
      using less.prems(4) s d' by (auto simp: rd(2) isl_def split: sum.splits bool.splits)
    obtain s2 sh2 bs2 where e: "echo_data env x s sh1 ?t msg = Some (Inr (), s2, sh2)" "sender_ok mode s2"
      "answers_on_wire mode [(if ?t then OpCode.Text else OpCode.Binary, msg)] bs2"
      "outp (sh_world sh2) = outp (sh_world sh1) @ bs2" "inp (sh_world sh2) = inp (sh_world sh1)"
      using echo_data_ok [OF env_okD(3) [OF env] less.prems(2)] by blast
    have "recv_at inp outp c mode limit d self1 sh2 (concat (map frame_wire left) @ rest) ((out @ bs1) @ bs2) False"
      using k(4) d'(1) e(4,5) by (simp add: recv_at_def)
    from less.hyps [OF spec_receive_data_left [OF s] _ e(2) this as2(1)] k(4) d'(1) obtain s3 r3 sh3 bs3 where
      r: "echo_loop strict env x s2 self1 sh2 = Some (res, s3, r3, sh3)" "answers_on_wire mode as2 bs3"
        "outp (sh_world sh3) = ((out @ bs1) @ bs2) @ bs3" by blast
    have "echo_loop strict env x s r sh = Some (res, s3, r3, sh3)"
      using k(1) d' e(1) r(1) by (auto simp: rd(1) isl_def split: sum.splits bool.splits)
    moreover have "answers_on_wire mode as (bs1 @ bs2 @ bs3)"
      using answers_on_wire_append [OF k(2) answers_on_wire_append [OF e(3) r(2)]] as2(2) by simp
    ultimately show ?thesis using r(3)
      by (intro exI [of _ s3] exI [of _ r3] exI [of _ sh3] exI [of _ "bs1 @ bs2 @ bs3"]) simp
  qed
qed

section \<open>Echoing returns\<close>

lemma send_frame_within:
  assumes fin: "finite_input env left_in" and s: "codec_ok (s_codec s)" "\<not> s_has_extensions s"
  shows "\<exists>r s' sh'. send_frame env x s sh h data = Some (r, s', sh') \<and> codec_ok (s_codec s') \<and> \<not> s_has_extensions s' \<and>
    left_in (sh_world sh') \<le> left_in (sh_world sh)"
proof -
  obtain r codec' w' h' data' mb' where
    "write_frame env (s_mode s) (s_codec s) (sh_world sh) h data (s_mask_buffer s) = Some (r, codec', w', h', data', mb')"
    "codec_ok codec'" "left_in w' \<le> left_in (sh_world sh)"
    using write_frame_progress [OF fin s(1)] by blast
  then show ?thesis using s(2) by (auto simp: send_frame_def sender_write_def)
qed

lemma echo_data_within:
  assumes fin: "finite_input env left_in" and s: "codec_ok (s_codec s)" "\<not> s_has_extensions s"
  shows "\<exists>r s' sh'. echo_data env x s sh as_text msg = Some (r, s', sh') \<and> codec_ok (s_codec s') \<and> \<not> s_has_extensions s' \<and>
    left_in (sh_world sh') \<le> left_in (sh_world sh)"
proof -
  have fl: "left_in (sh_world sh') \<le> left_in (sh_world sh)" if "sender_flush_shared env sh = (r, sh')" for sh sh' :: "('a, 'b) Shared" and r
    using that by (auto simp: sender_flush_shared_def sender_flush_def split: prod.splits sum.splits dest: finite_inputD(4) [OF fin])
  obtain r1 s1 sh1 where "(if as_text then send_text env x s sh msg else send_binary_mut env x s sh msg) = Some (r1, s1, sh1)"
    "codec_ok (s_codec s1)" "\<not> s_has_extensions s1" "left_in (sh_world sh1) \<le> left_in (sh_world sh)"
    using send_frame_within [OF fin s, of x sh "if as_text then header_new OpCode.Text else header_new OpCode.Binary"
        "if as_text then Shared msg else Unique msg"]
    by (cases as_text) (auto simp: send_text_def send_binary_mut_def)
  then show ?thesis using fl [of sh1]
    by (cases as_text; cases r1; cases "sender_flush_shared env sh1") (force simp: echo_data_def echo_text_def echo_binary_def)+
qed

lemma echo_loop_returns:
  assumes fin: "finite_input env left_in"
  shows "codec_ok (s_codec s) \<Longrightarrow> \<not> s_has_extensions s \<Longrightarrow> plain r \<Longrightarrow> \<exists>y. echo_loop strict env x s r sh = Some y"
proof (induction "still_in left_in r sh" arbitrary: s r sh rule: less_induct)
  case less
  obtain res r1 sh1 msg where k: "receive_data env x r sh [] = Some (res, r1, sh1, msg)"
    "\<forall>d. res = Inr d \<longrightarrow> plain r1 \<and> still_in left_in r1 sh1 < still_in left_in r sh"
    using receive_data_within [OF fin less.prems(3)] by blast
  have e: "\<exists>y. Option.bind (echo_data env x s sh1 as_text msg) (\<lambda>(res, s, sh).
      case res of Inl e \<Rightarrow> Some (Err (ConnectionError e), s, r1, sh) | Inr _ \<Rightarrow> echo_loop strict env x s r1 sh) = Some y"
    if "res = Inr d" for as_text d
  proof -
    obtain r2 s2 sh2 where "echo_data env x s sh1 as_text msg = Some (r2, s2, sh2)" "codec_ok (s_codec s2)" "\<not> s_has_extensions s2"
      "left_in (sh_world sh2) \<le> left_in (sh_world sh1)" using echo_data_within [OF fin less.prems(1,2)] by blast
    moreover from this have "still_in left_in r1 sh2 < still_in left_in r sh" using k(2) that by (auto simp: still_in_def)
    ultimately show ?thesis using less.hyps [of r1 sh2 s2] k(2) that by (cases r2) auto
  qed
  show ?case
    by (subst echo_loop_unfold) (use k(1) e in \<open>auto split: sum.splits bool.splits\<close>)
qed

end
