(* ===== verification/Echo_Props.thy ===== *)
theory Echo_Props
  imports Echo_Spec Handshake_Deflate Builder_Props Http_Props
begin

text \<open>
  The example programs as a whole, from the handshake to the last frame.
\<close>

section \<open>Sessions\<close>

text \<open>
  The frames of a well-behaved session: whole messages within the limit, text in UTF-8, and pings and pongs between
  them; and what an echo program answers to each.
\<close>

definition session_frame :: "usize \<Rightarrow> frame \<Rightarrow> bool" where
  "session_frame limit f \<longleftrightarrow>
     (case h_opcode (fst f) of
        OpCode.Ping \<Rightarrow> True
      | OpCode.Pong \<Rightarrow> True
      | OpCode.Text \<Rightarrow> h_fin (fst f) \<and> length (snd f) \<le> unat limit \<and> from_utf8 (snd f) = Inr (snd f)
      | OpCode.Binary \<Rightarrow> h_fin (fst f) \<and> length (snd f) \<le> unat limit
      | _ \<Rightarrow> False)"

definition echo_answer :: "frame \<Rightarrow> answer list" where
  "echo_answer f =
     (case h_opcode (fst f) of
        OpCode.Ping \<Rightarrow> [(OpCode.Pong, snd f)]
      | OpCode.Pong \<Rightarrow> []
      | oc \<Rightarrow> [(oc, snd f)])"

lemma spec_receive_data_ping:
  assumes "h_opcode (fst f) = OpCode.Ping"
  shows "spec_receive_data limit msg (f # fs) = map_option (\<lambda>(r, msg, as, left). (r, msg, (OpCode.Pong, snd f) # as, left)) (spec_receive_data limit msg fs)"
proof -
  have "spec_receive limit (length msg) None 0 msg (f # fs) = answered [(OpCode.Pong, snd f)] (spec_receive limit (length msg) None 0 msg fs)"
    using assms by (simp add: spec_frame_def spec_control_def)
  then show ?thesis
    by (cases "spec_receive limit (length msg) None 0 msg fs")
       (auto simp: spec_receive_data.simps [of limit msg "f # fs"] spec_receive_data.simps [of limit msg fs] option.map_comp comp_def case_prod_beta
         split: sum.split Incoming.split intro!: option.map_cong)
qed

lemma spec_echo_session_frame:
  assumes f: "session_frame limit f" "frame_ok c f"
  shows "spec_echo strict limit (f # fs) = map_option (\<lambda>(r, as). (r, echo_answer f @ as)) (spec_echo strict limit fs)"
proof -
  note unfold = spec_echo.simps [of strict limit "f # fs"] spec_echo.simps [of strict limit fs]
  consider (ping) "h_opcode (fst f) = OpCode.Ping" | (pong) "h_opcode (fst f) = OpCode.Pong"
    | (msg) "h_opcode (fst f) \<in> {OpCode.Text, OpCode.Binary}" "h_fin (fst f)" "length (snd f) \<le> unat limit"
      "h_opcode (fst f) = OpCode.Text \<Longrightarrow> from_utf8 (snd f) = Inr (snd f)"
    using f(1) by (auto simp: session_frame_def split: OpCode.splits)
  then show ?thesis
  proof cases
    case ping
    then show ?thesis
      by (cases "spec_receive_data limit [] fs")
         (auto simp: unfold spec_receive_data_ping echo_answer_def option.map_comp comp_def case_prod_beta split: sum.split bool.split intro!: option.map_cong)
  next
    case pong
    then have "spec_receive_data limit [] (f # fs) = spec_receive_data limit [] fs"
      by (simp add: spec_receive_data.simps [of limit "[]" "f # fs"] spec_frame_def spec_control_def option.map_id case_prod_beta id_def [symmetric])
    then show ?thesis using pong by (simp add: unfold echo_answer_def option.map_id case_prod_beta id_def [symmetric])
  next
    case msg
    have "unat (h_payload_len (fst f)) = length (snd f)" using f(2) by (simp add: frame_ok_def)
    then have "spec_receive limit 0 None 0 [] (f # fs) = Some (data_result (h_opcode (fst f)) (length (snd f)), snd f, [], False, fs)"
      using msg by (auto simp: spec_frame_def spec_data_def spec_message_def data_result_def word_less_nat_alt Let_def)
    then show ?thesis using msg
      by (auto simp: unfold(1) spec_receive_data.simps [of limit "[]" "f # fs"] data_result_def echo_answer_def)
  qed
qed

definition close_echo :: "bytes \<Rightarrow> answer list" where
  "close_echo p = (case close_answer p of
       Inl e \<Rightarrow> []
     | Inr (_, Some cr) \<Rightarrow> [(OpCode.Close, to_be_bytes 2 (cr_code cr))]
     | Inr (_, None) \<Rightarrow> [(OpCode.Close, [])])"

lemma spec_echo_close:
  assumes "h_opcode (fst f) = OpCode.Close" "close_answer (snd f) = Inr a"
  shows "spec_echo strict limit (f # fs) = Some (Ret (), close_echo (snd f))"
  using assms
  by (auto simp: spec_echo.simps [of strict limit "f # fs"] spec_receive_data.simps [of limit "[]" "f # fs"] spec_frame_def spec_control_def
      close_echo_def error_outcome_def split: prod.splits option.splits)

lemma spec_echo_session:
  assumes "h_opcode (fst f) = OpCode.Close" "close_answer (snd f) = Inr a"
  shows "list_all (session_frame limit) fs \<Longrightarrow> list_all (frame_ok c) fs \<Longrightarrow>
    spec_echo strict limit (fs @ [f]) = Some (Ret (), concat (map echo_answer fs) @ close_echo (snd f))"
  by (induction fs) (simp_all add: spec_echo_close [OF assms] spec_echo_session_frame [where c = c])


section \<open>Building the connection\<close>

abbreviation default_codec where "default_codec \<equiv> set_max_data_size codec_new MAX_FRAME_SIZE"

lemma default_connection:
  assumes "sink_ok env inp outp" "\<forall>e \<in> set es. \<not> ext_is_enabled x e"
    and "finish (add_extensions x (set_buffer (builder_new env w mode) buf) es) = (s, r, sh)"
  shows "sender_ok mode s \<and> recv_at inp outp default_codec mode MAX_MESSAGE_SIZE (buf = []) r sh (buf @ inp w) (outp w) False"
proof -
  obtain m w1 where m: "random_u32 env w = (m, w1)" by force
  then have "outp w1 = outp w" "inp w1 = inp w" using assms(1) unfolding sink_ok_def by auto
  moreover have "filter (ext_is_enabled x) es = []" using assms(2) by (simp add: filter_empty_conv)
  ultimately show ?thesis using assms(3)
    by (auto simp: finish_def add_extensions_def builder_new_def m set_buffer_def Let_def codec_ok_def set_max_data_size_def codec_new_def
        sender_ok_def recv_at_def)
qed

section \<open>The server\<close>

lemma offered_only:
  "\<forall>e \<in> set (sv_extensions (new_server deflate socket)). \<not> ext_is_enabled (deflate_extension f) e"
  "sv_socket (new_server deflate socket) = socket" "sv_protocols (new_server deflate socket) = []"
  by (auto simp: new_server_def server_add_extension_def server_new_def deflate_extension_def deflate_new_def Let_def)

lemma no_enabled_response:
  assumes "\<forall>e \<in> set es. \<not> ext_is_enabled x e"
  shows "response_headers x a p es = response_headers x a p []"
  using assms by (simp add: response_headers_def filter_empty_conv)

text \<open>The handshake of the server, with whatever extensions are negotiated, and the connection that is built then.\<close>

lemma serve_socket_handshake:
  fixes socket :: 'w and c :: "('w, Deflate) Client"
  assumes env: "env_ok env inp outp" and lib: "libs_ok lib inp outp"
    and c: "client_ok (deflate_extension f) c" "list_all graphic nonce" "length nonce = 24"
    and short: "length (client_request (deflate_extension f) c nonce) \<le> MAX_HEADERS_SIZE"
    and inp: "inp socket = client_request (deflate_extension f) c nonce @ rest" and wt: "waits env inp (length rest)"
    and neg: "negotiate (deflate_extension f) (sv_extensions (new_server deflate socket)) (cl_extensions c) = (Inr (), es)"
  obtains w s r sh where "inp w = rest"
    "outp w = outp socket @ server_response (deflate_extension f) (base64 lib (sha1 lib (nonce @ KEY))) None es"
    "finish (add_extensions (deflate_extension f) (set_buffer (builder_new env w Server) []) es) = (s, r, sh)"
    "serve_socket lib env (deflate_extension f) deflate socket =
       map_option (\<lambda>(res, s, r, sh). (res, sh_world sh)) (echo_messages env (deflate_extension f) s r sh)"
proof -
  let ?x = "deflate_extension f" and ?s = "new_server deflate socket"
  note e = env_okD [OF env]
  obtain w b where r: "receive_request lib env ?x ?s = Some (Inr (read_request ?s c nonce), ?s\<lparr>sv_socket := w, sv_buffer := b, sv_extensions := es\<rparr>)"
    "outp w = outp socket" "inp w = rest"
    using receive_request_ok [OF e(1,2) lib c short _ neg, of rest] inp wt offered_only(2) [of deflate socket] by auto
  have key: "request_key (read_request ?s c nonce) = nonce" by (simp add: request_key_def read_request_def)
  let ?s1 = "?s\<lparr>sv_socket := w, sv_buffer := b, sv_extensions := es\<rparr>"
  obtain w2 where w2: "send_response lib env ?x ?s1 (Accept nonce None) = Some (Inr (), ?s1\<lparr>sv_socket := w2, sv_buffer := []\<rparr>)"
    "outp w2 = outp w @ server_response ?x (base64 lib (sha1 lib (nonce @ KEY))) None es" "inp w2 = inp w"
    using send_response_ok [OF e(3) lib, where s = ?s1 and x = ?x and key = nonce and protocol = None] by auto
  obtain s3 r3 sh3 where fin: "finish (add_extensions ?x (set_buffer (builder_new env w2 Server) []) es) = (s3, r3, sh3)"
    by (metis prod.collapse)
  then have "serve_socket lib env ?x deflate socket = map_option (\<lambda>(res, s, r, sh). (res, sh_world sh)) (echo_messages env ?x s3 r3 sh3)"
    using r w2 key by (simp add: serve_socket_def server_into_builder_def)
  from that [OF _ _ fin this] show ?thesis using r w2 by simp
qed

lemma serve_socket_refines:
  fixes socket :: 'w and c :: "('w, Deflate) Client"
  assumes env: "env_ok env inp outp" and lib: "libs_ok lib inp outp"
    and c: "client_ok (deflate_extension f) c" "cl_extensions c = []" "list_all graphic nonce" "length nonce = 24"
    and short: "length (client_request (deflate_extension f) c nonce) \<le> MAX_HEADERS_SIZE"
    and inp: "inp socket = client_request (deflate_extension f) c nonce @ concat (map frame_wire frames)"
    and wt: "waits env inp (length (concat (map frame_wire frames)))"
    and s: "list_all (frame_ok default_codec) frames" "spec_echo False MAX_MESSAGE_SIZE frames = Some (res, as)"
  shows "\<exists>w bs. serve_socket lib env (deflate_extension f) deflate socket = Some (res, w) \<and> answers_on_wire Server as bs \<and>
    outp w = outp socket @ server_response (deflate_extension f) (base64 lib (sha1 lib (nonce @ KEY))) None [] @ bs"
proof -
  let ?x = "deflate_extension f" and ?es = "sv_extensions (new_server deflate socket)" and ?acc = "base64 lib (sha1 lib (nonce @ KEY))"
  have "negotiate ?x ?es (cl_extensions c) = (Inr (), ?es)" using c(2) by (simp add: negotiate_def)
  from serve_socket_handshake [OF env lib c(1,3,4) short inp wt this] obtain w s3 r3 sh3 where
    h: "inp w = concat (map frame_wire frames)" "outp w = outp socket @ server_response ?x ?acc None ?es"
      "finish (add_extensions ?x (set_buffer (builder_new env w Server) []) ?es) = (s3, r3, sh3)"
      "serve_socket lib env ?x deflate socket = map_option (\<lambda>(res, s, r, sh). (res, sh_world sh)) (echo_messages env ?x s3 r3 sh3)"
    by blast
  have con: "sender_ok Server s3"
    "recv_at inp outp default_codec Server MAX_MESSAGE_SIZE True r3 sh3 (concat (map frame_wire frames) @ []) (outp w) False"
    using default_connection [OF env_okD(3) [OF env] offered_only(1) [of deflate socket f] h(3)] h(1) by auto
  from echo_loop_refines [OF env s(1) con s(2), of ?x] obtain s4 r4 sh4 bs where
    "echo_messages env ?x s3 r3 sh3 = Some (res, s4, r4, sh4)" "answers_on_wire Server as bs" "outp (sh_world sh4) = outp w @ bs"
    by (auto simp: echo_loop_simps)
  then show ?thesis using h(2,4) no_enabled_response [OF offered_only(1) [of deflate socket f], of ?acc None]
    by (intro exI [of _ "sh_world sh4"] exI [of _ bs]) simp
qed

section \<open>The client\<close>

lemma new_client_simps [simp]:
  "cl_socket (new_client deflate socket path) = socket" "cl_protocols (new_client deflate socket path) = []"
  "cl_host (new_client deflate socket path) = lit ''127.0.0.1:9001''" "cl_resource (new_client deflate socket path) = path"
  "cl_headers (new_client deflate socket path) = []" "length (cl_nonce (new_client deflate socket path)) = 24"
  "cl_extensions (new_client deflate socket path) = (if deflate then [deflate_new Client] else [])"
  by (simp_all add: new_client_def client_add_extension_def client_new_def Let_def)

lemma new_client_ok:
  assumes "path \<noteq> []" "list_all path_byte path"
  shows "client_ok (deflate_extension f) (new_client deflate socket path)"
proof -
  have "value_ok (lit ''127.0.0.1:9001'')" by (simp add: lit_def value_ok_def printable_def in_range_def)
  moreover have "value_ok (append_extension_header_value (deflate_extension f) [deflate_new Client] [])"
    by (rule deflate_line_ok) (simp add: params_ok_def deflate_new_def)
  ultimately show ?thesis using assms
    by (auto simp: client_ok_def client_headers_def protocol_headers_def extension_headers_def value_ok_def [of "[]"] MAX_NUM_HEADERS_def)
qed

text \<open>What every connection of the client starts with: the server answers the request, with no extension, and then sends \<open>rest\<close>.\<close>

lemma with_accepted_connection:
  assumes env: "env_ok env inp outp" and lib: "libs_ok lib inp outp" and path: "path \<noteq> []" "list_all path_byte path"
    and n: "random_16 lib socket = (n, w0)"
    and inp: "inp socket = server_response (deflate_extension f) (base64 lib (sha1 lib (base64 lib n @ KEY))) None [] @ rest"
  obtains client s r sh d where "with_accepted lib env (deflate_extension f) (new_client deflate socket path) k = k client"
    "finish (client_into_builder env (deflate_extension f) client) = (s, r, sh)" "sender_ok Client s"
    "recv_at inp outp default_codec Client MAX_MESSAGE_SIZE d r sh rest
       (outp socket @ client_request (deflate_extension f) (new_client deflate socket path) (base64 lib n)) False"
proof -
  let ?x = "deflate_extension f" and ?c = "new_client deflate socket path"
  have c: "client_ok ?x ?c" by (rule new_client_ok [OF path])
  obtain w more where h: "client_handshake lib env ?x ?c = Some (Inr (Accepted None),
      ?c\<lparr>cl_socket := w, cl_nonce := base64 lib n, cl_buffer := more, cl_extensions := cl_extensions ?c\<rparr>)" "more @ inp w = rest"
      "outp w = outp socket @ client_request ?x ?c (base64 lib n)"
    using client_handshake_ok [OF env lib c, of n w0 None "[]" rest "cl_extensions ?c"] n inp
    by (auto simp: asked_for_def value_ok_def negotiate_def simp del: new_client_simps(7))
  let ?c' = "?c\<lparr>cl_socket := w, cl_nonce := base64 lib n, cl_buffer := more, cl_extensions := cl_extensions ?c\<rparr>"
  obtain s r sh where fin: "finish (client_into_builder env ?x ?c') = (s, r, sh)" by (metis prod.collapse)
  have "\<forall>e \<in> set (cl_extensions ?c). \<not> ext_is_enabled ?x e" by (simp add: deflate_extension_def deflate_new_def)
  from default_connection [OF env_okD(3) [OF env] this, where w = w and mode = Client and buf = more and s = s and r = r and sh = sh]
  have "sender_ok Client s" "recv_at inp outp default_codec Client MAX_MESSAGE_SIZE (more = []) r sh rest
       (outp socket @ client_request ?x ?c (base64 lib n)) False"
    using fin h(2,3) by (auto simp: client_into_builder_def)
  moreover have "with_accepted lib env ?x ?c k = k ?c'" by (simp add: with_accepted_def h(1))
  ultimately show ?thesis using fin by (intro that)
qed

lemma token_path: "token_byte b \<Longrightarrow> path_byte b"
  by (auto simp: token_byte_def path_byte_def)

lemma case_path:
  "list_all path_byte (lit ''/runCase?case='' @ decimal i @ lit ''&agent=soketto-'' @ SOKETTO_VERSION)"
  using decimal_token [of i] token_path
  by (auto simp: list_all_iff SOKETTO_VERSION_def lit_def path_byte_def name_byte_def in_range_def)

abbreviation case_client where
  "case_client deflate socket i \<equiv>
     new_client deflate socket (lit ''/runCase?case='' @ decimal i @ lit ''&agent=soketto-'' @ SOKETTO_VERSION)"

lemma run_case_refines:
  assumes "env_ok env inp outp" "libs_ok lib inp outp" "random_16 lib socket = (n, w0)"
    and "inp socket = server_response (deflate_extension f) (base64 lib (sha1 lib (base64 lib n @ KEY))) None [] @ concat (map frame_wire frames)"
    and s: "list_all (frame_ok default_codec) frames" "spec_echo True MAX_MESSAGE_SIZE frames = Some (res, as)"
  shows "\<exists>w bs. run_case lib env (deflate_extension f) deflate i socket = Some (res, w) \<and> answers_on_wire Client as bs \<and>
    outp w = outp socket @ client_request (deflate_extension f) (case_client deflate socket i) (base64 lib n) @ bs"
proof -
  let ?x = "deflate_extension f" and ?p = "lit ''/runCase?case='' @ decimal i @ lit ''&agent=soketto-'' @ SOKETTO_VERSION"
  let ?k = "\<lambda>client. case finish (client_into_builder env ?x client) of (sender, receiver, sh) \<Rightarrow>
          map_option (\<lambda>(r, sender, receiver, sh). (r, sh_world sh)) (case_messages env ?x sender receiver sh)"
  have "?p \<noteq> []" by (simp add: lit_def)
  then obtain client s1 r1 sh1 d where a: "with_accepted lib env ?x (case_client deflate socket i) ?k = ?k client"
    "finish (client_into_builder env ?x client) = (s1, r1, sh1)" "sender_ok Client s1"
    "recv_at inp outp default_codec Client MAX_MESSAGE_SIZE d r1 sh1 (concat (map frame_wire frames) @ [])
       (outp socket @ client_request ?x (case_client deflate socket i) (base64 lib n)) False"
    by (rule with_accepted_connection [OF assms(1,2) _ case_path assms(3,4), where deflate = deflate and k = ?k]) auto
  from echo_loop_refines [OF assms(1) s(1) a(3,4) s(2), of ?x] obtain s2 r2 sh2 bs where
    "case_messages env ?x s1 r1 sh1 = Some (res, s2, r2, sh2)" "answers_on_wire Client as bs"
    "outp (sh_world sh2) = (outp socket @ client_request ?x (case_client deflate socket i) (base64 lib n)) @ bs"
    by (auto simp: echo_loop_simps)
  then show ?thesis
    using a(1,2) by (intro exI [of _ "sh_world sh2"] exI [of _ bs]) (simp add: run_case_def Let_def)
qed

text \<open>The number of cases is read from the first message.\<close>

lemma num_of_cases_reads:
  assumes env: "env_ok env inp outp" and "libs_ok lib inp outp" "random_16 lib socket = (n, w0)"
    and "inp socket = server_response (deflate_extension f) (base64 lib (sha1 lib (base64 lib n @ KEY))) None [] @ frame_wire g @ rest"
    and g: "frame_ok default_codec g" "h_fin (fst g)" "h_opcode (fst g) = OpCode.Text" "snd g = decimal (unat num)"
      "length (snd g) \<le> unat MAX_MESSAGE_SIZE"
  shows "\<exists>w. num_of_cases lib env (deflate_extension f) deflate socket = Some (Ret num, w)"
proof -
  let ?x = "deflate_extension f" and ?p = "lit ''/getCaseCount''"
  let ?k = "\<lambda>client. case finish (client_into_builder env ?x client) of (s, receiver, sh) \<Rightarrow>
         map_option (\<lambda>(r, receiver, sh, data).
           (case r of
              Inl e \<Rightarrow> Err (ConnectionError e)
            | Inr kind \<Rightarrow>
                if \<not> data_is_text kind then Panic
                else (case from_utf8 data of
                    Inl e \<Rightarrow> Err (Utf8Failure e)
                  | Inr s \<Rightarrow> (case parse_usize s of None \<Rightarrow> Err ParseIntError | Some num \<Rightarrow> Ret num)), sh_world sh))
           (receive_data env ?x receiver sh [])"
  have "?p \<noteq> []" "list_all path_byte ?p" by (simp_all add: lit_def path_byte_def name_byte_def in_range_def)
  then obtain client s1 r1 sh1 d where a: "with_accepted lib env ?x (new_client deflate socket ?p) ?k = ?k client"
    "finish (client_into_builder env ?x client) = (s1, r1, sh1)"
    "recv_at inp outp default_codec Client MAX_MESSAGE_SIZE d r1 sh1 (concat (map frame_wire ([] @ [g])) @ rest)
       (outp socket @ client_request ?x (new_client deflate socket ?p) (base64 lib n)) False"
    by (rule with_accepted_connection [OF assms(1,2) _ _ assms(3,4), where deflate = deflate and k = ?k]) auto
  have "\<not> is_control (h_opcode (fst g))" "h_opcode (fst g) \<noteq> OpCode.Continue" using g(3) by simp_all
  from receive_data_ok [OF env g(1,2) this g(5) _ _ a(3), of ?x "[]"] obtain r2 sh2 where
    "receive_data env ?x r1 sh1 [] = Some (Inr (Data.Text (length (snd g))), r2, sh2, decimal (unat num))"
    using g(3,4) by auto
  then show ?thesis using a(1,2) from_utf8_ascii [OF decimal_ascii, of "unat num"]
    by (intro exI [of _ "sh_world sh2"]) (simp add: num_of_cases_def parse_usize_decimal)
qed

section \<open>The server behind an HTTP server\<close>

lemma websocket_echo_refines:
  assumes env: "env_ok env inp outp" and es: "\<forall>e \<in> set (hs_extensions server). \<not> ext_is_enabled x e"
    and inp: "hs_buffer server @ inp stream = concat (map frame_wire frames)"
    and s: "list_all (frame_ok default_codec) frames" "spec_echo False MAX_MESSAGE_SIZE frames = Some (res, as)"
  shows "\<exists>w bs. websocket_echo_messages env x server (Inr stream) = Some (res, Some w) \<and> answers_on_wire Server as bs \<and> outp w = outp stream @ bs"
proof -
  obtain s1 r1 sh1 where fin: "finish (http_into_builder env x server stream) = (s1, r1, sh1)" by (metis prod.collapse)
  then have "sender_ok Server s1" "recv_at inp outp default_codec Server MAX_MESSAGE_SIZE (hs_buffer server = []) r1 sh1
      (concat (map frame_wire frames) @ []) (outp stream) False"
    using default_connection [OF env_okD(3) [OF env] es, of stream Server "hs_buffer server" s1 r1 sh1] inp
    by (auto simp: http_into_builder_def Let_def)
  from echo_loop_refines [OF env s(1) this s(2), of x] obtain s2 r2 sh2 bs where
    "echo_messages env x s1 r1 sh1 = Some (res, s2, r2, sh2)" "answers_on_wire Server as bs" "outp (sh_world sh2) = outp stream @ bs"
    by (auto simp: echo_loop_simps)
  then show ?thesis
    by (intro exI [of _ "sh_world sh2"] exI [of _ bs]) (simp add: websocket_echo_messages_def fin)
qed

text \<open>An empty extension header, which the response has when no extension is enabled, configures nothing.\<close>

lemma configure_empty: "configure_extensions (deflate_extension f) es [] = (Inr (), es)"
proof -
  have "configure_named (deflate_extension f) [] ps es = (Inr (), es)" for ps es
    by (induction es) (auto simp: eq_ignore_ascii_case_def deflate_extension_def deflate_name_ok)
  moreover have "trim [] = []" by (simp add: trim_def)
  ultimately show ?thesis by (simp add: configure_extensions_def Let_def)
qed

section \<open>Properties\<close>

text \<open>
  C12. Refinement: the loops of the echo server and of the echo client compute the specification on any stream of
  well-formed frames: every message goes back to the peer with its type, after the answers to the
  control frames before it, and the loop ends as the specification says, be it with success, an error or a panic.
\<close>

theorem echo_refines_spec:
  assumes "env_ok env inp outp" "list_all (frame_ok c) frames" "sender_ok mode s"
    and "recv_at inp outp c mode limit d r sh (concat (map frame_wire frames) @ rest) out False"
  shows "(spec_echo False limit frames = Some (res, as) \<longrightarrow>
      (\<exists>s' r' sh' bs. echo_messages env x s r sh = Some (res, s', r', sh') \<and> answers_on_wire mode as bs \<and> outp (sh_world sh') = out @ bs)) \<and>
    (spec_echo True limit frames = Some (res, as) \<longrightarrow>
      (\<exists>s' r' sh' bs. case_messages env x s r sh = Some (res, s', r', sh') \<and> answers_on_wire mode as bs \<and> outp (sh_world sh') = out @ bs))"
  using echo_loop_refines [OF assms, of False res as x] echo_loop_refines [OF assms, of True res as x]
  unfolding echo_loop_simps by blast

text \<open>
  C14. A peer can make an echo program panic: after the first fragment of a message and a pong, \<open>receive_data\<close> starts
  a new message behind the fragment in the same buffer, so that the number of bytes it returns is not the length of the
  buffer, which the programs assert.
\<close>

theorem echo_panics:
  assumes "env_ok env inp outp" "list_all (frame_ok c) [first, pong, final]" "sender_ok mode s"
    and "h_opcode (fst first) = OpCode.Text" "\<not> h_fin (fst first)" "snd first \<noteq> []" "h_opcode (fst pong) = OpCode.Pong"
    and "h_opcode (fst final) = OpCode.Text" "h_fin (fst final)"
    and "length (snd first) \<le> unat limit" "length (snd final) \<le> unat limit"
    and "recv_at inp outp c mode limit d r sh (concat (map frame_wire [first, pong, final]) @ rest) out False"
  shows "\<exists>s' r' sh'. echo_messages env x s r sh = Some (Panic, s', r', sh')"
proof -
  have "unat (h_payload_len (fst first)) = length (snd first)" "unat (h_payload_len (fst final)) = length (snd final)"
    using assms(2) by (simp_all add: frame_ok_def)
  then have "spec_receive limit 0 None 0 [] [first, pong, final] = Some (Inr (Incoming.Pong (snd pong)), snd first, [], False, [final])"
    "spec_receive limit (length (snd first)) None 0 (snd first) [final] =
      Some (Inr (Incoming.Data (Data.Text (length (snd final)))), snd first @ snd final, [], False, [])"
    using assms(4-11) by (simp_all add: spec_frame_def spec_data_def spec_control_def spec_message_def word_less_nat_alt Let_def)
  then have "spec_receive_data limit [] [first, pong, final] = Some (Inr (Data.Text (length (snd final))), snd first @ snd final, [], [])"
    by (simp add: spec_receive_data.simps [of limit "[]"] spec_receive_data.simps [of limit "snd first"])
  then have "spec_echo False limit [first, pong, final] = Some (Panic, [])"
    using assms(6) by (simp add: spec_echo.simps [of False])
  from echo_loop_refines [OF assms(1-3,12) this, of x] show ?thesis by (auto simp: echo_loop_simps)
qed

text \<open>
  C8. The server as a whole: a client whose request asks for a websocket, and which then sends whole messages, pings and
  pongs and closes the connection, gets the response to its request, every message back, every ping
  answered, in order, and its close frame answered. No other byte is written. The client offers no extension, and waits
  for the response.
\<close>

theorem serve_socket_echoes:
  fixes socket :: 'w and c :: "('w, Deflate) Client"
  assumes "env_ok env inp outp" "libs_ok lib inp outp"
    and "client_ok (deflate_extension f) c" "cl_extensions c = []" "list_all graphic nonce" "length nonce = 24"
    and "length (client_request (deflate_extension f) c nonce) \<le> MAX_HEADERS_SIZE"
    and "inp socket = client_request (deflate_extension f) c nonce @ concat (map frame_wire (frames @ [close]))"
    and "waits env inp (length (concat (map frame_wire (frames @ [close]))))"
    and "list_all (frame_ok default_codec) (frames @ [close])" "list_all (session_frame MAX_MESSAGE_SIZE) frames"
    and "h_opcode (fst close) = OpCode.Close" "close_answer (snd close) = Inr answer"
  shows "\<exists>w bs. serve_socket lib env (deflate_extension f) deflate socket = Some (Ret (), w) \<and>
    answers_on_wire Server (concat (map echo_answer frames) @ close_echo (snd close)) bs \<and>
    outp w = outp socket @ server_response (deflate_extension f) (base64 lib (sha1 lib (nonce @ KEY))) None [] @ bs"
proof -
  have "list_all (frame_ok default_codec) frames" using assms(10) by simp
  from serve_socket_refines [OF assms(1-10) spec_echo_session [OF assms(12,13,11) this]] show ?thesis .
qed

end
