(* ===== verification/Programs_Return.thy ===== *)
theory Programs_Return
  imports Echo_Props
begin

text \<open>
  The handshakes, and the example programs without compression, return whatever the peer sends and whichever reads and
  writes fail, once a bounded amount of input has arrived.
\<close>

section \<open>Handshakes return\<close>

text \<open>
  What is asked of the libraries: digests, encodings and random numbers have their lengths, and a parser of
  responses has not read more than it was given.
\<close>

definition libs_total :: "'w Libs \<Rightarrow> bool" where
  "libs_total lib \<longleftrightarrow>
     (\<forall>d. length (sha1 lib d) = 20) \<and> (\<forall>d. length (base64 lib d) = 4 * ((length d + 2) div 3)) \<and>
     (\<forall>w n w'. random_16 lib w = (n, w') \<longrightarrow> length n = 16) \<and>
     (\<forall>n bs r k. parse_response lib n bs = Inr (Complete r k) \<longrightarrow> k \<le> length bs)"

lemma libs_totalD:
  assumes "libs_total lib"
  shows "\<exists>v. generate_accept_key lib key = Some v"
    "random_16 lib w = (n, w') \<Longrightarrow> length output = 24 \<Longrightarrow> encode_slice lib n output = Some (base64 lib n)"
    "parse_response lib k bs = Inr (Complete r m) \<Longrightarrow> m \<le> length bs"
proof -
  have l: "length (sha1 lib d) = 20" "length (base64 lib d) = 4 * ((length d + 2) div 3)" for d
    using assms by (simp_all add: libs_total_def)
  show "\<exists>v. generate_accept_key lib key = Some v" using l by (simp add: generate_accept_key_def encode_slice_def)
  show "encode_slice lib n output = Some (base64 lib n)" if "random_16 lib w = (n, w')" "length output = 24"
  proof -
    have "length n = 16" using assms that(1) unfolding libs_total_def by blast
    then show ?thesis using l(2) [of n] that(2) by (simp add: encode_slice_def)
  qed
  show "parse_response lib k bs = Inr (Complete r m) \<Longrightarrow> m \<le> length bs" using assms unfolding libs_total_def by blast
qed

lemma read_within:
  assumes "finite_input env left_in" "read env w buf n = (Inr (), w', buf')"
  shows "\<exists>bs. bs \<noteq> [] \<and> buf' = buf @ bs \<and> left_in w' < left_in w"
proof -
  obtain bs where bs: "sock_read env w n = (Inr bs, w')" "bs \<noteq> []" "buf' = buf @ bs"
    using assms(2) by (auto simp: read_def split: prod.splits sum.splits if_splits)
  then show ?thesis using finite_inputD(1) [OF assms(1) bs(1)] by (cases bs) auto
qed

lemma receive_head_returns:
  assumes fin: "finite_input env left_in"
  shows "skip \<le> length (sv_buffer self) \<Longrightarrow> skip \<le> MAX_HEADERS_SIZE \<Longrightarrow>
    \<exists>r w b. receive_head env skip self = Some (r, self\<lparr>sv_socket := w, sv_buffer := b\<rparr>)"
proof (induction "left_in (sv_socket self)" arbitrary: self skip rule: less_induct)
  case less
  obtain r w b where rd: "read env (sv_socket self) (sv_buffer self) server_BLOCK_SIZE = (r, w, b)" by (metis prod.collapse)
  show ?case
  proof (cases r)
    case (Inl e)
    then show ?thesis using rd by (auto simp: receive_head.simps [of env skip self] Let_def)
  next
    case (Inr u)
    then obtain bs where bs: "b = sv_buffer self @ bs" "left_in w < left_in (sv_socket self)"
      using read_within [OF fin, of "sv_socket self" "sv_buffer self" server_BLOCK_SIZE w b] rd by auto
    let ?self = "self\<lparr>sv_socket := w, sv_buffer := b\<rparr>"
    have "\<not> min (length b) MAX_HEADERS_SIZE < skip" using less.prems bs(1) by simp
    moreover have "\<exists>r w' b'. receive_head env (length b - 4) ?self = Some (r, self\<lparr>sv_socket := w', sv_buffer := b'\<rparr>)"
      if "min (length b) MAX_HEADERS_SIZE \<noteq> MAX_HEADERS_SIZE"
      using less.hyps [of ?self "length b - 4"] that bs(2) by (auto simp: min_def split: if_splits)
    ultimately show ?thesis using rd Inr
      by (cases "has_tail (drop skip (take (min (length b) MAX_HEADERS_SIZE) b))")
         (auto simp: receive_head.simps [of env skip self] Let_def)
  qed
qed

lemma configure_none [simp]: "configure_named x n ps [] = (Inr (), [])" "configure_each x [] ls = (Inr (), [])"
  "configure_extensions x [] l = (Inr (), [])"
proof -
  show e: "configure_each x [] ls = (Inr (), [])" for ls by (induction ls) (simp_all add: Let_def)
  show "configure_extensions x [] l = (Inr (), [])" by (simp add: configure_extensions_def e)
qed simp

lemma configure_from_none: "configure_from_headers x [] hs = (r, es) \<Longrightarrow> es = []"
  by (induction hs) (auto split: if_splits sum.splits)

lemma accept_request_none:
  assumes "sv_extensions s = []"
  shows "sv_extensions (snd (accept_request x s q)) = []"
proof -
  obtain r es where c: "configure_from_headers x [] (rq_headers q) = (r, es)" by force
  then have "es = []" by (rule configure_from_none)
  then show ?thesis using assms by (simp add: accept_request_def Let_def c split: sum.split)
qed

lemma receive_request_returns:
  assumes "finite_input env left_in" "sv_extensions s = []"
  obtains r s' where "receive_request lib env x s = Some (r, s')" "sv_extensions s' = []"
proof -
  obtain r w b where h: "receive_head env 0 (s\<lparr>sv_buffer := []\<rparr>) = Some (r, s\<lparr>sv_socket := w, sv_buffer := b\<rparr>)"
    using receive_head_returns [OF assms(1), of 0 "s\<lparr>sv_buffer := []\<rparr>"] by auto
  have "sv_extensions (snd (decode_request lib x (s\<lparr>sv_socket := w, sv_buffer := b\<rparr>))) = []"
    using assms(2) accept_request_none [of "s\<lparr>sv_socket := w, sv_buffer := b\<rparr>" x]
    by (simp add: decode_request_def split: sum.split http_Status.split)
  then have d: "sv_extensions s' = []" if "decode_request lib x (s\<lparr>sv_socket := w, sv_buffer := b\<rparr>) = (r', s')" for r' s'
    using that by simp
  show ?thesis
  proof (cases r)
    case (Inl e)
    then show ?thesis using h assms(2) that by (simp add: receive_request_def)
  next
    case (Inr u)
    obtain r' s' where "decode_request lib x (s\<lparr>sv_socket := w, sv_buffer := b\<rparr>) = (r', s')" by force
    then show ?thesis using h Inr d that by (simp add: receive_request_def)
  qed
qed

lemma send_response_returns:
  assumes "libs_total lib"
  obtains r s' where "send_response lib env x s (Accept key protocol) = Some (r, s')" "sv_extensions s' = sv_extensions s"
proof -
  obtain v where "generate_accept_key lib key = Some v" using libs_totalD(1) [OF assms] by blast
  note enc = encode_response_head [OF this, of x "s\<lparr>sv_buffer := []\<rparr>" protocol]
  have "\<exists>r s'. send_response lib env x s (Accept key protocol) = Some (r, s') \<and> sv_extensions s' = sv_extensions s"
    by (simp add: send_response_def enc split: prod.split sum.split)
  then show ?thesis using that by blast
qed

section \<open>The server returns\<close>

lemma no_extensions_connection:
  assumes "finish (add_extensions x (set_buffer (builder_new env w mode) buf) []) = (s, r, sh)"
  shows "codec_ok (s_codec s) \<and> \<not> s_has_extensions s \<and> plain r"
  using assms by (auto simp: finish_def add_extensions_def builder_new_def set_buffer_def Let_def codec_ok_def set_max_data_size_def
      codec_new_def plain_def split: prod.splits)

lemma serve_socket_returns:
  assumes fin: "finite_input env left_in" and lib: "libs_total lib"
  shows "\<exists>y. serve_socket lib env x False socket = Some y"
proof -
  obtain r s where rq: "receive_request lib env x (new_server False socket) = Some (r, s)" "sv_extensions s = []"
    by (rule receive_request_returns [OF fin, of "new_server False socket" lib x]) (simp add: new_server_def server_new_def)
  show ?thesis
  proof (cases r)
    case (Inl e)
    then show ?thesis using rq by (simp add: serve_socket_def)
  next
    case (Inr q)
    obtain r2 s2 where sr: "send_response lib env x s (Accept (request_key q) None) = Some (r2, s2)" "sv_extensions s2 = []"
      using send_response_returns [OF lib] rq(2) by metis
    obtain s3 r3 sh3 where fn: "finish (server_into_builder env x s2) = (s3, r3, sh3)" by (metis prod.collapse)
    then have "codec_ok (s_codec s3) \<and> \<not> s_has_extensions s3 \<and> plain r3"
      using no_extensions_connection [of x env "sv_socket s2" Server "sv_buffer s2" s3 r3 sh3] sr(2) by (simp add: server_into_builder_def)
    then obtain y where "echo_messages env x s3 r3 sh3 = Some y"
      using echo_loop_returns [OF fin, of s3 r3 False x sh3] by (auto simp: echo_loop_simps)
    then show ?thesis using rq Inr sr fn by (cases r2) (auto simp: serve_socket_def)
  qed
qed

lemma server_main_returns:
  assumes "finite_input env left_in" "libs_total lib"
  shows "\<exists>y. server_main lib env x False sockets = Some y"
proof (induction sockets)
  case (Cons s sockets)
  show ?case
  proof (cases s)
    case (Inr w)
    obtain o' w' where "serve_socket lib env x False w = Some (o', w')" using serve_socket_returns [OF assms, of x w] by auto
    then show ?thesis using Inr Cons by (cases o') auto
  qed simp
qed simp

section \<open>The client returns\<close>

lemma accept_response_none:
  assumes "cl_extensions c = []"
  shows "cl_extensions (snd (accept_response lib x c hs)) = [] \<and> cl_buffer (snd (accept_response lib x c hs)) = cl_buffer c \<and>
    cl_socket (snd (accept_response lib x c hs)) = cl_socket c"
proof -
  obtain r es where c: "configure_from_headers x [] hs = (r, es)" by force
  then have "es = []" by (rule configure_from_none)
  then show ?thesis using assms by (simp add: accept_response_def c split: sum.split)
qed

lemma decode_response_none:
  assumes lib: "libs_total lib" and c: "cl_extensions c = []" and d: "decode_response lib x c = (r, c')"
  shows "cl_extensions c' = []" "cl_socket c' = cl_socket c" "cl_buffer c' = cl_buffer c"
    "r = Inr (Done v k) \<Longrightarrow> k \<le> length (cl_buffer c')" "r = Inr (NeedMore u) \<Longrightarrow> c' = c"
proof -
  have a: "cl_extensions a = [] \<and> cl_buffer a = cl_buffer c \<and> cl_socket a = cl_socket c" if "accept_response lib x c hs = (q, a)" for hs q a
    using accept_response_none [OF c, of lib x hs] that by simp
  show e: "cl_extensions c' = []" "cl_socket c' = cl_socket c" "cl_buffer c' = cl_buffer c"
    using c d by (auto simp: decode_response_def split: sum.splits http_Status.splits if_splits option.splits prod.splits dest: a)
  show "r = Inr (Done v k) \<Longrightarrow> k \<le> length (cl_buffer c')" "r = Inr (NeedMore u) \<Longrightarrow> c' = c"
    unfolding e(3) using d libs_totalD(3) [OF lib]
    by (auto simp: decode_response_def split: sum.splits http_Status.splits if_splits option.splits prod.splits)
qed

lemma client_read_loop_returns:
  assumes fin: "finite_input env left_in" and lib: "libs_total lib"
  shows "cl_extensions c = [] \<Longrightarrow> \<exists>r c'. client_read_loop lib env x c = Some (r, c') \<and> cl_extensions c' = []"
proof (induction "left_in (cl_socket c)" arbitrary: c rule: less_induct)
  case less
  obtain r w b where rd: "read env (cl_socket c) (cl_buffer c) client_BLOCK_SIZE = (r, w, b)" by (metis prod.collapse)
  let ?c = "c\<lparr>cl_socket := w, cl_buffer := b\<rparr>"
  obtain p c1 where dr: "decode_response lib x ?c = (p, c1)" by force
  have c0: "cl_extensions ?c = []" using less.prems by simp
  note d = decode_response_none [OF lib c0 dr]
  show ?case
  proof (cases r)
    case (Inl e)
    then show ?thesis using rd less.prems by (auto simp: client_read_loop.simps [of lib env x c] Let_def)
  next
    case (Inr u)
    then have "left_in (cl_socket ?c) < left_in (cl_socket c)"
      using read_within [OF fin, of "cl_socket c" "cl_buffer c" client_BLOCK_SIZE w b] rd by auto
    then have IH: "\<exists>r c'. client_read_loop lib env x ?c = Some (r, c') \<and> cl_extensions c' = []" using less.hyps c0 by blast
    show ?thesis
    proof (cases p)
      case (Inl e)
      then show ?thesis using rd Inr dr d(1) by (simp add: client_read_loop.simps [of lib env x c] Let_def)
    next
      case p: (Inr q)
      show ?thesis
      proof (cases q)
        case (Done v k)
        then show ?thesis using rd Inr dr p d(1) d(4) [of v k] by (simp add: client_read_loop.simps [of lib env x c] Let_def)
      next
        case (NeedMore n)
        then have "c1 = ?c" using d(5) [of n] p by simp
        then show ?thesis using rd Inr dr p NeedMore IH by (simp add: client_read_loop.simps [of lib env x c] Let_def)
      qed
    qed
  qed
qed

lemma client_handshake_returns:
  assumes fin: "finite_input env left_in" and lib: "libs_total lib" and c: "cl_extensions c = []" "length (cl_nonce c) = 24"
  obtains r c' where "client_handshake lib env x c = Some (r, c')" "cl_extensions c' = []"
proof -
  obtain n w where n: "random_16 lib (cl_socket c) = (n, w)" by force
  have enc: "\<exists>c1. encode_request lib x (c\<lparr>cl_buffer := []\<rparr>) = Some c1 \<and> cl_extensions c1 = []"
    using libs_totalD(2) [OF lib n, of "cl_nonce c"] c n by (simp add: encode_request_def Let_def)
  then obtain c1 where c1: "encode_request lib x (c\<lparr>cl_buffer := []\<rparr>) = Some c1" "cl_extensions c1 = []" by blast
  have "\<exists>r c'. client_handshake lib env x c = Some (r, c') \<and> cl_extensions c' = []"
    using c1 client_read_loop_returns [OF fin lib, of "c1\<lparr>cl_socket := w', cl_buffer := []\<rparr>" x for w']
    by (auto simp: client_handshake_def split: prod.split sum.split)
  then show ?thesis using that by blast
qed

lemma with_accepted_returns:
  assumes fin: "finite_input env left_in" and lib: "libs_total lib"
    and k: "\<And>client. cl_extensions client = [] \<Longrightarrow> \<exists>y. k client = Some y"
  shows "\<exists>y. with_accepted lib env x (new_client False socket path) k = Some y"
proof -
  obtain r c' where "client_handshake lib env x (new_client False socket path) = Some (r, c')" "cl_extensions c' = []"
    by (rule client_handshake_returns [OF fin lib, of "new_client False socket path" x]) simp_all
  then show ?thesis using k by (simp add: with_accepted_def split: sum.split ServerResponse.split)
qed

lemma client_connection:
  assumes "cl_extensions client = []" "finish (client_into_builder env x client) = (s, r, sh)"
  shows "codec_ok (s_codec s) \<and> \<not> s_has_extensions s \<and> plain r"
  using no_extensions_connection [of x env "cl_socket client" Client "cl_buffer client" s r sh] assms by (simp add: client_into_builder_def)

lemma num_of_cases_returns:
  assumes fin: "finite_input env left_in" and lib: "libs_total lib"
  shows "\<exists>y. num_of_cases lib env x False socket = Some y"
  unfolding num_of_cases_def
proof (rule with_accepted_returns [OF fin lib])
  fix client :: "('a, Deflate) Client"
  assume c: "cl_extensions client = []"
  obtain s r sh where fn: "finish (client_into_builder env x client) = (s, r, sh)" by (metis prod.collapse)
  then obtain y where "receive_data env x r sh [] = Some y"
    using receive_data_within [OF fin] client_connection [OF c fn] by blast
  then show "\<exists>y. (case finish (client_into_builder env x client) of (_, receiver, sh) \<Rightarrow>
         map_option (\<lambda>(r, receiver, sh, data).
           (case r of
              Inl e \<Rightarrow> Err (ConnectionError e)
            | Inr kind \<Rightarrow>
                if \<not> data_is_text kind then Panic
                else (case from_utf8 data of
                    Inl e \<Rightarrow> Err (Utf8Failure e)
                  | Inr s \<Rightarrow> (case parse_usize s of None \<Rightarrow> Err ParseIntError | Some num \<Rightarrow> Ret num)), sh_world sh))
           (receive_data env x receiver sh [])) = Some y" by (simp add: fn)
qed

lemma run_case_returns:
  assumes fin: "finite_input env left_in" and lib: "libs_total lib"
  shows "\<exists>y. run_case lib env x False i socket = Some y"
  unfolding run_case_def Let_def
proof (rule with_accepted_returns [OF fin lib])
  fix client :: "('a, Deflate) Client"
  assume c: "cl_extensions client = []"
  obtain s r sh where fn: "finish (client_into_builder env x client) = (s, r, sh)" by (metis prod.collapse)
  then obtain y where "case_messages env x s r sh = Some y"
    using echo_loop_returns [OF fin, of s r True x sh] client_connection [OF c fn] by (auto simp: echo_loop_simps)
  then show "\<exists>y. (case finish (client_into_builder env x client) of (sender, receiver, sh) \<Rightarrow>
          map_option (\<lambda>(r, sender, receiver, sh). (r, sh_world sh)) (case_messages env x sender receiver sh)) = Some y"
    by (simp add: fn)
qed

lemma sender_close_returns:
  assumes fin: "finite_input env left_in" and "codec_ok (s_codec s)"
  shows "\<exists>y. sender_close env s w = Some y"
proof -
  obtain r codec' w' h' data' mb' where
    "write_frame env (s_mode s) (s_codec s) w (header_new OpCode.Close) (Shared (to_be_bytes 2 (1000 :: u16))) (s_mask_buffer s) =
       Some (r, codec', w', h', data', mb')"
    using write_frame_progress [OF fin assms(2)] by metis
  then show ?thesis by (auto simp: sender_close_def sender_write_def Let_def split: sum.split prod.split)
qed

lemma update_report_returns:
  assumes fin: "finite_input env left_in" and lib: "libs_total lib"
  shows "\<exists>y. update_report lib env x False socket = Some y"
  unfolding update_report_def Let_def
proof (rule with_accepted_returns [OF fin lib])
  fix client :: "('a, Deflate) Client"
  assume c: "cl_extensions client = []"
  obtain s r sh where fn: "finish (client_into_builder env x client) = (s, r, sh)" by (metis prod.collapse)
  then obtain y where "sender_close env s (sh_world sh) = Some y"
    using sender_close_returns [OF fin] client_connection [OF c fn] by blast
  then show "\<exists>y. (case finish (client_into_builder env x client) of (sender, receiver, sh) \<Rightarrow>
          map_option (\<lambda>(r, sender, w). (case r of Inl e \<Rightarrow> Err (ConnectionError e) | Inr _ \<Rightarrow> Ret (), w))
            (sender_close env sender (sh_world sh))) = Some y" by (simp add: fn)
qed

lemma connected_returns: "(\<And>w. \<exists>y. k w = Some y) \<Longrightarrow> \<exists>r net' ws. connected connect net k = Some (r, net', ws)"
  by (fastforce simp: connected_def split: prod.split sum.split)

lemma run_cases_returns:
  assumes "finite_input env left_in" "libs_total lib"
  shows "\<exists>r net' ws. run_cases connect lib env x False is net = Some (r, net', ws)"
proof (induction "is" arbitrary: net)
  case (Cons i "is")
  obtain r net' ws where "connected connect net (run_case lib env x False i) = Some (r, net', ws)"
    using connected_returns [of "run_case lib env x False i" connect net] run_case_returns [OF assms] by blast
  then show ?case using Cons [of net'] by (cases r) auto
qed simp

lemma client_main_returns:
  assumes "finite_input env left_in" "libs_total lib"
  shows "\<exists>y. client_main connect lib env x False net = Some y"
proof -
  obtain r net1 ws where n: "connected connect net (num_of_cases lib env x False) = Some (r, net1, ws)"
    using connected_returns [of "num_of_cases lib env x False" connect net] num_of_cases_returns [OF assms] by blast
  show ?thesis
  proof (cases r)
    case (Ret num)
    obtain r2 net2 ws2 where c: "run_cases connect lib env x False [1 ..< unat num + 1] net1 = Some (r2, net2, ws2)"
      using run_cases_returns [OF assms, of connect x "[1 ..< unat num + 1]" net1] by (elim exE)
    obtain r3 net3 ws3 where "connected connect net2 (update_report lib env x False) = Some (r3, net3, ws3)"
      using connected_returns [of "update_report lib env x False" connect net2] update_report_returns [OF assms] by blast
    then show ?thesis using n Ret c by (cases r2) (simp_all add: client_main_def del: upt_Suc)
  qed (use n in \<open>simp_all add: client_main_def\<close>)
qed

text \<open>
  C13. Termination of the programs: the echo server, for any sockets a listener delivers, and the echo client, for any
  network, end without compression, whatever their peers send and whichever operations fail, if each
  socket delivers a bounded amount of input.
\<close>

theorem programs_return:
  assumes "finite_input env left_in" "libs_total lib"
  shows "server_main lib env x False sockets \<noteq> None \<and> client_main connect lib env x False net \<noteq> None"
  using server_main_returns [OF assms, of x sockets] client_main_returns [OF assms, of connect x net] by auto

end
