(* ===== verification/Extended_Receive.thy ===== *)
theory Extended_Receive
  imports Receiver_Props
begin

text \<open>
  Receiving with extensions: the specification of \<open>Connection_Receive\<close> with the states of the extensions, which the
  receiver refines whatever the extensions are.
\<close>

section \<open>The specification\<close>

text \<open>The extensions decode the whole message buffer, under the given header.\<close>

definition spec_decode :: "'e Extension \<Rightarrow> 'e list \<Rightarrow> Header \<Rightarrow> bytes \<Rightarrow> (conn_Error + Header) \<times> 'e list \<times> bytes" where
  "spec_decode x es h msg =
     (case decode_extensions x es h msg of
        (Inl e, es, h, msg) \<Rightarrow> (Inl e, es, msg)
      | (Inr _, es, h, msg) \<Rightarrow> (Inr h, es, msg))"

text \<open>The end of a message; \<open>None\<close> when the buffer is shorter than it was before the call, where the code panics.\<close>

definition spec_deliver :: "nat \<Rightarrow> OpCode \<Rightarrow> bytes \<Rightarrow> spec_step option" where
  "spec_deliver message_len oc msg =
     (if length msg < message_len then None else Some (Stop (spec_message message_len oc msg) msg [] False))"

text \<open>A data frame within the limit, after its payload was appended to the message.\<close>

definition ext_dispatch :: "'e Extension \<Rightarrow> nat \<Rightarrow> OpCode option \<Rightarrow> usize \<Rightarrow> bytes \<Rightarrow> 'e list \<Rightarrow> Header \<Rightarrow> spec_step option \<times> 'e list" where
  "ext_dispatch x message_len fo len msg es h =
     (case (h_fin h, h_opcode h = OpCode.Continue, fo) of
        (False, True, Some first) \<Rightarrow> (Some (Cont fo len msg []), es)
      | (False, False, None) \<Rightarrow>
          (case spec_decode x es h msg of
             (Inl e, es, msg) \<Rightarrow> (Some (Stop (Inl e) msg [] False), es)
           | (Inr h', es, msg) \<Rightarrow> (Some (Cont (Some (h_opcode h)) len msg []), es))
      | (True, True, Some first) \<Rightarrow>
          (case spec_decode x es (h\<lparr>h_payload_len := of_nat (length msg)\<rparr>) msg of
             (Inl e, es, msg) \<Rightarrow> (Some (Stop (Inl e) msg [] False), es)
           | (Inr h', es, msg) \<Rightarrow> (spec_deliver message_len first msg, es))
      | (True, False, None) \<Rightarrow>
          (case spec_decode x es h msg of
             (Inl e, es, msg) \<Rightarrow> (Some (Stop (Inl e) msg [] False), es)
           | (Inr h', es, msg) \<Rightarrow> (spec_deliver message_len (h_opcode h') msg, es))
      | (_, _, _) \<Rightarrow> (Some (Stop (Inl (conn_Error.UnexpectedOpCode (h_opcode h))) msg [] False), es))"

definition ext_data :: "'e Extension \<Rightarrow> usize \<Rightarrow> nat \<Rightarrow> OpCode option \<Rightarrow> usize \<Rightarrow> bytes \<Rightarrow> 'e list \<Rightarrow> frame \<Rightarrow> spec_step option \<times> 'e list" where
  "ext_data x limit message_len fo len msg es f =
     (let len = saturating_add len (h_payload_len (fst f)) in
      if len > limit then (Some (Stop (Inl (MessageTooLarge len limit)) msg [] False), es)
      else ext_dispatch x message_len fo len (msg @ snd f) es (fst f))"

definition ext_frame :: "'e Extension \<Rightarrow> usize \<Rightarrow> nat \<Rightarrow> OpCode option \<Rightarrow> usize \<Rightarrow> bytes \<Rightarrow> 'e list \<Rightarrow> frame \<Rightarrow> spec_step option \<times> 'e list" where
  "ext_frame x limit message_len fo len msg es f =
     (if is_control (h_opcode (fst f)) then (Some (spec_control fo len msg f), es)
      else ext_data x limit message_len fo len msg es f)"

text \<open>
  The result is \<open>None\<close> if the frames end before the message does, and \<open>Some None\<close> for a panic; otherwise as in
  \<open>spec_receive\<close>, with the states of the extensions.
\<close>

type_synonym 'e ext_result = "((conn_Error + Incoming) \<times> bytes \<times> answer list \<times> bool \<times> 'e list \<times> frame list) option option"

definition ext_answered :: "answer list \<Rightarrow> 'e ext_result \<Rightarrow> 'e ext_result" where
  "ext_answered as = map_option (map_option (\<lambda>(r, msg, as', closed, es, left). (r, msg, as @ as', closed, es, left)))"

lemma ext_answered_simps [simp]:
  "ext_answered as None = None" "ext_answered as (Some None) = Some None"
  "ext_answered as (Some (Some (r, msg, as', closed, es, left))) = Some (Some (r, msg, as @ as', closed, es, left))"
  by (simp_all add: ext_answered_def)

lemma ext_answered_append [simp]: "ext_answered [] res = res" "ext_answered as (ext_answered as' res) = ext_answered (as @ as') res"
proof -
  consider "res = None" | "res = Some None" | r msg as0 closed es left where "res = Some (Some (r, msg, as0, closed, es, left))"
    by (metis option.exhaust prod_cases6)
  note c = this
  from c show "ext_answered [] res = res" by cases simp_all
  from c show "ext_answered as (ext_answered as' res) = ext_answered (as @ as') res" by cases simp_all
qed

fun ext_receive :: "'e Extension \<Rightarrow> usize \<Rightarrow> nat \<Rightarrow> OpCode option \<Rightarrow> usize \<Rightarrow> bytes \<Rightarrow> 'e list \<Rightarrow> frame list \<Rightarrow> 'e ext_result" where
  "ext_receive x limit message_len fo len msg es [] = None"
| "ext_receive x limit message_len fo len msg es (f # fs) =
     (case ext_frame x limit message_len fo len msg es f of
        (None, es) \<Rightarrow> Some None
      | (Some (Stop r msg as closed), es) \<Rightarrow> Some (Some (r, msg, as, closed, es, fs))
      | (Some (Cont fo len msg as), es) \<Rightarrow>
          ext_answered as (ext_receive x limit message_len fo len msg es fs))"

section \<open>The receiver refines it\<close>

text \<open>Extensions are in use and in the states \<open>es\<close>.\<close>

abbreviation (input) in_states :: "'e list \<Rightarrow> bool \<Rightarrow> 'e list \<Rightarrow> bool" where
  "in_states es \<equiv> \<lambda>in_use es'. in_use \<and> es' = es"

abbreviation recv_ext where "recv_ext es \<equiv> recv_in (in_states es)"

lemma decode_step_spec:
  assumes "r_has_extensions (l_self st)" "sh_extensions (l_shared st) = es"
  shows "decode_step x st h = (case spec_decode x es h (l_message st) of (r, es, msg) \<Rightarrow>
    (r, st\<lparr>l_shared := (l_shared st)\<lparr>sh_extensions := es\<rparr>, l_message := msg\<rparr>))"
  using assms by (auto simp: decode_step_def decode_with_extensions_def spec_decode_def split: prod.splits sum.splits)

lemma decode_extensions_error: "decode_extensions x es h msg = (Inl e, es', h', msg') \<Longrightarrow> \<exists>er. e = conn_Error.Extension er"
  by (induction es arbitrary: h msg es') (auto split: prod.splits sum.splits)

text \<open>What a step of the loop must achieve, panics included.\<close>

definition step_ext where
  "step_ext env x inp outp c mode limit d message_len st out pl rest step \<longleftrightarrow>
     (case step of
        (None, es) \<Rightarrow> receive_body env x message_len st = None
      | (Some s, es) \<Rightarrow> step_in (in_states es) env x inp outp c mode limit d 0 message_len st out pl rest s)"

lemma step_ext_decoded:
  assumes at: "loop_in (in_states es) inp outp c mode limit d 0 st fo len msg rest out"
    and body: "receive_body env x mlen st0 = (case decode_step x (st\<lparr>l_first_fragment_opcode := fo'\<rparr>) h of
       (Inl e, st) \<Rightarrow> Some (return_with st (Inl e)) | (Inr h, st) \<Rightarrow> k h st)"
    and step: "\<And>h' es' msg' st'. spec_decode x es h msg = (Inr h', es', msg') \<Longrightarrow>
      loop_in (in_states es') inp outp c mode limit d 0 st' fo' len msg' rest out \<Longrightarrow> receive_body env x mlen st0 = k h' st' \<Longrightarrow>
      step_ext env x inp outp c mode limit d mlen st0 out pl rest (s h' msg', es')"
  shows "step_ext env x inp outp c mode limit d mlen st0 out pl rest
    (case spec_decode x es h msg of (Inl e, es, msg) \<Rightarrow> (Some (Stop (Inl e) msg [] False), es) | (Inr h, es, msg) \<Rightarrow> (s h msg, es))"
proof -
  obtain r es' msg' where d: "spec_decode x es h msg = (r, es', msg')" by (metis prod.collapse)
  let ?st = "st\<lparr>l_first_fragment_opcode := fo', l_shared := (l_shared st)\<lparr>sh_extensions := es'\<rparr>, l_message := msg'\<rparr>"
  have ds: "decode_step x (st\<lparr>l_first_fragment_opcode := fo'\<rparr>) h = (r, ?st)"
    using at d by (subst decode_step_spec [where es = es]) (simp_all add: loop_in_def recv_in_def)
  have at': "loop_in (in_states es') inp outp c mode limit d 0 ?st fo' len msg' rest out"
    using at by (simp add: loop_in_def recv_in_def)
  show ?thesis
  proof (cases r)
    case (Inl e)
    have nt: "\<not> too_large (Inl e)" using d Inl by (auto simp: spec_decode_def dest: decode_extensions_error split: prod.splits sum.splits)
    have "receive_body env x mlen st0 = Some (return_with ?st (Inl e))" using body ds Inl by simp
    from receive_loop_Return [OF this] show ?thesis
      using at' d Inl left_over_rest [OF nt] by (force simp: step_ext_def step_in_def loop_in_def)
  next
    case (Inr h')
    have "receive_body env x mlen st0 = k h' ?st" using body ds Inr by simp
    then show ?thesis using step [OF _ at'] d Inr by simp
  qed
qed

lemma step_ext_stop:
  assumes "loop_in (in_states es) inp outp c mode limit d 0 st fo len msg rest out" "\<not> too_large r"
    and "receive_body env x mlen st0 = Some (return_with st r)"
  shows "step_ext env x inp outp c mode limit d mlen st0 out pl rest (Some (Stop r msg [] False), es)"
  using receive_loop_Return [OF assms(3)] assms(1) left_over_rest [OF assms(2)] by (force simp: step_ext_def step_in_def loop_in_def)

lemma step_ext_cont:
  assumes "loop_in (in_states es) inp outp c mode limit d 0 st fo len msg rest out" "receive_body env x mlen st0 = Some (Again st)"
  shows "step_ext env x inp outp c mode limit d mlen st0 out pl rest (Some (Cont fo len msg []), es)"
  using assms by (force simp: step_ext_def step_in_def)

lemma step_ext_deliver:
  assumes "loop_in (in_states es) inp outp c mode limit d 0 st fo len msg rest out" "receive_body env x mlen st0 = deliver mlen st oc"
  shows "step_ext env x inp outp c mode limit d mlen st0 out pl rest (spec_deliver mlen oc msg, es)"
proof (cases "length msg < mlen")
  case True
  then show ?thesis using assms by (simp add: step_ext_def spec_deliver_def deliver_def loop_in_def)
next
  case False
  have "receive_body env x mlen st0 = Some (return_with st (spec_message mlen oc msg))"
    using assms False by (simp add: deliver_def spec_message_def loop_in_def Let_def)
  from step_ext_stop [OF assms(1) _ this] show ?thesis using False by (simp add: spec_deliver_def spec_message_def)
qed

lemma dispatch_ext:
  assumes at: "loop_in (in_states es) inp outp c mode limit d 0 st fo len msg rest out"
    and body: "receive_body env x mlen st0 = dispatch x mlen st h"
  shows "step_ext env x inp outp c mode limit d mlen st0 out pl rest (ext_dispatch x mlen fo len msg es h)"
proof -
  have st: "l_first_fragment_opcode st = fo" "l_message st = msg" using at by (simp_all add: loop_in_def)
  have same: "fo = None \<Longrightarrow> st\<lparr>l_first_fragment_opcode := None\<rparr> = st" using st by simp
  note stop = step_ext_stop [OF at]
  show ?thesis
  proof (cases "h_fin h"; cases "h_opcode h = OpCode.Continue"; cases fo)
    fix first
    assume c: "h_fin h" "h_opcode h = OpCode.Continue" "fo = Some first"
    have b: "receive_body env x mlen st0 = (case decode_step x (st\<lparr>l_first_fragment_opcode := None\<rparr>) (h\<lparr>h_payload_len := of_nat (length msg)\<rparr>) of
        (Inl e, st) \<Rightarrow> Some (return_with st (Inl e)) | (Inr h, st) \<Rightarrow> deliver mlen st first)"
      using body c st by (simp add: dispatch_def model_defs Let_def split: prod.split sum.split)
    show ?thesis unfolding ext_dispatch_def using c by simp (rule step_ext_decoded [OF at b], rule step_ext_deliver)
  next
    assume c: "h_fin h" "h_opcode h \<noteq> OpCode.Continue" "fo = None"
    have b: "receive_body env x mlen st0 = (case decode_step x (st\<lparr>l_first_fragment_opcode := None\<rparr>) h of
        (Inl e, st) \<Rightarrow> Some (return_with st (Inl e)) | (Inr h, st) \<Rightarrow> deliver mlen st (h_opcode h))"
      unfolding same [OF c(3)] using body c st by (simp add: dispatch_def model_defs split: prod.split sum.split)
    show ?thesis unfolding ext_dispatch_def using c by simp (rule step_ext_decoded [OF at b], rule step_ext_deliver)
  next
    assume c: "\<not> h_fin h" "h_opcode h \<noteq> OpCode.Continue" "fo = None"
    have b: "receive_body env x mlen st0 = (case decode_step x (st\<lparr>l_first_fragment_opcode := Some (h_opcode h)\<rparr>) h of
        (Inl e, st) \<Rightarrow> Some (return_with st (Inl e)) | (Inr h, st) \<Rightarrow> Some (Again st))"
      using body c st by (simp add: dispatch_def model_defs)
    show ?thesis unfolding ext_dispatch_def using c by simp (rule step_ext_decoded [OF at b], rule step_ext_cont)
  qed (use body st at in \<open>auto simp: ext_dispatch_def dispatch_def model_defs intro!: step_ext_cont step_ext_stop\<close>)
qed

lemma frame_ext:
  assumes env: "env_ok env inp outp" and f: "frame_ok c f"
    and at: "loop_in (in_states es) inp outp c mode limit d 0 st fo len msg (frame_wire f @ rest) out"
  shows "step_ext env x inp outp c mode limit d mlen st out (apply_mask (fst f) (snd f)) rest (ext_frame x limit mlen fo len msg es f)"
proof -
  obtain h p where [simp]: "f = (h, p)" by force
  obtain st' where st': "loop_in (in_states es) inp outp c mode limit d 0 st' fo len msg (apply_mask h p @ rest) out"
    "receive_body env x mlen st =
       (if is_control (h_opcode h) then receive_control env st' h else receive_data_frame env x mlen st' h)"
    using receive_body_header [OF env] f at by (metis \<open>f = (h, p)\<close>)
  have len: "unat (h_payload_len h) = length p" using f by (simp add: frame_ok_def)
  consider "is_control (h_opcode h)" | "\<not> is_control (h_opcode h)" "saturating_add len (h_payload_len h) > limit"
    | "\<not> is_control (h_opcode h)" "\<not> saturating_add len (h_payload_len h) > limit" by blast
  then show ?thesis
  proof cases
    case 1
    then have "h_opcode h \<in> {OpCode.Ping, OpCode.Pong, OpCode.Close}" by (cases "h_opcode h") auto
    from control_refines [OF env len this st'(1)] st'(2) 1 show ?thesis by (simp add: ext_frame_def step_ext_def)
  next
    case 2
    from oversized_refines [OF env 2(2) st'(1)] st'(2) 2 show ?thesis by (simp add: ext_frame_def ext_data_def step_ext_def)
  next
    case 3
    obtain st2 where st2: "receive_data_frame env x mlen st' h = dispatch x mlen st2 h"
      "loop_in (in_states es) inp outp c mode limit d 0 st2 fo (saturating_add len (h_payload_len h)) (msg @ p) rest out"
      using payload_read [OF env len 3(2) st'(1)] by blast
    have "receive_body env x mlen st = dispatch x mlen st2 h" using st'(2) st2(1) 3(1) by simp
    from dispatch_ext [OF st2(2) this] show ?thesis using 3 by (simp add: ext_frame_def ext_data_def Let_def)
  qed
qed

lemma receive_loop_ext:
  assumes env: "env_ok env inp outp"
  shows "list_all (frame_ok c) frames \<Longrightarrow>
    loop_in (in_states es) inp outp c mode limit d 0 st fo len msg (concat (map frame_wire frames) @ rest) out \<Longrightarrow>
    ext_receive x limit mlen fo len msg es frames = Some res \<Longrightarrow>
    case res of
      None \<Rightarrow> receive_loop env x mlen st = None
    | Some (r, msg', as, closed, es', left) \<Rightarrow>
        \<exists>self' sh' bs stream' read_frames f. receive_loop env x mlen st = Some (r, self', sh', msg') \<and> answers_on_wire mode as bs \<and>
          recv_ext es' inp outp c mode limit d self' sh' stream' (out @ bs) closed \<and> frames = read_frames @ f # left \<and>
          left_over d r (apply_mask (fst f) (snd f)) (concat (map frame_wire left) @ rest) stream'"
proof (induction frames arbitrary: es st fo len msg out res)
  case (Cons f frames)
  let ?rest = "concat (map frame_wire frames) @ rest"
  obtain s es1 where s1: "ext_frame x limit mlen fo len msg es f = (s, es1)" by force
  have s: "step_ext env x inp outp c mode limit d mlen st out (apply_mask (fst f) (snd f)) ?rest (s, es1)"
    unfolding s1 [symmetric] using Cons.prems by (intro frame_ext [OF env]) simp_all
  show ?case
  proof (cases s)
    case None
    then show ?thesis using s s1 Cons.prems(3) by (simp add: step_ext_def receive_loop.simps [of _ _ _ st])
  next
    case (Some step)
    show ?thesis
    proof (cases step)
      case (Stop r2 msg2 as2 cl2)
      then have res: "res = Some (r2, msg2, as2, cl2, es1, frames)" using s1 Some Cons.prems(3) by simp
      obtain self' sh' bs stream' where "receive_loop env x mlen st = Some (r2, self', sh', msg2)" "answers_on_wire mode as2 bs"
        "recv_ext es1 inp outp c mode limit d self' sh' stream' (out @ bs) cl2" "left_over d r2 (apply_mask (fst f) (snd f)) ?rest stream'"
        using s Some Stop by (auto simp: step_ext_def step_in_def)
      then show ?thesis unfolding res option.case prod.case
        by (intro exI [of _ self'] exI [of _ sh'] exI [of _ bs] exI [of _ stream'] exI [of _ "[]"] exI [of _ f]) simp
    next
      case (Cont fo2 len2 msg2 as2)
      obtain st' bs where st': "receive_body env x mlen st = Some (Again st')" "answers_on_wire mode as2 bs"
        "loop_in (in_states es1) inp outp c mode limit d 0 st' fo2 len2 msg2 ?rest (out @ bs)"
        using s Some Cont by (auto simp: step_ext_def step_in_def)
      obtain res2 where r2: "ext_receive x limit mlen fo2 len2 msg2 es1 frames = Some res2"
        "res = map_option (\<lambda>(r, msg, as', closed, es, left). (r, msg, as2 @ as', closed, es, left)) res2"
        using Cons.prems(3) s1 Some Cont by (auto simp: ext_answered_def)
      note IH = Cons.IH [OF _ st'(3) r2(1)] receive_loop_Again [OF st'(1)]
      show ?thesis
      proof (cases res2)
        case None
        then show ?thesis using IH r2(2) Cons.prems(1) by simp
      next
        case (Some y)
        obtain r msg' as' closed es' left where y: "y = (r, msg', as', closed, es', left)" by (cases y) auto
        obtain self' sh' bs' stream' read_frames g where "receive_loop env x mlen st' = Some (r, self', sh', msg')"
          "answers_on_wire mode as' bs'" "recv_ext es' inp outp c mode limit d self' sh' stream' ((out @ bs) @ bs') closed"
          "frames = read_frames @ g # left" "left_over d r (apply_mask (fst g) (snd g)) (concat (map frame_wire left) @ rest) stream'"
          using IH(1) Some y Cons.prems(1) by auto
        moreover have res: "res = Some (r, msg', as2 @ as', closed, es', left)" using r2(2) Some y by simp
        ultimately show ?thesis using IH(2) answers_on_wire_append [OF st'(2), of as' bs'] unfolding res option.case prod.case
          by (intro exI [of _ self'] exI [of _ sh'] exI [of _ "bs @ bs'"] exI [of _ stream'] exI [of _ "f # read_frames"] exI [of _ g]) simp
      qed
    qed
  qed
qed simp

lemma receive_ext:
  assumes "env_ok env inp outp" "list_all (frame_ok c) frames"
    and "recv_ext es inp outp c mode limit d self sh (concat (map frame_wire frames) @ rest) out False"
    and "ext_receive x limit (length message) None 0 message es frames = Some res"
  shows "case res of
      None \<Rightarrow> receive env x self sh message = None
    | Some (r, message', as, closed, es', left) \<Rightarrow>
        \<exists>self' sh' bs stream' read_frames f. receive env x self sh message = Some (r, self', sh', message') \<and> answers_on_wire mode as bs \<and>
          recv_ext es' inp outp c mode limit d self' sh' stream' (out @ bs) closed \<and> frames = read_frames @ f # left \<and>
          left_over d r (apply_mask (fst f) (snd f)) (concat (map frame_wire left) @ rest) stream'"
  unfolding receive_def
  by (rule receive_loop_ext [OF assms(1,2) _ assms(4), where out = out]) (simp add: loop_in_def assms(3))

lemma receive_ext_rest:
  assumes "env_ok env inp outp" "list_all (frame_ok c) frames"
    and "recv_ext es inp outp c mode limit d self sh (concat (map frame_wire frames) @ rest) out False"
    and "ext_receive x limit (length message) None 0 message es frames = Some (Some (r, message', as, closed, es', left))" "\<not> too_large r"
  shows "\<exists>self' sh' bs. receive env x self sh message = Some (r, self', sh', message') \<and> answers_on_wire mode as bs \<and>
    recv_ext es' inp outp c mode limit d self' sh' (concat (map frame_wire left) @ rest) (out @ bs) closed"
  using receive_ext [OF assms(1-4)] left_over_rest [OF assms(5)] unfolding option.case prod.case by metis

lemma receive_ext_one:
  assumes "env_ok env inp outp" "frame_ok c g" "recv_ext es inp outp c mode limit d self sh (frame_wire g @ rest) out False"
    and "ext_receive x limit (length message) None 0 message es [g] = Some (Some (r, message', as, closed, es', []))" "\<not> too_large r"
  shows "\<exists>self' sh' bs. receive env x self sh message = Some (r, self', sh', message') \<and> answers_on_wire mode as bs \<and>
    recv_ext es' inp outp c mode limit d self' sh' rest (out @ bs) closed"
  using receive_ext_rest [OF assms(1) _ _ assms(4,5), where c = c and self = self and sh = sh and rest = rest and mode = mode and d = d and out = out]
    assms(2,3) by simp

text \<open>A ping at the head of the stream is answered, and \<open>receive\<close> goes on as if it was called then.\<close>

lemma receive_ext_ping:
  assumes env: "env_ok env inp outp" and f: "frame_ok c f" "h_opcode (fst f) = OpCode.Ping"
    and at: "recv_ext es inp outp c mode limit d self sh (frame_wire f @ rest) out False"
  shows "\<exists>self' sh' bs. receive env x self sh message = receive env x self' sh' message \<and>
    answers_on_wire mode [(OpCode.Pong, snd f)] bs \<and> recv_ext es inp outp c mode limit d self' sh' rest (out @ bs) False"
proof -
  let ?st = "\<lparr>l_first_fragment_opcode = None, l_length = 0, l_self = self, l_shared = sh, l_message = message\<rparr>"
  have "loop_in (in_states es) inp outp c mode limit d 0 ?st None 0 message (frame_wire f @ rest) out"
    using at by (simp add: loop_in_def)
  from frame_ext [OF env f(1) this, of x "length message"] f(2) obtain st' bs where
    st': "receive_body env x (length message) ?st = Some (Again st')" "answers_on_wire mode [(OpCode.Pong, snd f)] bs"
      "loop_in (in_states es) inp outp c mode limit d 0 st' None 0 message rest (out @ bs)"
    unfolding step_ext_def step_in_def ext_frame_def spec_control_def by auto
  then have "st' = \<lparr>l_first_fragment_opcode = None, l_length = 0, l_self = l_self st', l_shared = l_shared st', l_message = message\<rparr>"
    by (simp add: loop_in_def)
  then have "receive env x self sh message = receive env x (l_self st') (l_shared st') message"
    using receive_loop_Again [OF st'(1)] by (simp add: receive_def)
  then show ?thesis using st' by (auto simp: loop_in_def)
qed

section \<open>Fragments\<close>

text \<open>Fragments in the middle of a message, and pings, do not reach the extensions.\<close>

lemma ext_middle:
  assumes "list_all middle_frame fs" "list_all (frame_ok c) fs" "unat len + length (fragments fs) \<le> unat limit"
  shows "\<exists>len'. unat len' = unat len + length (fragments fs) \<and>
    ext_receive x limit mlen (Some oc) len msg es (fs @ rest) =
     ext_answered (map (Pair OpCode.Pong) (pings fs))
       (ext_receive x limit mlen (Some oc) len' (msg @ fragments fs) es rest)"
  using assms
proof (induction fs arbitrary: len msg)
  case Nil
  then show ?case by auto
next
  case (Cons f fs)
  show ?case
  proof (cases "h_opcode (fst f) = OpCode.Ping")
    case True
    then have "ext_frame x limit mlen (Some oc) len msg es f = (Some (Cont (Some oc) len msg [(OpCode.Pong, snd f)]), es)"
      by (simp add: ext_frame_def spec_control_def)
    then show ?thesis using Cons.IH [of len msg] Cons.prems True by auto
  next
    case False
    let ?len = "saturating_add len (h_payload_len (fst f))"
    have l: "unat ?len = unat len + length (snd f)"
      using Cons.prems False unsigned_less [of limit, where ?'a = nat] by (simp add: unat_saturating_add frame_ok_def)
    then have "ext_frame x limit mlen (Some oc) len msg es f = (Some (Cont (Some oc) ?len (msg @ snd f) []), es)"
      using Cons.prems False by (simp add: middle_frame_def ext_frame_def ext_data_def ext_dispatch_def Let_def word_less_nat_alt)
    moreover obtain len' where "unat len' = unat ?len + length (fragments fs)"
      "ext_receive x limit mlen (Some oc) ?len (msg @ snd f) es (fs @ rest) =
       ext_answered (map (Pair OpCode.Pong) (pings fs)) (ext_receive x limit mlen (Some oc) len' ((msg @ snd f) @ fragments fs) es rest)"
      using Cons.IH [of ?len "msg @ snd f"] Cons.prems False l by auto
    ultimately show ?thesis using False l by (intro exI [of _ len']) simp
  qed
qed

text \<open>
  C21. Refinement with extensions: on any stream of well-formed frames, \<open>receive\<close> on a connection with extensions, whatever
  they are, computes the specification in which the extensions decode the message buffer at its first and at its last
  frame. It panics exactly where the specification does: when the decoded buffer is shorter than the buffer was when
  \<open>receive\<close> was called.
\<close>

theorem receive_refines_extended:
  assumes "env_ok env inp outp" "list_all (frame_ok c) frames"
    and "recv_ext es inp outp c mode limit d self sh (concat (map frame_wire frames) @ rest) out False"
    and "ext_receive x limit (length message) None 0 message es frames = Some res"
  shows "case res of
      None \<Rightarrow> receive env x self sh message = None
    | Some (r, message', as, closed, es', left) \<Rightarrow>
        \<exists>self' sh' bs stream' read_frames f. receive env x self sh message = Some (r, self', sh', message') \<and> answers_on_wire mode as bs \<and>
          recv_ext es' inp outp c mode limit d self' sh' stream' (out @ bs) closed \<and> frames = read_frames @ f # left \<and>
          left_over d r (apply_mask (fst f) (snd f)) (concat (map frame_wire left) @ rest) stream'"
  by (rule receive_ext [OF assms])

end
