(* ===== verification/Compressed_Receive.thy ===== *)
theory Compressed_Receive
  imports Extended_Receive Deflate_Props
begin

text \<open>
  Receiving with compression: what \<open>receive\<close> makes of compressed messages, in one frame and in fragments.
\<close>

section \<open>Compressed messages\<close>

lemma spec_decode_deflate:
  "spec_decode (deflate_extension f) [dd] h msg =
     (case deflate_decode f dd h msg of
        (Inl e, dd, h, msg) \<Rightarrow> (Inl (conn_Error.Extension e), [dd], msg)
      | (Inr _, dd, h, msg) \<Rightarrow> (Inr h, [dd], msg))"
  by (simp add: spec_decode_def deflate_extension_def split: prod.split sum.split)

lemma deflate_decode_keeps_ok: "deflate_decode f dd h msg = (r, dd', h', msg') \<Longrightarrow> deflate_ok dd \<Longrightarrow> deflate_ok dd'"
  using decode_keeps [of f dd h msg] by (simp add: deflate_ok_def)

lemma decode_whole_await:
  "deflate_decode f dd h msg = (r, dd', h', msg') \<Longrightarrow> h_fin h \<Longrightarrow> \<not> d_await_last_fragment dd \<longrightarrow> \<not> d_await_last_fragment dd'"
  by (auto simp: deflate_decode_def decompress_def Let_def model_defs split: if_splits prod.splits sum.splits)

text \<open>A frame that is a whole message, compressed or not.\<close>

lemma ext_whole:
  assumes f: "frame_ok c g" "h_fin (fst g)" "h_opcode (fst g) \<in> {OpCode.Text, OpCode.Binary}" "length (snd g) \<le> unat limit"
    and i: "h_rsv1 (fst g) \<and> msg @ snd g \<noteq> [] \<Longrightarrow> inflate f ((msg @ snd g) @ end_marker) = (Inr (), data)"
      "\<not> (h_rsv1 (fst g) \<and> msg @ snd g \<noteq> []) \<Longrightarrow> data = msg @ snd g" and ok: "deflate_ok dd"
  shows "\<exists>dd'. deflate_ok dd' \<and> (\<not> d_await_last_fragment dd \<longrightarrow> \<not> d_await_last_fragment dd') \<and> ext_receive (deflate_extension f) limit (length msg) None 0 msg [dd] (g # gs) =
    Some (if length data < length msg then None
      else Some (data_result (h_opcode (fst g)) (length data - length msg), data, [], False, [dd'], gs))"
proof -
  have lim: "\<not> saturating_add 0 (h_payload_len (fst g)) > limit"
    using f(1,4) by (simp add: frame_ok_def word_less_nat_alt)
  obtain dd' h' where d: "deflate_decode f dd (fst g) (msg @ snd g) = (Inr (), dd', h', data)" "h_opcode h' = h_opcode (fst g)"
  proof (cases "h_rsv1 (fst g) \<and> msg @ snd g \<noteq> []")
    case True
    then show ?thesis
      using that deflate_decode_ok [of "msg @ snd g" "fst g" f data dd] i(1) f(2,3) by (auto simp: model_defs)
  next
    case False
    then have "deflate_decode f dd (fst g) (msg @ snd g) = (Inr (), dd, fst g, msg @ snd g)"
      using f(3) by (auto simp: deflate_decode_def model_defs)
    then show ?thesis using that i(2) False by simp
  qed
  have "ext_frame (deflate_extension f) limit (length msg) None 0 msg [dd] g = (spec_deliver (length msg) (h_opcode (fst g)) data, [dd'])"
    using f(2,3) lim d by (auto simp: ext_frame_def ext_data_def ext_dispatch_def spec_decode_deflate)
  then show ?thesis using deflate_decode_keeps_ok [OF d(1) ok] decode_whole_await [OF d(1) f(2)]
    by (intro exI [of _ dd']) (simp add: spec_deliver_def spec_message_def data_result_def)
qed

lemma ext_fragmented:
  assumes fr: "list_all (frame_ok c) (first # fs @ [final])" "list_all middle_frame fs" "\<not> h_fin (fst first)"
      "h_opcode (fst first) \<in> {OpCode.Text, OpCode.Binary}" "h_fin (fst final)" "h_opcode (fst final) = OpCode.Continue"
    and lim: "length (snd first @ fragments fs @ snd final) \<le> unat limit"
    and i: "h_rsv1 (fst first) \<and> snd first \<noteq> [] \<Longrightarrow> inflate f ((snd first @ fragments fs @ snd final) @ end_marker) = (Inr (), data)" and aw: "\<not> d_await_last_fragment dd"
    and result: "result = (if h_rsv1 (fst first) \<and> snd first \<noteq> [] then data else snd first @ fragments fs @ snd final)"
  shows "\<exists>dd'. \<not> d_await_last_fragment dd' \<and> (deflate_ok dd \<longrightarrow> deflate_ok dd') \<and>
    ext_receive (deflate_extension f) limit 0 None 0 [] [dd] (first # fs @ final # left) =
      Some (Some (data_result (h_opcode (fst first)) (length result), result, map (Pair OpCode.Pong) (pings fs), False, [dd'], left))"
proof -
  let ?x = "deflate_extension f" and ?len = "saturating_add 0 (h_payload_len (fst first))" and ?oc = "h_opcode (fst first)"
  let ?dd = "if h_rsv1 (fst first) \<and> snd first \<noteq> [] then dd\<lparr>d_await_last_fragment := True\<rparr> else dd" and ?all = "snd first @ fragments fs @ snd final"
  have l64: "unat limit < 2 ^ 64" using unsigned_less [of limit, where ?'a = nat] by simp
  have l: "unat ?len = length (snd first)" using fr lim l64 by (simp add: unat_saturating_add frame_ok_def)
  have f1: "ext_frame ?x limit 0 None 0 [] [dd] first = (Some (Cont (Some ?oc) ?len (snd first) []), [?dd])"
    using fr(3,4) lim l by (cases first) (auto simp: ext_frame_def ext_data_def ext_dispatch_def spec_decode_deflate deflate_decode_def model_defs Let_def word_less_nat_alt)
  obtain len' where len': "unat len' = unat ?len + length (fragments fs)"
    "ext_receive ?x limit 0 (Some ?oc) ?len (snd first) [?dd] (fs @ final # left) =
     ext_answered (map (Pair OpCode.Pong) (pings fs)) (ext_receive ?x limit 0 (Some ?oc) len' (snd first @ fragments fs) [?dd] (final # left))"
    using ext_middle [OF fr(2), of c ?len limit] fr(1) lim l by fastforce
  have n: "\<not> saturating_add len' (h_payload_len (fst final)) > limit"
    using fr(1) l l64 lim len'(1) by (simp add: unat_saturating_add frame_ok_def word_less_nat_alt)
  have "\<exists>dd' h'. deflate_decode f ?dd ((fst final)\<lparr>h_payload_len := of_nat (length ?all)\<rparr>) ?all = (Inr (), dd', h', result) \<and>
      \<not> d_await_last_fragment dd' \<and> (deflate_ok dd \<longrightarrow> deflate_ok dd')"
    using fr(5,6) i aw result by (auto simp: deflate_decode_def decompress_def model_defs Let_def deflate_ok_def)
  then obtain dd' where "ext_frame ?x limit 0 (Some ?oc) len' (snd first @ fragments fs) [?dd] final = (spec_deliver 0 ?oc result, [dd'])"
      "\<not> d_await_last_fragment dd'" "deflate_ok dd \<longrightarrow> deflate_ok dd'"
    using fr(5,6) n by (auto simp: ext_frame_def ext_data_def ext_dispatch_def spec_decode_deflate Let_def)
  then show ?thesis using f1 len'(2)
    by (intro exI [of _ dd']) (simp add: spec_deliver_def spec_message_def data_result_def)
qed

text \<open>
  A message in one frame or in fragments: its first frame and the other frames, among them pings; and its data, which for a compressed
  message is what it decompresses to. Compressed messages whose first frame is empty are left out here: they are not
  decompressed, as shown below.
\<close>

definition message_frames :: "frame \<Rightarrow> frame list \<Rightarrow> bool" where
  "message_frames first others \<longleftrightarrow> h_opcode (fst first) \<in> {OpCode.Text, OpCode.Binary} \<and>
     (if others = [] then h_fin (fst first)
      else \<not> h_fin (fst first) \<and> list_all middle_frame (butlast others) \<and>
        h_fin (fst (List.last others)) \<and> h_opcode (fst (List.last others)) = OpCode.Continue)"

definition message_data :: "'z Flate \<Rightarrow> frame \<Rightarrow> frame list \<Rightarrow> bytes \<Rightarrow> bool" where
  "message_data f first others data \<longleftrightarrow>
     (if h_rsv1 (fst first) then snd first \<noteq> [] \<and> inflate f ((snd first @ fragments others) @ end_marker) = (Inr (), data)
      else data = snd first @ fragments others)"

lemma ext_message:
  assumes fr: "list_all (frame_ok c) (first # others)" "message_frames first others" "length (snd first @ fragments others) \<le> unat limit"
    and data: "message_data f first others data" and dd: "deflate_ok dd" "\<not> d_await_last_fragment dd"
  shows "\<exists>dd'. deflate_ok dd' \<and> \<not> d_await_last_fragment dd' \<and>
    ext_receive (deflate_extension f) limit 0 None 0 [] [dd] (first # others @ left) =
      Some (Some (data_result (h_opcode (fst first)) (length data), data, map (Pair OpCode.Pong) (pings others), False, [dd'], left))"
proof (cases others rule: rev_cases)
  case Nil
  have g: "frame_ok c first" "h_fin (fst first)" "h_opcode (fst first) \<in> {OpCode.Text, OpCode.Binary}" "length (snd first) \<le> unat limit"
    using fr Nil by (simp_all add: message_frames_def)
  have i: "h_rsv1 (fst first) \<and> [] @ snd first \<noteq> [] \<Longrightarrow> inflate f (([] @ snd first) @ end_marker) = (Inr (), data)"
    "\<not> (h_rsv1 (fst first) \<and> [] @ snd first \<noteq> []) \<Longrightarrow> data = [] @ snd first"
    using data Nil by (auto simp: message_data_def)
  from ext_whole [OF g i dd(1), of left] show ?thesis using dd(2) Nil by (auto simp del: ext_receive.simps)
next
  case (snoc fs final)
  have p: "fragments (fs @ [final]) = fragments fs @ snd final" "pings (fs @ [final]) = pings fs"
    using fr(2) snoc by (auto simp: message_frames_def fragments_def pings_def)
  have g: "list_all (frame_ok c) (first # fs @ [final])" "list_all middle_frame fs" "\<not> h_fin (fst first)"
    "h_opcode (fst first) \<in> {OpCode.Text, OpCode.Binary}" "h_fin (fst final)" "h_opcode (fst final) = OpCode.Continue"
    "length (snd first @ fragments fs @ snd final) \<le> unat limit"
    using fr snoc p by (simp_all add: message_frames_def)
  have i: "h_rsv1 (fst first) \<and> snd first \<noteq> [] \<Longrightarrow> inflate f ((snd first @ fragments fs @ snd final) @ end_marker) = (Inr (), data)"
    "data = (if h_rsv1 (fst first) \<and> snd first \<noteq> [] then data else snd first @ fragments fs @ snd final)"
    using data snoc p by (auto simp: message_data_def)
  from ext_fragmented [OF g i(1) dd(2) i(2), of left] show ?thesis using dd(1) snoc p by (auto simp del: ext_receive.simps)
qed

text \<open>
  C22. Fragments of compressed messages: a fragmented compressed message, with pings between its frames, is delivered
  decompressed, and the pings are answered. But if its first frame has no payload, the extension does not note that the
  message is compressed, and the compressed bytes are delivered as the message.
\<close>

theorem receive_compressed_fragments:
  assumes "env_ok env inp outp" "list_all (frame_ok c) (first # fs @ [final])" "list_all middle_frame fs" "\<not> h_fin (fst first)"
    and "h_opcode (fst first) \<in> {OpCode.Text, OpCode.Binary}" "h_rsv1 (fst first)" "h_fin (fst final)" "h_opcode (fst final) = OpCode.Continue"
    and "length (snd first @ fragments fs @ snd final) \<le> unat limit"
    and "inflate f ((snd first @ fragments fs @ snd final) @ end_marker) = (Inr (), data)" "\<not> d_await_last_fragment dd"
    and "recv_ext [dd] inp outp c mode limit d self sh (concat (map frame_wire (first # fs @ [final])) @ rest) out False"
  shows "\<exists>self' sh' bs dd'. receive env (deflate_extension f) self sh [] =
      Some (if snd first = []
        then (data_result (h_opcode (fst first)) (length (fragments fs @ snd final)), self', sh', fragments fs @ snd final)
        else (data_result (h_opcode (fst first)) (length data), self', sh', data)) \<and>
    answers_on_wire mode (map (Pair OpCode.Pong) (pings fs)) bs \<and>
    recv_ext [dd'] inp outp c mode limit d self' sh' rest (out @ bs) False \<and> \<not> d_await_last_fragment dd'"
proof -
  let ?r = "if snd first = [] then fragments fs @ snd final else data"
  obtain dd' where d: "\<not> d_await_last_fragment dd'" "ext_receive (deflate_extension f) limit (length ([] :: bytes)) None 0 [] [dd] (first # fs @ [final]) =
      Some (Some (data_result (h_opcode (fst first)) (length ?r), ?r, map (Pair OpCode.Pong) (pings fs), False, [dd'], []))"
    using ext_fragmented [OF assms(2-5,7-9) _ assms(11) refl, of f data "[]"] assms(6,10) by auto
  have "\<not> too_large (data_result (h_opcode (fst first)) (length ?r))" by (simp add: data_result_def)
  from receive_ext_rest [OF assms(1,2,12) d(2) this] obtain self' sh' bs where
    "receive env (deflate_extension f) self sh [] = Some (data_result (h_opcode (fst first)) (length ?r), self', sh', ?r)"
    "answers_on_wire mode (map (Pair OpCode.Pong) (pings fs)) bs" "recv_ext [dd'] inp outp c mode limit d self' sh' rest (out @ bs) False" by auto
  then show ?thesis using d(1) by (intro exI [of _ self'] exI [of _ sh'] exI [of _ bs] exI [of _ dd']) simp
qed

text \<open>
  C23. What the extension sees: a compressed message is decoded together with whatever the buffer of the caller held before,
  and not alone. When the decompressed bytes are fewer than the caller's were, \<open>receive\<close> panics.
\<close>

theorem receive_decodes_buffer:
  assumes "env_ok env inp outp" "frame_ok c g" "h_fin (fst g)" "h_opcode (fst g) \<in> {OpCode.Text, OpCode.Binary}" "h_rsv1 (fst g)"
    and "length (snd g) \<le> unat limit" "message @ snd g \<noteq> []" "inflate f ((message @ snd g) @ end_marker) = (Inr (), data)" "deflate_ok dd"
    and "recv_ext [dd] inp outp c mode limit d self sh (frame_wire g @ rest) out False"
  shows "if length data < length message then receive env (deflate_extension f) self sh message = None
    else \<exists>self' sh'. receive env (deflate_extension f) self sh message =
      Some (data_result (h_opcode (fst g)) (length data - length message), self', sh', data)"
proof -
  obtain dd' where "ext_receive (deflate_extension f) limit (length message) None 0 message [dd] [g] =
    Some (if length data < length message then None
      else Some (data_result (h_opcode (fst g)) (length data - length message), data, [], False, [dd'], []))"
    using ext_whole [OF assms(2-4,6) _ _ assms(9), where msg = message and f = f and data = data and gs = "[]"] assms(5,7,8) by auto
  from receive_ext [OF assms(1) _ _ this, where c = c and self = self and sh = sh and rest = rest and mode = mode and d = d and out = out] assms(2,10) show ?thesis by (auto split: if_splits)
qed

end
