(* ===== verification/Session_Items.thy ===== *)
theory Session_Items
  imports Echo_Props Compressed_Receive
begin

text \<open>
  The sessions of the example programs: what a well-behaved peer sends, message by message, and what the echo loops answer
  when no compression is in use.
\<close>

section \<open>Items\<close>

text \<open>
  The items of a session: a ping or a pong, or a message, plain or compressed, in one frame or in fragments with pings
  between them, and its data. Messages are within the size limit, and text is UTF-8. The first frame of a compressed message is
  not empty (\<open>message_data\<close>).
\<close>

datatype item = Control frame | Message frame "frame list" bytes

fun item_frames :: "item \<Rightarrow> frame list" where
  "item_frames (Control g) = [g]"
| "item_frames (Message first others data) = first # others"

fun item_ok :: "'z Flate \<Rightarrow> usize \<Rightarrow> item \<Rightarrow> bool" where
  "item_ok f limit (Control g) \<longleftrightarrow> h_opcode (fst g) \<in> {OpCode.Ping, OpCode.Pong}"
| "item_ok f limit (Message first others data) \<longleftrightarrow>
     message_frames first others \<and> message_data f first others data \<and> length (snd first @ fragments others) \<le> unat limit \<and>
     (h_opcode (fst first) = OpCode.Text \<longrightarrow> from_utf8 data = Inr data) \<and> length data < 2 ^ 64"

text \<open>What an echo program answers to an item.\<close>

fun item_answers :: "item \<Rightarrow> answer list" where
  "item_answers (Control g) = (if h_opcode (fst g) = OpCode.Ping then [(OpCode.Pong, snd g)] else [])"
| "item_answers (Message first others data) = map (Pair OpCode.Pong) (pings others) @ [(h_opcode (fst first), data)]"

section \<open>Sessions without compression\<close>

text \<open>A plain message, as the specification of receiving sees it.\<close>

lemma spec_plain_message:
  assumes fr: "list_all (frame_ok c) (first # others)" "message_frames first others" "length (snd first @ fragments others) \<le> unat limit"
  shows "spec_receive limit 0 None 0 [] (first # others @ fs) =
    Some (data_result (h_opcode (fst first)) (length (snd first @ fragments others)), snd first @ fragments others,
      map (Pair OpCode.Pong) (pings others), False, fs)"
proof (cases others rule: rev_cases)
  case Nil
  have "unat (h_payload_len (fst first)) = length (snd first)" using fr(1) by (simp add: frame_ok_def)
  then show ?thesis using fr Nil
    by (auto simp: message_frames_def spec_frame_def spec_data_def spec_message_def data_result_def word_less_nat_alt Let_def)
next
  case (snoc ms final)
  have p: "fragments (ms @ [final]) = fragments ms @ snd final" "pings (ms @ [final]) = pings ms"
    using fr(2) snoc by (auto simp: message_frames_def fragments_def pings_def)
  have "h_opcode (fst first) \<in> {OpCode.Text, OpCode.Binary}" using fr(2) by (simp add: message_frames_def)
  then have "\<not> is_control (h_opcode (fst first))" "h_opcode (fst first) \<noteq> OpCode.Continue" by auto
  then show ?thesis using spec_fragmented [of c first ms final "h_opcode (fst first)" limit "[]" fs] fr snoc p
    by (simp add: message_frames_def del: spec_receive.simps)
qed

lemma spec_echo_item:
  assumes i: "list_all (frame_ok c) (item_frames i)" "item_ok f limit i" and c: "c_reserved_bits c = 0"
  shows "spec_echo strict limit (item_frames i @ fs) = map_option (\<lambda>(r, as). (r, item_answers i @ as)) (spec_echo strict limit fs)"
proof (cases i)
  case (Control g)
  then have "session_frame limit g" "frame_ok c g" "echo_answer g = item_answers i"
    using i by (auto simp: session_frame_def echo_answer_def)
  from spec_echo_session_frame [OF this(1,2), of strict fs] this(3) Control show ?thesis by simp
next
  case (Message first others data)
  have m: "list_all (frame_ok c) (first # others)" "message_frames first others" "length (snd first @ fragments others) \<le> unat limit"
    "h_opcode (fst first) \<in> {OpCode.Text, OpCode.Binary}" "h_opcode (fst first) = OpCode.Text \<longrightarrow> from_utf8 data = Inr data"
    using i Message by (auto simp: message_frames_def)
  have "\<not> h_rsv1 (fst first)" using m(1) c by (auto simp: frame_ok_def wf_header_def)
  then have data: "data = snd first @ fragments others" using i(2) Message by (simp add: message_data_def)
  have "spec_receive_data limit [] (first # others @ fs) =
      Some (Inr (if h_opcode (fst first) = OpCode.Text then Data.Text (length data) else Data.Binary (length data)), data,
        map (Pair OpCode.Pong) (pings others), fs)"
    using spec_plain_message [OF m(1-3), of fs] data by (simp add: spec_receive_data.simps [of limit "[]"] data_result_def del: spec_receive.simps)
  then show ?thesis using m(4,5) Message
    by (auto simp: spec_echo.simps [of strict limit "first # others @ fs"] option.map_comp comp_def case_prod_beta)
qed

lemma spec_echo_items:
  assumes "h_opcode (fst close) = OpCode.Close" "close_answer (snd close) = Inr a" "c_reserved_bits c = 0"
  shows "list_all (frame_ok c) (concat (map item_frames items)) \<Longrightarrow> list_all (item_ok f limit) items \<Longrightarrow>
    spec_echo strict limit (concat (map item_frames items) @ [close]) = Some (Ret (), concat (map item_answers items) @ close_echo (snd close))"
proof (induction items)
  case Nil
  show ?case using spec_echo_close [OF assms(1,2), of strict limit "[]"] by simp
next
  case (Cons i items)
  then show ?case using spec_echo_item [OF _ _ assms(3), of i f limit strict "concat (map item_frames items) @ [close]"] by simp
qed

end
