(* ===== verification/Compressed_Props.thy ===== *)
theory Compressed_Props
  imports Sender_Props Deflate_Props
begin

text \<open>
  Messages over a connection with the deflate extension: what the sender compresses, the receiver of the
  other side decompresses.
\<close>

section \<open>Receiving a data frame, with any extensions\<close>

lemma receive_body_data:
  assumes env: "env_ok env inp outp" and h: "wf_header (r_codec (l_self st)) h" "\<not> is_control (h_opcode h)"
    and len: "unat (h_payload_len h) = length p" "\<not> saturating_add (l_length st) (h_payload_len h) > r_max_message_size (l_self st)"
    and st: "\<not> r_is_closed (l_self st)" "r_buffer (l_self st) @ inp (sh_world (l_shared st)) = frame_wire (h, p) @ rest"
  obtains self' sh' where "receive_body env x mlen st = dispatch x mlen (st\<lparr>l_length := saturating_add (l_length st) (h_payload_len h),
      l_self := self', l_shared := sh', l_message := l_message st @ p\<rparr>) h"
    "r_has_extensions self' = r_has_extensions (l_self st)" "sh_extensions sh' = sh_extensions (l_shared st)"
    "r_buffer self' @ inp (sh_world sh') = rest" "outp (sh_world sh') = outp (sh_world (l_shared st))"
proof -
  let ?w = "sh_world (l_shared st)" and ?self = "l_self st"
  have "r_buffer ?self @ inp ?w = header_bytes h @ apply_mask h p @ rest" using st(2) by (simp add: frame_wire_def)
  from receive_header_ok [OF env h(1) this] obtain buffer1 w1 where r: "receive_header env (r_codec ?self) (r_buffer ?self) ?w = (Inr h, buffer1, w1)"
    "buffer1 @ inp w1 = apply_mask h p @ rest" "outp w1 = outp ?w" by blast
  from read_payload_ok [OF env len(1) r(2)] obtain buffer2 w2 where
    p: "read_payload env h (l_message st) buffer1 w1 = (Inr (), l_message st @ p, buffer2, w2)" "buffer2 @ inp w2 = rest" "outp w2 = outp w1"
    by blast
  let ?self' = "?self\<lparr>r_ctrl_buffer := [], r_buffer := buffer2\<rparr>" and ?sh' = "(l_shared st)\<lparr>sh_world := w2\<rparr>"
  have "receive_body env x mlen st = dispatch x mlen (st\<lparr>l_length := saturating_add (l_length st) (h_payload_len h),
      l_self := ?self', l_shared := ?sh', l_message := l_message st @ p\<rparr>) h"
    using st(1) h(2) r(1) p(1) len(2) by (simp add: receive_body_def receive_data_frame_def Let_def model_defs)
  then show ?thesis by (rule that) (use p(2,3) r(3) in simp_all)
qed

section \<open>Compressed messages\<close>

lemma dispatch_deflate:
  assumes "l_first_fragment_opcode st = None" "h_fin h" "h_opcode h \<in> {OpCode.Text, OpCode.Binary}" "h_rsv1 h"
    and "r_has_extensions (l_self st)" "sh_extensions (l_shared st) = [d]" "l_message st = payload" "payload \<noteq> []"
    and "inflate f (payload @ end_marker) = (Inr (), data)"
  shows "\<exists>d'. dispatch (deflate_extension f) 0 st h =
    Some (Return (data_result (h_opcode h) (length data), l_self st, (l_shared st)\<lparr>sh_extensions := [d']\<rparr>, data))"
proof -
  have "\<exists>d'. deflate_decode f d h payload = (Inr (), d', set_payload_len (set_rsv1 h False) (of_nat (length data)), data)"
    using deflate_decode_ok [OF assms(8) _ _ _ assms(9), of h d] assms(2-4) by (auto simp: model_defs)
  then obtain d' where d': "ext_decode (deflate_extension f) d h payload =
      (Inr (), d', set_payload_len (set_rsv1 h False) (of_nat (length data)), data)"
    by (auto simp: deflate_extension_def)
  then show ?thesis
    using assms by (intro exI [of _ d'])
      (auto simp: dispatch_def decode_step_def decode_with_extensions_def deliver_def data_result_def Let_def model_defs)
qed

lemma receive_compressed:
  assumes env: "env_ok env inp outp" and wf: "wf_header (r_codec self) h" "h_fin h" "h_opcode h \<in> {OpCode.Text, OpCode.Binary}" "h_rsv1 h"
    and len: "unat (h_payload_len h) = length payload" "length payload \<le> unat (r_max_message_size self)"
    and st: "\<not> r_is_closed self" "r_has_extensions self" "sh_extensions sh = [d]"
      "r_buffer self @ inp (sh_world sh) = frame_wire (h, payload) @ rest"
    and z: "payload \<noteq> []" "inflate f (payload @ end_marker) = (Inr (), data)"
  shows "\<exists>self' sh'. receive env (deflate_extension f) self sh [] = Some (data_result (h_opcode h) (length data), self', sh', data) \<and>
    r_buffer self' @ inp (sh_world sh') = rest \<and> outp (sh_world sh') = outp (sh_world sh)"
proof -
  let ?x = "deflate_extension f"
  let ?st = "\<lparr>l_first_fragment_opcode = None, l_length = 0, l_self = self, l_shared = sh, l_message = []\<rparr>"
  have nc: "\<not> is_control (h_opcode h)" using wf(3) by auto
  have lim: "\<not> saturating_add (l_length ?st) (h_payload_len h) > r_max_message_size (l_self ?st)"
    using len by (simp add: word_less_nat_alt)
  obtain self' sh' where b: "receive_body env ?x 0 ?st = dispatch ?x 0 (?st\<lparr>l_length := saturating_add (l_length ?st) (h_payload_len h),
      l_self := self', l_shared := sh', l_message := l_message ?st @ payload\<rparr>) h"
    "r_has_extensions self' = r_has_extensions (l_self ?st)" "sh_extensions sh' = sh_extensions (l_shared ?st)"
    "r_buffer self' @ inp (sh_world sh') = rest" "outp (sh_world sh') = outp (sh_world (l_shared ?st))"
    by (rule receive_body_data [OF env _ nc len(1) lim, where rest = rest and x = ?x and mlen = 0]) (use wf(1) st(1,4) in simp_all)
  from dispatch_deflate [of "?st\<lparr>l_length := saturating_add (l_length ?st) (h_payload_len h),
      l_self := self', l_shared := sh', l_message := l_message ?st @ payload\<rparr>" h d payload f data] wf(2-4) b(2,3) st(2,3) z
  obtain d' where "receive_body env ?x 0 ?st =
      Some (Return (data_result (h_opcode h) (length data), self', sh'\<lparr>sh_extensions := [d']\<rparr>, data))"
    unfolding b(1) by auto
  from receive_loop_Return [OF this] show ?thesis using b(4,5) by (auto simp: receive_def)
qed

definition compressed_header :: "Mode \<Rightarrow> u32 \<Rightarrow> OpCode \<Rightarrow> bytes \<Rightarrow> Header" where
  "compressed_header mode m oc payload = sent_header mode m ((header_new oc)\<lparr>h_rsv1 := True, h_payload_len := of_nat (length payload)\<rparr>) payload"

lemma compressed_header_simps [simp]:
  "h_opcode (compressed_header mode m oc payload) = oc" "h_fin (compressed_header mode m oc payload)"
  "h_rsv1 (compressed_header mode m oc payload)" "h_payload_len (compressed_header mode m oc payload) = of_nat (length payload)"
  by (simp_all add: compressed_header_def sent_header_def header_new_def)

lemma compressed_header_wf:
  assumes "oc \<in> {OpCode.Text, OpCode.Binary}" "length payload \<le> unat (c_max_data_size c)" "c_reserved_bits c AND 4 \<noteq> 0"
  shows "wf_header c (compressed_header mode m oc payload)"
  using assms unat_of_nat_le [OF assms(2)]
  by (auto simp: compressed_header_def sent_header_def header_new_def wf_header_def word_le_nat_alt)

lemma send_compressed:
  assumes snk: "sink_ok env inp outp" and s: "codec_ok (s_codec self)" "s_mode self = mode" "s_has_extensions self" "sh_extensions sh = [d]"
    and enc: "deflate_encode f d (header_new oc) data =
      Some (Inr (), d', set_payload_len (set_rsv1 (header_new oc) True) (of_nat (length payload)), Owned payload)"
  shows "\<exists>m self' sh'. send_frame env (deflate_extension f) self sh (header_new oc) data = Some (Inr (), self', sh') \<and>
    outp (sh_world sh') = outp (sh_world sh) @ frame_wire (compressed_header mode m oc payload, payload)"
proof -
  let ?h = "(header_new oc)\<lparr>h_rsv1 := True, h_payload_len := of_nat (length payload)\<rparr>"
  from write_frame_ok [OF snk s(1), of "s_mode self" "sh_world sh" ?h "Owned payload" "s_mask_buffer self"]
  obtain m buf w' h' data' mb' where w: "write_frame env (s_mode self) (s_codec self) (sh_world sh) ?h (Owned payload) (s_mask_buffer self) =
       Some (Inr (), (s_codec self)\<lparr>c_header_buffer := buf\<rparr>, w', h', data', mb')"
    "h' = sent_header (s_mode self) m ?h payload" "outp w' = outp (sh_world sh) @ header_bytes h' @ apply_mask h' payload" by auto
  have "encode_with_extensions (deflate_extension f) [d] (header_new oc) data = Some (Inr (), [d'], ?h, Owned payload)"
    using enc by (simp add: deflate_extension_def model_defs)
  then show ?thesis using w s(2-4)
    by (intro exI [of _ m]) (auto simp: send_frame_def sender_write_def frame_wire_def compressed_header_def Let_def)
qed


definition deflate_shared :: "Mode \<Rightarrow> bytes \<Rightarrow> (Mem, Deflate) Shared" where
  "deflate_shared mode bs = \<lparr>sh_world = \<lparr>mem_in = bs, mem_out = [], mem_key = 0\<rparr>, sh_extensions = [deflate_new mode]\<rparr>"

definition deflate_sender :: Sender where
  "deflate_sender = (example_sender Client)\<lparr>s_has_extensions := True\<rparr>"

definition deflate_receiver :: Receiver where
  "deflate_receiver = (example_receiver 10)\<lparr>r_has_extensions := True, r_codec := add_reserved_bits codec_new (True, False, False)\<rparr>"


end
