(* ===== verification/Compressed_Session.thy ===== *)
theory Compressed_Session
  imports Session_Items Compressed_Props
begin

text \<open>
  Sessions of the echo programs over connections with compression.
\<close>

section \<open>Compressed sessions\<close>

text \<open>
  A message on the wire: an empty plain frame for an empty message, and otherwise one compressed frame. Its payload decompresses to the
  message, or is the compressor's output for the message cut at an occurrence of the marker before its end.
\<close>

definition message_on_wire :: "'z Flate \<Rightarrow> 'z view \<Rightarrow> Mode \<Rightarrow> OpCode \<Rightarrow> bytes \<Rightarrow> bytes \<Rightarrow> bool" where
  "message_on_wire f v mode oc data bs \<longleftrightarrow>
     (if data = [] then answers_on_wire mode [(oc, [])] bs
      else \<exists>m payload. bs = frame_wire (compressed_header mode m oc payload, payload) \<and>
        (inflates f payload data \<or> cut_short f v data payload))"

text \<open>What an echo program writes for an item.\<close>

fun echoed :: "'z Flate \<Rightarrow> 'z view \<Rightarrow> Mode \<Rightarrow> item \<Rightarrow> bytes \<Rightarrow> bool" where
  "echoed f v mode (Control g) bs \<longleftrightarrow> answers_on_wire mode (item_answers (Control g)) bs"
| "echoed f v mode (Message first others data) bs \<longleftrightarrow>
     (\<exists>b1 b2. bs = b1 @ b2 \<and> answers_on_wire mode (map (Pair OpCode.Pong) (pings others)) b1 \<and>
        message_on_wire f v mode (h_opcode (fst first)) data b2)"

text \<open>A deflate extension between two messages.\<close>

definition ready :: "Deflate \<Rightarrow> bool" where
  "ready d \<longleftrightarrow> deflate_ok d \<and> \<not> d_await_last_fragment d"

lemma encode_ready: "deflate_encode f d h data = Some (r, d', h', data') \<Longrightarrow> ready d \<Longrightarrow> ready d'"
proof (frule encode_keeps, erule deflate_encode_cases)
  fix c
  assume "(r, d', h', data') = store_compressed f d h data c" "ready d"
    "d_our_max_window_bits d' = d_our_max_window_bits d \<and> d_their_max_window_bits d' = d_their_max_window_bits d"
  then show "ready d'"
    by (auto simp: ready_def deflate_ok_def store_compressed_def replace_payload_def split: if_splits prod.splits sum.splits Storage.splits)
qed (auto simp: ready_def deflate_ok_def)

lemma set_their_await: "set_their_max_window_bits d p x = (r, d') \<Longrightarrow> d_await_last_fragment d' = d_await_last_fragment d"
  by (auto simp: set_their_max_window_bits_def split: option.splits if_splits)

lemma configure_server_await: "configure_server d ps = (r, d') \<Longrightarrow> d_await_last_fragment d' = d_await_last_fragment d"
proof (induction ps arbitrary: d)
  case (Cons p ps)
  then show ?case
    by (fastforce simp: set_their_await split: if_splits sum.splits option.splits prod.splits)
qed simp

lemma configure_client_await: "configure_client d b ps = (r, d') \<Longrightarrow> d_await_last_fragment d' = d_await_last_fragment d"
proof (induction ps arbitrary: d b)
  case (Cons p ps)
  then show ?case
    by (fastforce simp: set_their_await split: if_splits sum.splits option.splits prod.splits)
qed simp

lemma configured_ready:
  assumes "deflate_configure d ps = (r, d')" "ready d"
  shows "ready d'"
  using assms configure_ok [of d ps r d'] configure_server_await [of "d\<lparr>d_params := []\<rparr>" ps] configure_client_await [of d False ps]
  by (auto simp: ready_def deflate_configure_def split: Mode.splits prod.splits bool.splits)

lemma deflate_new_ready: "ready (deflate_new mode)"
  by (simp add: ready_def) (simp add: deflate_new_def)

definition ext_sender :: "Mode \<Rightarrow> Sender \<Rightarrow> bool" where
  "ext_sender mode s \<longleftrightarrow> codec_ok (s_codec s) \<and> s_has_extensions s \<and> s_mode s = mode"

lemma send_message:
  assumes snk: "sink_ok env inp outp" and s: "ext_sender mode s" "sh_extensions sh = [dd]" "ready dd"
    and z: "flate_ok f v" "length (as_ref data) < 2 ^ 64"
    and oc: "oc \<in> {OpCode.Text, OpCode.Binary}"
  shows "\<exists>s' sh' bs dd'. send_frame env (deflate_extension f) s sh (header_new oc) data = Some (Inr (), s', sh') \<and> ext_sender mode s' \<and>
    sh_extensions sh' = [dd'] \<and> ready dd' \<and> message_on_wire f v mode oc (as_ref data) bs \<and>
    outp (sh_world sh') = outp (sh_world sh) @ bs \<and> inp (sh_world sh') = inp (sh_world sh)"
proof -
  have d: "deflate_ok dd" using s(3) by (simp add: ready_def)
  obtain h2 data2 dd' where enc: "deflate_encode f dd (header_new oc) data = Some (Inr (), dd', h2, data2)"
    and w: "\<And>m. message_on_wire f v mode oc (as_ref data) (frame_wire (sent_header mode m h2 (as_ref data2), as_ref data2))"
  proof (cases "as_ref data = []")
    case True
    then show ?thesis using that [of dd "header_new oc" data]
      by (auto simp: deflate_encode_def message_on_wire_def answer_frame_def)
  next
    case False
    have "opcode (header_new oc) \<in> {OpCode.Binary, OpCode.Text}" using oc by (auto simp: header_new_def model_defs)
    from deflate_encode_message [OF z(1) d this False z(2)] obtain dd' payload where
      p: "inflates f payload (as_ref data) \<or> cut_short f v (as_ref data) payload"
      "deflate_encode f dd (header_new oc) data = Some (Inr (), dd', set_payload_len (set_rsv1 (header_new oc) True) (of_nat (length payload)), Owned payload)"
      by metis
    then show ?thesis using that [OF p(2)] False
      by (auto simp: message_on_wire_def compressed_header_def model_defs)
  qed
  have ok': "ready dd'" by (rule encode_ready [OF enc s(3)])
  have s': "codec_ok (s_codec s)" "s_has_extensions s" "s_mode s = mode" using s(1) by (simp_all add: ext_sender_def)
  from write_frame_ok [OF snk s'(1), of mode "sh_world sh" h2 data2 "s_mask_buffer s"] obtain m buf w' h' data' mb' where
    wr: "write_frame env mode (s_codec s) (sh_world sh) h2 data2 (s_mask_buffer s) = Some (Inr (), (s_codec s)\<lparr>c_header_buffer := buf\<rparr>, w', h', data', mb')"
      "length buf = MAX_HEADER_SIZE" "h' = sent_header mode m h2 (as_ref data2)" "outp w' = outp (sh_world sh) @ header_bytes h' @ apply_mask h' (as_ref data2)"
      "inp w' = inp (sh_world sh)" by blast
  have "encode_with_extensions (deflate_extension f) [dd] (header_new oc) data = Some (Inr (), [dd'], h2, data2)"
    using enc by (simp add: deflate_extension_def)
  then show ?thesis using wr s' s(2) ok' w [of m]
    by (auto simp: send_frame_def sender_write_def ext_sender_def codec_ok_def frame_wire_def Let_def)
qed

lemma echo_message:
  assumes "sink_ok env inp outp" "ext_sender mode s" "sh_extensions sh = [dd]" "ready dd"
    and "flate_ok f v" "length data < 2 ^ 64"
  shows "\<exists>s' sh' bs dd'. echo_data env (deflate_extension f) s sh as_text data = Some (Inr (), s', sh') \<and> ext_sender mode s' \<and>
    sh_extensions sh' = [dd'] \<and> ready dd' \<and> message_on_wire f v mode (if as_text then OpCode.Text else OpCode.Binary) data bs \<and>
    outp (sh_world sh') = outp (sh_world sh) @ bs \<and> inp (sh_world sh') = inp (sh_world sh)"
proof -
  let ?x = "deflate_extension f" and ?oc = "if as_text then OpCode.Text else OpCode.Binary" and ?data = "if as_text then Shared data else Unique data"
  have ref: "as_ref ?data = data" and oc: "?oc \<in> {OpCode.Text, OpCode.Binary} \<longleftrightarrow> True" by simp_all
  obtain s1 sh1 bs dd' where p: "send_frame env ?x s sh (header_new ?oc) ?data = Some (Inr (), s1, sh1)" "ext_sender mode s1"
    "sh_extensions sh1 = [dd']" "ready dd'" "message_on_wire f v mode ?oc data bs" "outp (sh_world sh1) = outp (sh_world sh) @ bs"
    "inp (sh_world sh1) = inp (sh_world sh)"
    using send_message [OF assms(1-5), of ?data ?oc, unfolded ref oc] assms(6) by blast
  obtain w where w: "sock_flush env (sh_world sh1) = (Inr (), w)" "outp w = outp (sh_world sh1)" "inp w = inp (sh_world sh1)"
    using assms(1) unfolding sink_ok_def by blast
  have "echo_data env ?x s sh as_text data = Some (Inr (), s1, sh1\<lparr>sh_world := w\<rparr>)"
    using p(1) w(1)
    by (cases as_text) (simp_all add: echo_data_def echo_text_def echo_binary_def send_text_def send_binary_mut_def sender_flush_shared_def sender_flush_def)
  then show ?thesis using p w by (intro exI [of _ s1] exI [of _ "sh1\<lparr>sh_world := w\<rparr>"] exI [of _ bs] exI [of _ dd']) simp
qed

text \<open>One item of a session: the loop goes on behind it, and has answered it.\<close>

definition echo_at where
  "echo_at inp outp c mode limit d s r sh stream out \<longleftrightarrow>
     ext_sender mode s \<and> (\<exists>dd. ready dd \<and> recv_ext [dd] inp outp c mode limit d r sh stream out False)"

lemma echo_loop_cong: "receive_data env x r sh [] = receive_data env x r' sh' [] \<Longrightarrow> echo_loop strict env x s r sh = echo_loop strict env x s r' sh'"
  by (simp only: echo_loop_unfold [of strict env x s r sh] echo_loop_unfold [of strict env x s r' sh'])

lemma echo_control:
  assumes env: "env_ok env inp outp" and g: "frame_ok c g" "h_opcode (fst g) \<in> {OpCode.Ping, OpCode.Pong}"
    and at: "recv_ext [dd] inp outp c mode limit d r sh (frame_wire g @ rest) out False"
  shows "\<exists>r' sh' bs. receive_data env (deflate_extension f) r sh [] = receive_data env (deflate_extension f) r' sh' [] \<and>
    echoed f v mode (Control g) bs \<and> recv_ext [dd] inp outp c mode limit d r' sh' rest (out @ bs) False"
proof (cases "h_opcode (fst g) = OpCode.Ping")
  case True
  from receive_ext_ping [OF env g(1) True at, of "deflate_extension f" "[]"] obtain r' sh' bs where
    "receive env (deflate_extension f) r sh [] = receive env (deflate_extension f) r' sh' []"
    "answers_on_wire mode [(OpCode.Pong, snd g)] bs" "recv_ext [dd] inp outp c mode limit d r' sh' rest (out @ bs) False" by blast
  then show ?thesis using True
    by (intro exI [of _ r'] exI [of _ sh'] exI [of _ bs]) (simp add: receive_data.simps [of _ _ r] receive_data.simps [of _ _ r'])
next
  case False
  then have p: "h_opcode (fst g) = OpCode.Pong" using g(2) by simp
  then have "ext_receive (deflate_extension f) limit (length ([] :: bytes)) None 0 [] [dd] [g] = Some (Some (Inr (Incoming.Pong (snd g)), [], [], False, [dd], []))"
    by (simp add: ext_frame_def spec_control_def)
  from receive_ext_one [OF env g(1) at this] obtain r' sh' where
    "receive env (deflate_extension f) r sh [] = Some (Inr (Incoming.Pong (snd g)), r', sh', [])"
    "recv_ext [dd] inp outp c mode limit d r' sh' rest (out @ []) False" by auto
  then show ?thesis using p
    by (intro exI [of _ r'] exI [of _ sh'] exI [of _ "[]"]) (simp add: receive_data.simps [of _ _ r])
qed

lemma echo_item:
  assumes env: "env_ok env inp outp" and z: "flate_ok f v" and i: "list_all (frame_ok c) (item_frames i)" "item_ok f limit i"
    and at: "echo_at inp outp c mode limit d s r sh (concat (map frame_wire (item_frames i)) @ rest) out"
  shows "\<exists>s' r' sh' bs. echo_loop strict env (deflate_extension f) s r sh = echo_loop strict env (deflate_extension f) s' r' sh' \<and>
    echoed f v mode i bs \<and> echo_at inp outp c mode limit d s' r' sh' rest (out @ bs)"
proof -
  let ?x = "deflate_extension f"
  obtain dd where at': "ext_sender mode s" "ready dd"
    "recv_ext [dd] inp outp c mode limit d r sh (concat (map frame_wire (item_frames i)) @ rest) out False"
    using at by (auto simp: echo_at_def)
  show ?thesis
  proof (cases i)
    case (Control g)
    have "frame_ok c g" "h_opcode (fst g) \<in> {OpCode.Ping, OpCode.Pong}" "recv_ext [dd] inp outp c mode limit d r sh (frame_wire g @ rest) out False"
      using i at'(3) Control by simp_all
    from echo_control [OF env this, of f] echo_loop_cong at'(1,2) show ?thesis unfolding echo_at_def Control by metis
  next
    case (Message first others data)
    have m: "list_all (frame_ok c) (first # others)" "message_frames first others" "length (snd first @ fragments others) \<le> unat limit"
      "message_data f first others data" "h_opcode (fst first) = OpCode.Text \<longrightarrow> from_utf8 data = Inr data"
      "length data < 2 ^ 64"
      using i Message by auto
    have oc: "h_opcode (fst first) \<in> {OpCode.Text, OpCode.Binary}" using m(2) by (simp add: message_frames_def)
    let ?t = "h_opcode (fst first) = OpCode.Text" and ?r = "data_result (h_opcode (fst first)) (length data)"
    obtain dd' where dd': "ready dd'" "ext_receive ?x limit (length ([] :: bytes)) None 0 [] [dd] (first # others) =
        Some (Some (?r, data, map (Pair OpCode.Pong) (pings others), False, [dd'], []))"
      using ext_message [OF m(1-4), of dd "[]"] at'(2) by (auto simp: ready_def simp del: ext_receive.simps)
    have "\<not> too_large ?r" by (simp add: data_result_def)
    from receive_ext_rest [OF env m(1) at'(3) [unfolded Message item_frames.simps] dd'(2) this] obtain r1 sh1 b1 where
      r: "receive env ?x r sh [] = Some (?r, r1, sh1, data)" "answers_on_wire mode (map (Pair OpCode.Pong) (pings others)) b1"
        "recv_ext [dd'] inp outp c mode limit d r1 sh1 rest (out @ b1) False" by auto
    have "sh_extensions sh1 = [dd']" "outp (sh_world sh1) = out @ b1" using r(3) by (simp_all add: recv_in_def)
    from echo_message [OF env_okD(3) [OF env] at'(1) this(1) dd'(1) z m(6), of ?t] this(2) obtain s2 sh2 b2 dd2 where
      e: "echo_data env ?x s sh1 ?t data = Some (Inr (), s2, sh2)" "ext_sender mode s2" "sh_extensions sh2 = [dd2]" "ready dd2"
        "message_on_wire f v mode (if ?t then OpCode.Text else OpCode.Binary) data b2" "outp (sh_world sh2) = (out @ b1) @ b2"
        "inp (sh_world sh2) = inp (sh_world sh1)"
      by metis
    have "receive_data env ?x r sh [] = Some (Inr (if ?t then Data.Text (length data) else Data.Binary (length data)), r1, sh1, data)"
      using r(1) by (simp add: receive_data.simps [of _ _ r] data_result_def)
    then have "echo_loop strict env ?x s r sh = echo_loop strict env ?x s2 r1 sh2"
      using e(1) m(5) by (cases ?t) (auto simp: echo_loop_unfold [of strict env ?x s r sh] split: sum.split)
    moreover have "recv_ext [dd2] inp outp c mode limit d r1 sh2 rest (out @ b1 @ b2) False" using r(3) e(3,6,7) by (simp add: recv_in_def)
    moreover have "message_on_wire f v mode (h_opcode (fst first)) data b2" using e(5) oc by auto
    then have "echoed f v mode i (b1 @ b2)" using r(2) Message by auto
    ultimately show ?thesis using e(2,4) unfolding echo_at_def by blast
  qed
qed

lemma echo_close:
  assumes env: "env_ok env inp outp" and g: "frame_ok c g" "h_opcode (fst g) = OpCode.Close" "close_answer (snd g) = Inr a"
    and at: "echo_at inp outp c mode limit d s r sh (frame_wire g @ rest) out"
  shows "\<exists>s' r' sh' bs. echo_loop strict env (deflate_extension f) s r sh = Some (Ret (), s', r', sh') \<and>
    answers_on_wire mode (close_echo (snd g)) bs \<and> outp (sh_world sh') = out @ bs"
proof -
  let ?x = "deflate_extension f"
  obtain dd where at': "recv_ext [dd] inp outp c mode limit d r sh (frame_wire g @ rest) out False" using at by (auto simp: echo_at_def)
  obtain h reason where a: "a = (h, reason)" by force
  let ?r = "case reason of Some cr \<Rightarrow> Inr (Incoming.Closed cr) | None \<Rightarrow> Inl conn_Error.Closed"
  have "ext_receive ?x limit (length ([] :: bytes)) None 0 [] [dd] [g] = Some (Some (?r, [], close_echo (snd g), True, [dd], []))"
    using g(2,3) a by (cases reason) (simp_all add: ext_frame_def spec_control_def close_echo_def)
  from receive_ext_one [OF env g(1) at' this] obtain r1 sh1 bs where
    k: "receive env ?x r sh [] = Some (?r, r1, sh1, [])" "answers_on_wire mode (close_echo (snd g)) bs"
      "recv_ext [dd] inp outp c mode limit d r1 sh1 rest (out @ bs) True" by (cases reason) auto
  have "receive_data env ?x r1 sh1 [] = Some (Inl conn_Error.Closed, r1, sh1, [])"
    using k(3) by (simp add: receive_data.simps [of _ _ r1] receive_when_closed recv_in_def)
  then have "receive_data env ?x r sh [] = Some (Inl conn_Error.Closed, r1, sh1, [])"
    using k(1) by (cases reason) (simp_all add: receive_data.simps [of _ _ r])
  then have "echo_loop strict env ?x s r sh = Some (Ret (), s, r1, sh1)"
    by (simp add: echo_loop_unfold [of strict env ?x s r sh] error_outcome_def)
  then show ?thesis using k(2,3) by (auto simp: recv_in_def)
qed

lemma echo_session:
  assumes env: "env_ok env inp outp" and z: "flate_ok f v"
    and g: "frame_ok c close" "h_opcode (fst close) = OpCode.Close" "close_answer (snd close) = Inr a"
  shows "list_all (frame_ok c) (concat (map item_frames items)) \<Longrightarrow> list_all (item_ok f limit) items \<Longrightarrow>
    echo_at inp outp c mode limit d s r sh (concat (map frame_wire (concat (map item_frames items) @ [close])) @ rest) out \<Longrightarrow>
    \<exists>s' r' sh' bss bs. echo_loop strict env (deflate_extension f) s r sh = Some (Ret (), s', r', sh') \<and>
      list_all2 (echoed f v mode) items bss \<and> answers_on_wire mode (close_echo (snd close)) bs \<and> outp (sh_world sh') = out @ concat bss @ bs"
proof (induction items arbitrary: s r sh out)
  case Nil
  have "echo_at inp outp c mode limit d s r sh (frame_wire close @ rest) out" using Nil.prems(3) by simp
  from echo_close [OF env g this, of strict f] show ?case by auto
next
  case (Cons i items)
  have "echo_at inp outp c mode limit d s r sh (concat (map frame_wire (item_frames i)) @ concat (map frame_wire (concat (map item_frames items) @ [close])) @ rest) out"
    using Cons.prems(3) by simp
  from echo_item [OF env z _ _ this, of strict] Cons.prems(1,2) obtain s1 r1 sh1 bs1 where
    s: "echo_loop strict env (deflate_extension f) s r sh = echo_loop strict env (deflate_extension f) s1 r1 sh1" "echoed f v mode i bs1"
      "echo_at inp outp c mode limit d s1 r1 sh1 (concat (map frame_wire (concat (map item_frames items) @ [close])) @ rest) (out @ bs1)" by auto
  from Cons.IH [OF _ _ s(3)] Cons.prems(1,2) obtain s' r' sh' bss bs where
    "echo_loop strict env (deflate_extension f) s1 r1 sh1 = Some (Ret (), s', r', sh')" "list_all2 (echoed f v mode) items bss"
    "answers_on_wire mode (close_echo (snd close)) bs" "outp (sh_world sh') = (out @ bs1) @ concat bss @ bs" by auto
  then show ?case using s(1,2)
    by (intro exI [of _ s'] exI [of _ r'] exI [of _ sh'] exI [of _ "bs1 # bss"] exI [of _ bs]) simp
qed

section \<open>The server with compression\<close>

abbreviation deflate_codec where "deflate_codec \<equiv> add_reserved_bits default_codec (True, False, False)"

lemma deflate_connection:
  assumes "sink_ok env inp outp" "d_enabled dd" "ready dd"
    and "finish (add_extensions (deflate_extension f) (set_buffer (builder_new env w mode) buf) [dd]) = (s, r, sh)"
  shows "echo_at inp outp deflate_codec mode MAX_MESSAGE_SIZE (buf = []) s r sh (buf @ inp w) (outp w)"
proof -
  obtain m w1 where m: "random_u32 env w = (m, w1)" by force
  then have "outp w1 = outp w" "inp w1 = inp w" using assms(1) unfolding sink_ok_def by auto
  then show ?thesis using assms(2-)
    by (auto simp: finish_def add_extensions_def add_extension_def builder_new_def m set_buffer_def Let_def codec_ok_def set_max_data_size_def
        codec_new_def deflate_extension_def deflate_reserved_bits_def add_reserved_bits_def ext_sender_def echo_at_def recv_in_def)
qed


end
