(* ===== verification/Client_Session.thy ===== *)
theory Client_Session
  imports Compressed_Session
begin

text \<open>
  The echo client as a whole: it asks for the number of cases, runs them all, and asks for the report, each on a connection
  of its own.
\<close>

section \<open>The network\<close>

text \<open>A network that hands out given sockets, one for each connection.\<close>

fun next_socket :: "'w list \<Rightarrow> (io_Error + 'w) \<times> 'w list" where
  "next_socket [] = (Inl (OtherKind 0), [])"
| "next_socket (w # ws) = (Inr w, ws)"

text \<open>On this socket the server accepts the client's handshake, with the extensions \<open>es\<close>, and then sends \<open>rest\<close>.\<close>

definition accepted :: "'w Libs \<Rightarrow> ('w \<Rightarrow> bytes) \<Rightarrow> 'z Flate \<Rightarrow> Deflate list \<Rightarrow> 'w \<Rightarrow> bytes \<Rightarrow> bool" where
  "accepted lib inp f es w rest \<longleftrightarrow>
     inp w = server_response (deflate_extension f) (base64 lib (sha1 lib (base64 lib (fst (random_16 lib w)) @ KEY))) None es @ rest"

text \<open>The extension of a server that accepts the offer of the client.\<close>

definition accepted_offer :: Deflate where
  "accepted_offer = snd (deflate_configure (deflate_new Server) (d_params (deflate_new Client)))"

text \<open>A test case: its socket, and what the server sends, plain or with compression, up to the close frame.\<close>

datatype session = Plain "item list" frame | Compressed "item list" frame

definition closing :: "frame \<Rightarrow> bool" where
  "closing close \<longleftrightarrow> h_opcode (fst close) = OpCode.Close \<and> (\<exists>answer. close_answer (snd close) = Inr answer)"

text \<open>The frames of a session, and what the peer sends in it, for a connection with the given codec.\<close>

definition session_frames :: "item list \<Rightarrow> frame \<Rightarrow> frame list" where
  "session_frames items close = concat (map item_frames items) @ [close]"

definition session_ok :: "'z Flate \<Rightarrow> Codec \<Rightarrow> item list \<Rightarrow> frame \<Rightarrow> bool" where
  "session_ok f c items close \<longleftrightarrow>
     list_all (frame_ok c) (session_frames items close) \<and> list_all (item_ok f MAX_MESSAGE_SIZE) items \<and> closing close"

fun test_case :: "'w Libs \<Rightarrow> ('w \<Rightarrow> bytes) \<Rightarrow> 'z Flate \<Rightarrow> bool \<Rightarrow> 'w \<times> session \<Rightarrow> bool" where
  "test_case lib inp f deflate (w, Plain items close) \<longleftrightarrow>
     accepted lib inp f [] w (concat (map frame_wire (session_frames items close))) \<and> session_ok f default_codec items close"
| "test_case lib inp f deflate (w, Compressed items close) \<longleftrightarrow> deflate \<and>
     accepted lib inp f [accepted_offer] w (concat (map frame_wire (session_frames items close))) \<and> session_ok f deflate_codec items close"

lemma session_okD:
  assumes "session_ok f c items close"
  obtains answer where "frame_ok c close" "h_opcode (fst close) = OpCode.Close" "close_answer (snd close) = Inr answer"
    "list_all (frame_ok c) (concat (map item_frames items))" "list_all (item_ok f MAX_MESSAGE_SIZE) items" "list_all (frame_ok c) (session_frames items close)"
  using assms by (auto simp: session_ok_def session_frames_def closing_def)

text \<open>What the client has written in the end: its request, all messages, all answers.\<close>

fun session_output :: "'z Flate \<Rightarrow> 'z view \<Rightarrow> Mode \<Rightarrow> session \<Rightarrow> bytes \<Rightarrow> bool" where
  "session_output f v mode (Plain items close) bs \<longleftrightarrow> answers_on_wire mode (concat (map item_answers items) @ close_echo (snd close)) bs"
| "session_output f v mode (Compressed items close) bs \<longleftrightarrow>
     (\<exists>bss b. bs = concat bss @ b \<and> list_all2 (echoed f v mode) items bss \<and> answers_on_wire mode (close_echo (snd close)) b)"

definition case_output :: "'w Libs \<Rightarrow> ('w \<Rightarrow> bytes) \<Rightarrow> 'z Flate \<Rightarrow> 'z view \<Rightarrow> bool \<Rightarrow> nat \<times> 'w \<times> session \<Rightarrow> 'w \<Rightarrow> bool" where
  "case_output lib outp f v deflate = (\<lambda>(i, w, ses) w'.
     \<exists>bs. session_output f v Client ses bs \<and>
       outp w' = outp w @ client_request (deflate_extension f) (case_client deflate w i) (base64 lib (fst (random_16 lib w))) @ bs)"

section \<open>The three kinds of connections\<close>

lemma accepted_offer_agrees:
  obtains client' where "deflate_configure (deflate_new Server) (d_params (deflate_new Client)) = (Inr (), accepted_offer)"
    "deflate_configure (deflate_new Client) (d_params accepted_offer) = (Inr (), client')" "d_enabled accepted_offer" "d_enabled client'"
proof -
  have "window_bits_or None" "offering None None = Some (deflate_new Client)" by (simp_all add: window_bits_or_def offering_def)
  from negotiation_agrees [OF this(1) this(1)] this(2) that show ?thesis by (auto simp: accepted_offer_def)
qed

text \<open>A connection of the client on which the server accepts compression.\<close>

lemma with_accepted_deflate:
  assumes env: "env_ok env inp outp" and lib: "libs_ok lib inp outp" and path: "path \<noteq> []" "list_all path_byte path"
    and n: "random_16 lib socket = (n, w0)"
    and inp: "inp socket = server_response (deflate_extension f) (base64 lib (sha1 lib (base64 lib n @ KEY))) None [accepted_offer] @ rest"
  obtains client s r sh d where "with_accepted lib env (deflate_extension f) (new_client True socket path) k = k client"
    "finish (client_into_builder env (deflate_extension f) client) = (s, r, sh)"
    "echo_at inp outp deflate_codec Client MAX_MESSAGE_SIZE d s r sh rest
       (outp socket @ client_request (deflate_extension f) (new_client True socket path) (base64 lib n))"
proof -
  let ?x = "deflate_extension f" and ?c = "new_client True socket path"
  have c: "client_ok ?x ?c" by (rule new_client_ok [OF path])
  obtain client' where g: "deflate_configure (deflate_new Server) (d_params (deflate_new Client)) = (Inr (), accepted_offer)"
      "deflate_configure (deflate_new Client) (d_params accepted_offer) = (Inr (), client')" "d_enabled accepted_offer" "d_enabled client'"
    by (rule accepted_offer_agrees)
  note ok = deflate_server_params_ok [OF g(1)]
  have en: "filter (ext_is_enabled ?x) [accepted_offer] = [accepted_offer]" using g(3) by (simp add: deflate_extension_def)
  obtain w more where h: "client_handshake lib env ?x ?c = Some (Inr (Accepted None),
      ?c\<lparr>cl_socket := w, cl_nonce := base64 lib n, cl_buffer := more, cl_extensions := [client']\<rparr>)" "more @ inp w = rest"
      "outp w = outp socket @ client_request ?x ?c (base64 lib n)"
    using client_handshake_ok [OF env lib c, of n w0 None "[accepted_offer]" rest "[client']", unfolded en] n inp
      negotiate_deflate [OF ok g(2), of f] deflate_line_ok [OF ok, of f] by (auto simp: asked_for_def)
  let ?c' = "?c\<lparr>cl_socket := w, cl_nonce := base64 lib n, cl_buffer := more, cl_extensions := [client']\<rparr>"
  obtain s r sh where fin: "finish (client_into_builder env ?x ?c') = (s, r, sh)" by (metis prod.collapse)
  have "ready client'" by (rule configured_ready [OF g(2) deflate_new_ready])
  from deflate_connection [OF env_okD(3) [OF env] g(4) this, where w = w and mode = Client and buf = more and s = s and r = r and sh = sh and f = f]
  have "echo_at inp outp deflate_codec Client MAX_MESSAGE_SIZE (more = []) s r sh rest (outp socket @ client_request ?x ?c (base64 lib n))"
    using fin h(2,3) by (auto simp: client_into_builder_def)
  moreover have "with_accepted lib env ?x ?c k = k ?c'" by (simp add: with_accepted_def h(1))
  ultimately show ?thesis using fin by (intro that)
qed

lemma run_case_compressed:
  assumes env: "env_ok env inp outp" and lib: "libs_ok lib inp outp" and z: "flate_ok f v"
    and t: "test_case lib inp f True (w, Compressed items close)"
  shows "\<exists>w'. run_case lib env (deflate_extension f) True i w = Some (Ret (), w') \<and> case_output lib outp f v True (i, w, Compressed items close) w'"
proof -
  let ?x = "deflate_extension f" and ?p = "lit ''/runCase?case='' @ decimal i @ lit ''&agent=soketto-'' @ SOKETTO_VERSION"
  let ?k = "\<lambda>client. case finish (client_into_builder env ?x client) of (sender, receiver, sh) \<Rightarrow>
          map_option (\<lambda>(r, sender, receiver, sh). (r, sh_world sh)) (case_messages env ?x sender receiver sh)"
  let ?fs = "concat (map frame_wire (session_frames items close))" and ?req = "\<lambda>n. client_request ?x (case_client True w i) (base64 lib n)"
  obtain n w0 where n: "random_16 lib w = (n, w0)" by force
  have inp: "inp w = server_response ?x (base64 lib (sha1 lib (base64 lib n @ KEY))) None [accepted_offer] @ ?fs @ []"
    using t n by (simp add: accepted_def)
  have "session_ok f deflate_codec items close" using t by simp
  then obtain answer where fr: "frame_ok deflate_codec close" "h_opcode (fst close) = OpCode.Close" "close_answer (snd close) = Inr answer"
    "list_all (frame_ok deflate_codec) (concat (map item_frames items))" "list_all (item_ok f MAX_MESSAGE_SIZE) items" by (rule session_okD)
  have "?p \<noteq> []" by (simp add: lit_def)
  then obtain client s1 r1 sh1 d where a: "with_accepted lib env ?x (case_client True w i) ?k = ?k client"
    "finish (client_into_builder env ?x client) = (s1, r1, sh1)"
    "echo_at inp outp deflate_codec Client MAX_MESSAGE_SIZE d s1 r1 sh1 (?fs @ []) (outp w @ ?req n)"
    by (rule with_accepted_deflate [OF env lib _ case_path n inp, where k = ?k])
  from echo_session [OF env z fr a(3) [unfolded session_frames_def], of True] obtain s2 r2 sh2 bss bs where
    "case_messages env ?x s1 r1 sh1 = Some (Ret (), s2, r2, sh2)" "list_all2 (echoed f v Client) items bss"
    "answers_on_wire Client (close_echo (snd close)) bs" "outp (sh_world sh2) = (outp w @ ?req n) @ concat bss @ bs"
    by (auto simp: echo_loop_simps)
  then show ?thesis
    using a(1,2) n by (intro exI [of _ "sh_world sh2"]) (auto simp: run_case_def Let_def case_output_def)
qed

lemma run_case_plain:
  assumes env: "env_ok env inp outp" and lib: "libs_ok lib inp outp" and t: "test_case lib inp f deflate (w, Plain items close)"
  shows "\<exists>w'. run_case lib env (deflate_extension f) deflate i w = Some (Ret (), w') \<and> case_output lib outp f v deflate (i, w, Plain items close) w'"
proof -
  obtain n w0 where n: "random_16 lib w = (n, w0)" by force
  have inp: "inp w = server_response (deflate_extension f) (base64 lib (sha1 lib (base64 lib n @ KEY))) None [] @
      concat (map frame_wire (session_frames items close))"
    using t n by (simp add: accepted_def)
  have "session_ok f default_codec items close" using t by simp
  then obtain answer where c: "frame_ok default_codec close" "h_opcode (fst close) = OpCode.Close" "close_answer (snd close) = Inr answer"
    "list_all (frame_ok default_codec) (concat (map item_frames items))" "list_all (item_ok f MAX_MESSAGE_SIZE) items"
    "list_all (frame_ok default_codec) (session_frames items close)" by (rule session_okD)
  have "c_reserved_bits default_codec = 0" by (simp add: codec_new_def set_max_data_size_def)
  from run_case_refines [OF env lib n inp c(6) spec_echo_items [OF c(2,3) this c(4,5), folded session_frames_def], of deflate i]
  show ?thesis using n by (auto simp: case_output_def)
qed

lemma run_case_session:
  assumes "env_ok env inp outp" "libs_ok lib inp outp" "flate_ok f v" "test_case lib inp f deflate (w, ses)"
  shows "\<exists>w'. run_case lib env (deflate_extension f) deflate i w = Some (Ret (), w') \<and> case_output lib outp f v deflate (i, w, ses) w'"
proof (cases ses)
  case (Plain items close)
  then show ?thesis using run_case_plain [OF assms(1,2)] assms(4) by blast
next
  case (Compressed items close)
  then show ?thesis using run_case_compressed [OF assms(1-3)] assms(4) by (cases deflate) auto
qed

lemma update_report_closes:
  assumes env: "env_ok env inp outp" and lib: "libs_ok lib inp outp" and a: "accepted lib inp f [] w rest"
  shows "\<exists>m r w'. update_report lib env (deflate_extension f) deflate w = Some (r, w') \<and> r \<in> {Ret (), Err (ConnectionError conn_Error.Closed)} \<and>
    outp w' = outp w @ client_request (deflate_extension f) (new_client deflate w (lit ''/updateReports?agent=soketto-'' @ SOKETTO_VERSION))
      (base64 lib (fst (random_16 lib w))) @ frame_wire (answer_frame Client m (OpCode.Close, to_be_bytes 2 (1000 :: u16)))"
proof -
  let ?x = "deflate_extension f" and ?p = "lit ''/updateReports?agent=soketto-'' @ SOKETTO_VERSION"
  let ?k = "\<lambda>client. case finish (client_into_builder env ?x client) of (sender, receiver, sh) \<Rightarrow>
          map_option (\<lambda>(r, sender, w). (case r of Inl e \<Rightarrow> Err (ConnectionError e) | Inr _ \<Rightarrow> Ret (), w)) (sender_close env sender (sh_world sh))"
  obtain n w0 where n: "random_16 lib w = (n, w0)" by force
  have inp: "inp w = server_response ?x (base64 lib (sha1 lib (base64 lib n @ KEY))) None [] @ rest" using a n by (simp add: accepted_def)
  have "?p \<noteq> []" "list_all path_byte ?p" by (simp_all add: SOKETTO_VERSION_def lit_def path_byte_def name_byte_def in_range_def)
  then obtain client s r sh d where c: "with_accepted lib env ?x (new_client deflate w ?p) ?k = ?k client"
    "finish (client_into_builder env ?x client) = (s, r, sh)" "sender_ok Client s"
    "recv_at inp outp default_codec Client MAX_MESSAGE_SIZE d r sh rest (outp w @ client_request ?x (new_client deflate w ?p) (base64 lib n)) False"
    by (rule with_accepted_connection [OF env lib _ _ n inp, where deflate = deflate and k = ?k])
  have "outp (sh_world sh) = outp w @ client_request ?x (new_client deflate w ?p) (base64 lib n)" using c(4) by (simp add: recv_at_def)
  moreover obtain m r2 s2 w2 where "sender_close env s (sh_world sh) = Some (r2, s2, w2)" "\<forall>e. r2 = Inl e \<longrightarrow> e = conn_Error.Closed"
    "outp w2 = outp (sh_world sh) @ frame_wire (answer_frame Client m (OpCode.Close, to_be_bytes 2 (1000 :: u16)))"
    using perform_ok [OF env_okD(3) [OF env] c(3), of ?x sh CloseOp] by auto
  ultimately show ?thesis using c(1,2) n
    by (intro exI [of _ m] exI [of _ "case r2 of Inl e \<Rightarrow> Err (ConnectionError e) | Inr _ \<Rightarrow> Ret ()"] exI [of _ w2])
       (simp add: update_report_def Let_def split: sum.split)
qed

lemma run_cases_session:
  assumes "env_ok env inp outp" "libs_ok lib inp outp" "flate_ok f v"
  shows "list_all (test_case lib inp f deflate) cs \<Longrightarrow>
    \<exists>ws. run_cases next_socket lib env (deflate_extension f) deflate [i ..< i + length cs] (map fst cs @ net) = Some (Ret (), net, ws) \<and>
      list_all2 (case_output lib outp f v deflate) (enumerate i cs) ws"
proof (induction cs arbitrary: i)
  case (Cons c cs)
  obtain w ses where c: "c = (w, ses)" by (cases c)
  then obtain w' where w': "run_case lib env (deflate_extension f) deflate i w = Some (Ret (), w')"
    "case_output lib outp f v deflate (i, w, ses) w'"
    using run_case_session [OF assms, of deflate w ses i] Cons.prems by auto
  obtain ws where ws: "run_cases next_socket lib env (deflate_extension f) deflate [Suc i ..< Suc i + length cs] (map fst cs @ net) = Some (Ret (), net, ws)"
    "list_all2 (case_output lib outp f v deflate) (enumerate (Suc i) cs) ws" using Cons.IH [of "Suc i"] Cons.prems by auto
  have "[i ..< i + length (c # cs)] = i # [Suc i ..< Suc i + length cs]" by (simp add: upt_conv_Cons del: upt_Suc)
  then show ?case
    using ws w' c by (intro exI [of _ "w' # ws"]) (simp add: connected_def del: upt_Suc)
qed simp


end
