(* ===== verification/Hyper_Session.thy ===== *)
theory Hyper_Session
  imports Client_Session
begin

text \<open>
  The echo server behind an HTTP server as a whole: requests that are no upgrades, and sessions with and without compression.
\<close>

section \<open>The HTTP server\<close>

text \<open>
  What the documentation of the HTTP server promises, for a connection that carries one request. \<open>request stream\<close> is the
  headers of the request and what follows it; \<open>render\<close> is how a response is written. The service is called with the
  request, its response is written, and after a response of status 101 the upgrade resolves to the stream behind the request.
\<close>

definition http_server_ok :: "'w http_server \<Rightarrow> ('w \<Rightarrow> (HeaderMap \<times> bytes) option) \<Rightarrow> (full_Response \<Rightarrow> bytes) \<Rightarrow>
    ('w \<Rightarrow> bytes) \<Rightarrow> ('w \<Rightarrow> bytes) \<Rightarrow> bool" where
  "http_server_ok serve request render inp outp \<longleftrightarrow>
     (\<forall>service stream hm rest response. request stream = Some (hm, rest) \<and> service hm = Some (response, None) \<longrightarrow>
        (\<exists>r w. serve service stream = (r, w, []) \<and> outp w = outp stream @ render response)) \<and>
     (\<forall>service stream hm rest response server. request stream = Some (hm, rest) \<and> service hm = Some (response, Some server) \<and>
        fr_status response = 101 \<longrightarrow>
        (\<exists>r w up. serve service stream = (r, w, [(server, Inr up)]) \<and> inp up = rest \<and> outp up = outp stream @ render response))"

section \<open>Visits\<close>

text \<open>What a peer does: it sends a request that is no upgrade, or upgrades with a key and runs a session, with compression if it has offered it.\<close>

datatype visit = Browse | Upgrade bytes session

definition upgrade_with :: "HeaderMap \<Rightarrow> bytes \<Rightarrow> str list \<Rightarrow> bool" where
  "upgrade_with hm key offers \<longleftrightarrow> is_upgrade_request hm \<and> hm_get hm (lit ''Sec-WebSocket-Key'') = Some key \<and> length key = 24 \<and>
     hm_get hm (lit ''Sec-WebSocket-Version'') = Some (lit ''13'') \<and> extension_config (hm_iter hm) = Inr offers"

text \<open>The offer of a client that allows compression, without limits on the window sizes.\<close>

abbreviation offer_line :: "'z Flate \<Rightarrow> str" where
  "offer_line f \<equiv> append_extension_header_value (deflate_extension f) [deflate_new Client] []"

fun visits :: "('w \<Rightarrow> (HeaderMap \<times> bytes) option) \<Rightarrow> 'z Flate \<Rightarrow> bool \<Rightarrow> 'w \<Rightarrow> visit \<Rightarrow> bool" where
  "visits request f deflate stream Browse \<longleftrightarrow> (\<exists>hm rest. request stream = Some (hm, rest) \<and> \<not> is_upgrade_request hm)"
| "visits request f deflate stream (Upgrade key (Plain items close)) \<longleftrightarrow>
     (\<exists>hm. request stream = Some (hm, concat (map frame_wire (session_frames items close))) \<and> upgrade_with hm key []) \<and>
     session_ok f default_codec items close"
| "visits request f deflate stream (Upgrade key (Compressed items close)) \<longleftrightarrow> deflate \<and>
     (\<exists>hm. request stream = Some (hm, concat (map frame_wire (session_frames items close))) \<and> upgrade_with hm key [offer_line f]) \<and>
     session_ok f deflate_codec items close"

text \<open>The extensions of the client that makes the visit.\<close>

fun offered :: "session \<Rightarrow> Deflate list" where
  "offered (Plain items close) = []"
| "offered (Compressed items close) = [deflate_new Client]"

text \<open>
  What it gets: the plain response; or a response that it accepts, and then the answers to its session.
\<close>

definition accepts :: "'w Libs \<Rightarrow> 'z Flate \<Rightarrow> bytes \<Rightarrow> Deflate list \<Rightarrow> full_Response \<Rightarrow> bool" where
  "accepts lib f key es response \<longleftrightarrow> fr_status response = 101 \<and> fr_body response = [] \<and>
     (\<forall>c :: ('w, Deflate) Client. cl_nonce c = key \<and> cl_extensions c = es \<longrightarrow>
        fst (accept_response lib (deflate_extension f) c (reply_headers \<lparr>rp_status = 101, rp_headers = fr_headers response\<rparr>)) =
        Inr (Accepted None))"

fun served :: "'w Libs \<Rightarrow> (full_Response \<Rightarrow> bytes) \<Rightarrow> ('w \<Rightarrow> bytes) \<Rightarrow> 'z Flate \<Rightarrow> 'z view \<Rightarrow> 'w \<times> visit \<Rightarrow> 'w connection_result \<Rightarrow> bool" where
  "served lib render outp f v (stream, Browse) (w, tasks) \<longleftrightarrow>
     tasks = [] \<and> outp w = outp stream @ render (plain_response (lit ''Hello HTTP!''))"
| "served lib render outp f v (stream, Upgrade key ses) (w, tasks) \<longleftrightarrow>
     (\<exists>response up bs. tasks = [Some (Ret (), Some up)] \<and> accepts lib f key (offered ses) response \<and>
        session_output f v Server ses bs \<and> outp up = outp stream @ render response @ bs)"

section \<open>The handler\<close>

definition server_of :: "bool \<Rightarrow> Deflate HttpServer" where
  "server_of deflate = (if deflate then http_add_extension http_server_new (deflate_new Server) else http_server_new)"

lemma server_of_simps [simp]:
  "hs_extensions (server_of deflate) = (if deflate then [deflate_new Server] else [])" "hs_buffer (server_of deflate) = []"
  by (auto simp: server_of_def http_add_extension_def http_server_new_def)

text \<open>An upgrade request whose offers the server can configure is answered, and its client accepts the answer.\<close>

lemma handler_accepts:
  fixes lib :: "'w Libs"
  assumes v: "\<forall>v. list_all printable v \<longrightarrow> header_value_ok v" and lib: "libs_ok lib inp outp" and up: "upgrade_with hm key offers"
    and ses: "configure_lines (deflate_extension f) (hs_extensions (server_of deflate)) offers = (Inr (), ses)"
    and line: "list_all printable (append_extension_header_value (deflate_extension f) (filter (ext_is_enabled (deflate_extension f)) ses) [])"
    and ces: "(if ses \<noteq> [] then configure_extensions (deflate_extension f) es
        (append_extension_header_value (deflate_extension f) (filter (ext_is_enabled (deflate_extension f)) ses) []) else (Inr (), es)) = (Inr (), ces)"
  shows "\<exists>response. handler lib header_value_ok (deflate_extension f) deflate hm =
      Some (response, Some ((server_of deflate)\<lparr>hs_extensions := ses\<rparr>)) \<and> accepts lib f key es response"
proof -
  let ?x = "deflate_extension f"
  have ok: "\<exists>reply. http_receive_request lib header_value_ok ?x (server_of deflate) hm = Some (Inr reply, (server_of deflate)\<lparr>hs_extensions := ses\<rparr>) \<and>
      rp_status reply = 101 \<and> accept_response lib ?x c (reply_headers reply) = (Inr (Accepted None), c\<lparr>cl_extensions := ces\<rparr>)"
    if "cl_nonce c = key" "cl_extensions c = es" for c :: "('w, Deflate) Client"
    using http_receive_request_ok [OF lib _ _ _ _ _ ses v refl line, of hm c ces] up ces that unfolding upgrade_with_def by auto
  obtain c :: "('w, Deflate) Client" where c: "cl_nonce c = key" "cl_extensions c = es"
    by (rule that [of "(client_new undefined [] [])\<lparr>cl_nonce := key, cl_extensions := es\<rparr>"]) simp_all
  from ok [OF this] obtain reply where r: "http_receive_request lib header_value_ok ?x (server_of deflate) hm =
      Some (Inr reply, (server_of deflate)\<lparr>hs_extensions := ses\<rparr>)" "rp_status reply = 101" by blast
  have "reply_headers \<lparr>rp_status = 101, rp_headers = rp_headers reply\<rparr> = reply_headers reply" by (simp add: reply_headers_def)
  then have "accepts lib f key es \<lparr>fr_status = rp_status reply, fr_headers = rp_headers reply, fr_body = []\<rparr>"
    using r ok unfolding accepts_def by fastforce
  moreover have "handler lib header_value_ok ?x deflate hm =
      Some (\<lparr>fr_status = rp_status reply, fr_headers = rp_headers reply, fr_body = []\<rparr>, Some ((server_of deflate)\<lparr>hs_extensions := ses\<rparr>))"
    using up r(1) by (simp add: handler_def Let_def upgrade_with_def server_of_def split: if_splits)
  ultimately show ?thesis by blast
qed


lemma configure_deflate:
  assumes "params_ok peer" "deflate_configure d (d_params peer) = (Inr (), d')"
  shows "configure_extensions (deflate_extension f) [d] (append_extension_header_value (deflate_extension f) [peer] []) = (Inr (), [d'])"
  using negotiate_deflate [OF assms, of f] by (simp add: negotiate_def)

section \<open>The tasks\<close>

text \<open>A session on an upgraded stream, after the handler has answered the request.\<close>

lemma plain_session:
  assumes hv: "\<forall>v. list_all printable v \<longrightarrow> header_value_ok v" and env: "env_ok env inp outp" and lib: "libs_ok lib inp outp"
    and up: "upgrade_with hm key []" and ok: "session_ok f default_codec items close"
  shows "\<exists>response server. handler lib header_value_ok (deflate_extension f) deflate hm = Some (response, Some server) \<and>
    accepts lib f key [] response \<and>
    (\<forall>stream. inp stream = concat (map frame_wire (session_frames items close)) \<longrightarrow>
       (\<exists>w bs. websocket_echo_messages env (deflate_extension f) server (Inr stream) = Some (Ret (), Some w) \<and>
         session_output f v Server (Plain items close) bs \<and> outp w = outp stream @ bs))"
proof -
  let ?x = "deflate_extension f" and ?es = "hs_extensions (server_of deflate)"
  have off: "\<forall>e \<in> set ?es. \<not> ext_is_enabled ?x e" by (simp add: deflate_extension_def deflate_new_def)
  then have none: "filter (ext_is_enabled ?x) ?es = []" by (simp add: filter_empty_conv)
  from ok obtain answer where c: "frame_ok default_codec close" "h_opcode (fst close) = OpCode.Close" "close_answer (snd close) = Inr answer"
    "list_all (frame_ok default_codec) (concat (map item_frames items))" "list_all (item_ok f MAX_MESSAGE_SIZE) items"
    "list_all (frame_ok default_codec) (session_frames items close)" by (rule session_okD)
  have h: "configure_lines ?x ?es [] = (Inr (), ?es)" "list_all printable (append_extension_header_value ?x (filter (ext_is_enabled ?x) ?es) [])"
    "(if ?es \<noteq> [] then configure_extensions ?x [] (append_extension_header_value ?x (filter (ext_is_enabled ?x) ?es) []) else (Inr (), [])) = (Inr (), [])"
    unfolding none by (simp_all add: configure_empty)
  obtain response where r: "handler lib header_value_ok ?x deflate hm = Some (response, Some ((server_of deflate)\<lparr>hs_extensions := ?es\<rparr>))"
    "accepts lib f key [] response"
    using handler_accepts [OF hv lib up h] by blast
  have "c_reserved_bits default_codec = 0" by (simp add: codec_new_def set_max_data_size_def)
  note spec = spec_echo_items [OF c(2,3) this c(4,5), of False, folded session_frames_def]
  have "\<exists>w bs. websocket_echo_messages env ?x ((server_of deflate)\<lparr>hs_extensions := ?es\<rparr>) (Inr stream) = Some (Ret (), Some w) \<and>
       session_output f v Server (Plain items close) bs \<and> outp w = outp stream @ bs"
    if "inp stream = concat (map frame_wire (session_frames items close))" for stream
    using websocket_echo_refines [OF env _ _ c(6) spec, where x = ?x and stream = stream and
        server = "(server_of deflate)\<lparr>hs_extensions := ?es\<rparr>"] off that by simp
  then show ?thesis using r by blast
qed

lemma compressed_session:
  assumes hv: "\<forall>v. list_all printable v \<longrightarrow> header_value_ok v" and env: "env_ok env inp outp" and lib: "libs_ok lib inp outp" and z: "flate_ok f v"
    and up: "upgrade_with hm key [offer_line f]" and sok: "session_ok f deflate_codec items close"
  shows "\<exists>response server. handler lib header_value_ok (deflate_extension f) True hm = Some (response, Some server) \<and>
    accepts lib f key [deflate_new Client] response \<and>
    (\<forall>stream. inp stream = concat (map frame_wire (session_frames items close)) \<longrightarrow>
       (\<exists>w bs. websocket_echo_messages env (deflate_extension f) server (Inr stream) = Some (Ret (), Some w) \<and>
         session_output f v Server (Compressed items close) bs \<and> outp w = outp stream @ bs))"
proof -
  let ?x = "deflate_extension f" and ?s = "(server_of True)\<lparr>hs_extensions := [accepted_offer]\<rparr>"
  obtain client' where g: "deflate_configure (deflate_new Server) (d_params (deflate_new Client)) = (Inr (), accepted_offer)"
    "deflate_configure (deflate_new Client) (d_params accepted_offer) = (Inr (), client')" "d_enabled accepted_offer"
    by (rule accepted_offer_agrees)
  note ok = deflate_server_params_ok [OF g(1)]
  have en: "filter (ext_is_enabled ?x) [accepted_offer] = [accepted_offer]" using g(3) by (simp add: deflate_extension_def)
  have "params_ok (deflate_new Client)" by (simp add: params_ok_def deflate_new_def)
  then have lines: "configure_lines ?x (hs_extensions (server_of True)) [offer_line f] = (Inr (), [accepted_offer])"
    using configure_deflate [OF _ g(1), of f] by simp
  have line: "list_all printable (append_extension_header_value ?x (filter (ext_is_enabled ?x) [accepted_offer]) [])"
    using deflate_line_ok [OF ok, of f] unfolding en by (simp add: value_ok_def)
  obtain response where r: "handler lib header_value_ok ?x True hm = Some (response, Some ?s)" "accepts lib f key [deflate_new Client] response"
    using handler_accepts [OF hv lib up lines line, of "[deflate_new Client]" "[client']"] configure_deflate [OF ok g(2), of f] unfolding en by auto
  from sok obtain answer where c: "frame_ok deflate_codec close" "h_opcode (fst close) = OpCode.Close" "close_answer (snd close) = Inr answer"
    "list_all (frame_ok deflate_codec) (concat (map item_frames items))" "list_all (item_ok f MAX_MESSAGE_SIZE) items" by (rule session_okD)
  have "\<exists>w bs. websocket_echo_messages env ?x ?s (Inr stream) = Some (Ret (), Some w) \<and>
       session_output f v Server (Compressed items close) bs \<and> outp w = outp stream @ bs"
    if "inp stream = concat (map frame_wire (session_frames items close))" for stream
  proof -
    obtain s1 r1 sh1 where fin: "finish (http_into_builder env ?x ?s stream) = (s1, r1, sh1)" by (metis prod.collapse)
    have "ready accepted_offer" by (rule configured_ready [OF g(1) deflate_new_ready])
    from deflate_connection [OF env_okD(3) [OF env] g(3) this, where w = stream and mode = Server and buf = "[]" and s = s1 and r = r1 and sh = sh1 and f = f]
    have "echo_at inp outp deflate_codec Server MAX_MESSAGE_SIZE True s1 r1 sh1
        (concat (map frame_wire (concat (map item_frames items) @ [close])) @ []) (outp stream)"
      using fin that by (simp add: http_into_builder_def Let_def session_frames_def)
    from echo_session [OF env z c this, of False] obtain s2 r2 sh2 bss bs where
      "echo_messages env ?x s1 r1 sh1 = Some (Ret (), s2, r2, sh2)" "list_all2 (echoed f v Server) items bss"
      "answers_on_wire Server (close_echo (snd close)) bs" "outp (sh_world sh2) = outp stream @ concat bss @ bs"
      by (auto simp: echo_loop_simps)
    then show ?thesis
      by (intro exI [of _ "sh_world sh2"] exI [of _ "concat bss @ bs"]) (auto simp: websocket_echo_messages_def fin)
  qed
  then show ?thesis using r by blast
qed


section \<open>Properties\<close>

lemma accept_loop_all: "accept_loop task incoming = map task (concat (map (case_sum (\<lambda>e. []) (\<lambda>stream. [stream])) incoming))"
  by (induction task incoming rule: accept_loop.induct) simp_all

text \<open>One connection.\<close>

lemma connection_served:
  assumes "\<forall>v. list_all printable v \<longrightarrow> header_value_ok v" "env_ok env inp outp" "libs_ok lib inp outp" "flate_ok f v"
    and h: "http_server_ok serve request render inp outp" and vis: "visits request f deflate stream visit"
  shows "served lib render outp f v (stream, visit) (connection_task serve lib env header_value_ok (deflate_extension f) deflate stream)"
proof (cases visit)
  case Browse
  then obtain hm rest where r: "request stream = Some (hm, rest)" "\<not> is_upgrade_request hm" using vis by auto
  then have "handler lib header_value_ok (deflate_extension f) deflate hm = Some (plain_response (lit ''Hello HTTP!''), None)"
    by (simp add: handler_def)
  then obtain e w where "serve (handler lib header_value_ok (deflate_extension f) deflate) stream = (e, w, [])"
    "outp w = outp stream @ render (plain_response (lit ''Hello HTTP!''))"
    using h r(1) unfolding http_server_ok_def by blast
  then show ?thesis using Browse by (simp add: connection_task_def)
next
  case (Upgrade key ses)
  let ?task = "connection_task serve lib env header_value_ok (deflate_extension f) deflate stream"
  have *: "served lib render outp f v (stream, Upgrade key ses) ?task"
    if q: "request stream = Some (hm, rest)" and a: "handler lib header_value_ok (deflate_extension f) deflate hm = Some (response, Some server)"
      "accepts lib f key (offered ses) response"
      "\<forall>stream. inp stream = rest \<longrightarrow> (\<exists>w bs. websocket_echo_messages env (deflate_extension f) server (Inr stream) = Some (Ret (), Some w) \<and>
         session_output f v Server ses bs \<and> outp w = outp stream @ bs)" for hm rest response server
  proof -
    have "fr_status response = 101" using a(2) by (simp add: accepts_def)
    then obtain e w up where s: "serve (handler lib header_value_ok (deflate_extension f) deflate) stream = (e, w, [(server, Inr up)])"
      "inp up = rest" "outp up = outp stream @ render response"
      using h q a(1) unfolding http_server_ok_def by blast
    then show ?thesis using a(2,3) by (fastforce simp: connection_task_def)
  qed
  show ?thesis
  proof (cases ses)
    case (Plain items close)
    then obtain hm where r: "request stream = Some (hm, concat (map frame_wire (session_frames items close)))" "upgrade_with hm key []"
      "session_ok f default_codec items close"
      using vis Upgrade by auto
    from plain_session [OF assms(1-3) r(2,3), of deflate v] show ?thesis unfolding Upgrade Plain
      by (elim exE conjE) (rule * [OF r(1), unfolded Plain offered.simps])
  next
    case (Compressed items close)
    then obtain hm where r: "request stream = Some (hm, concat (map frame_wire (session_frames items close)))" "upgrade_with hm key [offer_line f]"
      "session_ok f deflate_codec items close" "deflate"
      using vis Upgrade by auto
    from compressed_session [OF assms(1-4) r(2,3)] r(4) show ?thesis unfolding Upgrade Compressed
      by (elim exE conjE) (rule * [OF r(1), unfolded Compressed offered.simps], simp_all)
  qed
qed


end
