(* ===== verification/Echo_Runs.thy ===== *)
theory Echo_Runs
  imports Handshake_Runs Programs_Return Hyper_Session
begin

text \<open>
  Concrete runs of the example programs, on the in-memory socket.
\<close>

section \<open>The echo loops\<close>

lemma mem_env_finite: "finite_input (mem_env piece) (\<lambda>w. length (mem_in w))"
  by (auto simp: finite_input_def mem_env_def Let_def split: if_splits)

theorem echo_refines_spec_witness:
  "\<forall>x. \<exists>s' r' sh' bs. echo_messages (mem_env 3) x (example_sender Server) (example_receiver 10)
      (example_shared (concat (map frame_wire [masked_frame True OpCode.Binary 9 [1, 2], masked_frame True OpCode.Close 4 []]) @ [])) =
      Some (Ret (), s', r', sh') \<and> answers_on_wire Server [(OpCode.Binary, [1, 2]), (OpCode.Close, [])] bs \<and> mem_out (sh_world sh') = bs"
proof
  fix x
  let ?fs = "[masked_frame True OpCode.Binary 9 [1, 2], masked_frame True OpCode.Close 4 []]"
  have "spec_echo False 10 ([masked_frame True OpCode.Binary 9 [1, 2]] @ [masked_frame True OpCode.Close 4 []]) =
      Some (Ret (), concat (map echo_answer [masked_frame True OpCode.Binary 9 [1, 2]]) @ close_echo [])"
    by (rule spec_echo_session [where c = codec_new, THEN trans])
       (simp_all add: masked_frame_ok session_frame_def close_answer_def)
  then have "spec_echo False 10 ?fs = Some (Ret (), [(OpCode.Binary, [1, 2]), (OpCode.Close, [])])"
    by (simp add: echo_answer_def close_echo_def close_answer_def)
  moreover have "list_all (frame_ok codec_new) ?fs" by (simp add: masked_frame_ok)
  ultimately show "\<exists>s' r' sh' bs. echo_messages (mem_env 3) x (example_sender Server) (example_receiver 10)
      (example_shared (concat (map frame_wire ?fs) @ [])) =
      Some (Ret (), s', r', sh') \<and> answers_on_wire Server [(OpCode.Binary, [1, 2]), (OpCode.Close, [])] bs \<and> mem_out (sh_world sh') = bs"
    using echo_refines_spec [OF mem_env_ok [of 3] _ example_sender_ok example_recv_at, where frames = ?fs and rest = "[]" and res = "Ret ()" and
        as = "[(OpCode.Binary, [1, 2]), (OpCode.Close, [])]" and limit = 10 and x = x]
    by auto
qed

theorem echo_panics_witness:
  "\<forall>x. \<exists>s' r' sh'. echo_messages (mem_env 2) x (example_sender Server) (example_receiver 9) (example_shared (concat (map frame_wire
      [masked_frame False OpCode.Text 1 [1, 2], masked_frame True OpCode.Pong 1 [3], masked_frame True OpCode.Text 1 [4]]) @ [])) =
      Some (Panic, s', r', sh')"
  using echo_panics [OF mem_env_ok [of 2] _ example_sender_ok _ _ _ _ _ _ _ _ example_recv_at, where first = "masked_frame False OpCode.Text 1 [1, 2]"
      and pong = "masked_frame True OpCode.Pong 1 [3]" and final = "masked_frame True OpCode.Text 1 [4]" and limit = 9 and rest = "[]"]
  by (simp add: masked_frame_ok)

section \<open>The server and the client\<close>

definition example_session :: "frame list" where
  "example_session = [masked_frame True OpCode.Text 5 [0x48, 0x69], masked_frame True OpCode.Ping 6 [7], masked_frame True OpCode.Binary 7 []]"

definition example_close :: frame where
  "example_close = masked_frame True OpCode.Close 8 [3, 0xE9]"

definition example_socket :: "bytes \<Rightarrow> Mem" where
  "example_socket bs = \<lparr>mem_in = bs, mem_out = [], mem_key = 1\<rparr>"

lemma frame_ok_default:
  assumes "frame_ok codec_new f" "length (snd f) \<le> 125"
  shows "frame_ok default_codec f"
  using assms by (auto simp: frame_ok_def wf_header_def codec_new_def set_max_data_size_def MAX_FRAME_SIZE_def MAX_MESSAGE_SIZE_def word_le_nat_alt)

lemma example_frames:
  "list_all (frame_ok default_codec) (example_session @ [example_close])" "list_all (session_frame MAX_MESSAGE_SIZE) example_session"
  "h_opcode (fst example_close) = OpCode.Close" "close_answer (snd example_close) = Inr (header_new OpCode.Close, Some \<lparr>cr_code = 1001, cr_descr = Some []\<rparr>)"
  "concat (map echo_answer example_session) @ close_echo (snd example_close) =
     [(OpCode.Text, [0x48, 0x69]), (OpCode.Pong, [7]), (OpCode.Binary, []), (OpCode.Close, [3, 0xE9])]"
proof -
  show a: "close_answer (snd example_close) = Inr (header_new OpCode.Close, Some \<lparr>cr_code = 1001, cr_descr = Some []\<rparr>)"
    by (simp add: example_close_def close_answer_def from_be_bytes_def from_utf8_ascii)
  show "list_all (frame_ok default_codec) (example_session @ [example_close])"
    by (simp add: example_session_def example_close_def frame_ok_default masked_frame_ok)
  show "list_all (session_frame MAX_MESSAGE_SIZE) example_session"
    by (simp add: example_session_def session_frame_def MAX_MESSAGE_SIZE_def from_utf8_ascii)
  show "concat (map echo_answer example_session) @ close_echo (snd example_close) =
     [(OpCode.Text, [0x48, 0x69]), (OpCode.Pong, [7]), (OpCode.Binary, []), (OpCode.Close, [3, 0xE9])]"
    by (simp add: example_session_def echo_answer_def close_echo_def a to_be_bytes_2)
  show "h_opcode (fst example_close) = OpCode.Close" by (simp add: example_close_def)
qed

lemma mem_env_waits: "waits (mem_env 1) mem_in n"
  by (auto simp: waits_def mem_env_def Let_def)

theorem serve_socket_echoes_witness:
  "\<exists>w bs. serve_socket mem_libs (mem_env 1) deflate True
      (example_socket (example_request [] @ concat (map frame_wire (example_session @ [example_close])))) = Some (Ret (), w) \<and>
    answers_on_wire Server [(OpCode.Text, [0x48, 0x69]), (OpCode.Pong, [7]), (OpCode.Binary, []), (OpCode.Close, [3, 0xE9])] bs \<and>
    mem_out w = server_response deflate example_accept None [] @ bs"
proof -
  let ?c = "example_client [] []" and ?w = "example_socket (example_request [] @ concat (map frame_wire (example_session @ [example_close])))"
  have c: "client_ok deflate ?c" by (rule example_client_ok) (simp add: value_ok_def)
  have g: "list_all graphic example_nonce" using libs_okD(4) [OF mem_libs_ok] example_base64(1) by metis
  have len: "length (client_request deflate ?c example_nonce) \<le> MAX_HEADERS_SIZE"
    by (simp add: example_client_def client_new_def head_def request_line_def client_headers_def header_line_def protocol_headers_def
        extension_headers_def MAX_HEADERS_SIZE_def crlf_def)
  have inp: "mem_in ?w = client_request deflate ?c example_nonce @ concat (map frame_wire (example_session @ [example_close]))"
    by (simp only: example_request_eq) (simp add: example_socket_def)
  have out: "mem_out ?w = []" by (simp add: example_socket_def)
  from serve_socket_echoes [OF mem_env_ok mem_libs_ok c _ g example_nonce_length len inp mem_env_waits example_frames(1-4), of True]
  show ?thesis unfolding example_frames(5) example_base64(2) out append_Nil by (simp only: example_simps)
qed

lemma mem_libs_total: "libs_total mem_libs"
proof -
  have "k \<le> length bs" if "simple_parse_response n bs = Inr (Complete r k)" for n bs r k
    using that by (auto simp: simple_parse_response_def simple_parse_def split: option.splits prod.splits list.splits sum.splits if_splits)
  then show ?thesis by (simp add: libs_total_def mem_libs_def base64_std_length min_def)
qed

theorem programs_return_witness:
  "server_main mem_libs (mem_env 3) deflate False [Inr (example_socket (example_request [] @ [0x81])), Inl (OtherKind 1)] \<noteq> None \<and>
   client_main (\<lambda>n. (Inr (example_socket [0x48]), n + 1)) mem_libs (mem_env 3) deflate False (0 :: nat) \<noteq> None"
  by (rule programs_return [OF mem_env_finite mem_libs_total])

section \<open>Connections with compression\<close>

definition zip_frame :: "bool \<Rightarrow> OpCode \<Rightarrow> u32 \<Rightarrow> bytes \<Rightarrow> frame" where
  "zip_frame fin oc key p = ((fst (masked_frame fin oc key p))\<lparr>h_rsv1 := True\<rparr>, p)"

lemma zip_frame_simps [simp]:
  "h_fin (fst (zip_frame fin oc key p)) = fin" "h_rsv1 (fst (zip_frame fin oc key p))" "h_opcode (fst (zip_frame fin oc key p)) = oc"
  "snd (zip_frame fin oc key p) = p"
  by (simp_all add: zip_frame_def)

lemma deflate_frames_ok:
  assumes "length p \<le> 125" "\<not> is_reserved oc" "is_control oc \<longrightarrow> fin" "125 \<le> unat (c_max_data_size c)" "c_reserved_bits c = 0"
  shows "frame_ok (add_reserved_bits c (True, False, False)) (zip_frame fin oc key p)"
    "frame_ok (add_reserved_bits c (True, False, False)) (masked_frame fin oc key p)"
proof -
  have "unat (of_nat (length p) :: usize) = length p" using assms by (simp add: unat_of_nat take_bit_nat_eq_self)
  then show "frame_ok (add_reserved_bits c (True, False, False)) (zip_frame fin oc key p)"
    "frame_ok (add_reserved_bits c (True, False, False)) (masked_frame fin oc key p)"
    using assms by (simp_all add: zip_frame_def frame_ok_def wf_header_def add_reserved_bits_def word_le_nat_alt)
qed

abbreviation zip_codec where "zip_codec \<equiv> add_reserved_bits codec_new (True, False, False)"

lemma zip_frame_ok:
  assumes "length p \<le> 125" "\<not> is_reserved oc" "is_control oc \<longrightarrow> fin"
  shows "frame_ok zip_codec (zip_frame fin oc key p)" "frame_ok zip_codec (masked_frame fin oc key p)"
    "frame_ok deflate_codec (zip_frame fin oc key p)" "frame_ok deflate_codec (masked_frame fin oc key p)"
  by (rule deflate_frames_ok [OF assms], simp_all add: codec_new_def set_max_data_size_def MAX_FRAME_SIZE_def MAX_MESSAGE_SIZE_def)+

lemma deflate_recv_ext:
  "recv_ext [deflate_new Server] mem_in mem_out zip_codec Server 10 True deflate_receiver (deflate_shared Server bs) bs [] False"
  using codec_new_ok [unfolded codec_ok_def]
  by (auto simp: recv_in_def deflate_receiver_def example_receiver_def deflate_shared_def add_reserved_bits_def codec_new_def)

lemma store_inflate: "inflate store_flate (1 # data @ end_marker) = (Inr (), data)"
  by (simp add: store_flate_def end_marker_def)

theorem receive_compressed_fragments_witness:
  "\<exists>self' sh' bs. receive (mem_env 2) deflate deflate_receiver (deflate_shared Server (concat (map frame_wire
      (zip_frame False OpCode.Text 1 [1, 0x48] # [masked_frame True OpCode.Ping 2 [7]] @ [masked_frame True OpCode.Continue 3 [0x69]])) @ [])) [] =
      Some (Inr (Incoming.Data (Data.Text 2)), self', sh', [0x48, 0x69]) \<and>
    answers_on_wire Server [(OpCode.Pong, [7])] bs"
proof -
  let ?a = "zip_frame False OpCode.Text 1 [1, 0x48]" and ?p = "masked_frame True OpCode.Ping 2 [7]" and ?b = "masked_frame True OpCode.Continue 3 [0x69]"
  have f: "list_all (frame_ok zip_codec) (?a # [?p] @ [?b])" "list_all middle_frame [?p]" by (simp_all add: zip_frame_ok middle_frame_def)
  have i: "inflate store_flate ((snd ?a @ fragments [?p] @ snd ?b) @ end_marker) = (Inr (), [0x48, 0x69])"
    using store_inflate [of "[0x48, 0x69]"] by simp
  have "\<exists>self' sh' bs dd'. receive (mem_env 2) deflate deflate_receiver (deflate_shared Server (concat (map frame_wire (?a # [?p] @ [?b])) @ [])) [] =
      Some (if snd ?a = [] then (data_result (h_opcode (fst ?a)) (length (fragments [?p] @ snd ?b)), self', sh', fragments [?p] @ snd ?b)
        else (data_result (h_opcode (fst ?a)) (length [0x48, 0x69 :: u8]), self', sh', [0x48, 0x69])) \<and>
    answers_on_wire Server (map (Pair OpCode.Pong) (pings [?p])) bs \<and>
    recv_ext [dd'] mem_in mem_out zip_codec Server 10 True self' sh' [] ([] @ bs) False \<and> \<not> d_await_last_fragment dd'"
    by (rule receive_compressed_fragments [OF mem_env_ok f _ _ _ _ _ _ i _ deflate_recv_ext]) (simp_all add: deflate_new_def)
  then show ?thesis by (auto simp: data_result_def simp del: answers_on_wire.simps map_append)
qed

theorem receive_decodes_buffer_witness:
  "receive (mem_env 2) deflate deflate_receiver (deflate_shared Server (frame_wire (zip_frame True OpCode.Text 1 []) @ [])) [1] = None"
proof -
  let ?g = "zip_frame True OpCode.Text 1 []"
  have i: "inflate store_flate (([1] @ snd ?g) @ end_marker) = (Inr (), [])" using store_inflate [of "[]"] by simp
  have "frame_ok zip_codec ?g" by (simp add: zip_frame_ok)
  from receive_decodes_buffer [OF mem_env_ok [of 2] this _ _ _ _ _ i deflate_new_ok deflate_recv_ext, where rest = "[]"] show ?thesis by simp
qed

theorem receive_refines_extended_witness:
  "\<exists>self' sh' bs stream' read_frames g. receive (mem_env 2) deflate deflate_receiver (deflate_shared Server (concat (map frame_wire [masked_frame True OpCode.Pong 1 [7]]) @ [])) [] =
      Some (Inr (Incoming.Pong [7]), self', sh', []) \<and> answers_on_wire Server [] bs \<and>
    recv_ext [deflate_new Server] mem_in mem_out zip_codec Server 10 True self' sh' stream' ([] @ bs) False \<and>
    [masked_frame True OpCode.Pong 1 [7]] = read_frames @ g # [] \<and>
    left_over True (Inr (Incoming.Pong [7])) (apply_mask (fst g) (snd g)) (concat (map frame_wire []) @ []) stream'"
proof -
  have "ext_receive deflate 10 (length ([] :: bytes)) None 0 [] [deflate_new Server] [masked_frame True OpCode.Pong 1 [7]] =
      Some (Some (Inr (Incoming.Pong [7]), [], [], False, [deflate_new Server], []))"
    by (simp add: ext_frame_def spec_control_def)
  moreover have "list_all (frame_ok zip_codec) [masked_frame True OpCode.Pong 1 [7]]" by (simp add: zip_frame_ok)
  ultimately show ?thesis
    using receive_refines_extended [OF mem_env_ok [of 2] _ deflate_recv_ext, where frames = "[masked_frame True OpCode.Pong 1 [7]]" and rest = "[]" and
        x = deflate and message = "[]"] unfolding option.case prod.case by fastforce
qed

definition zip_session :: "item list" where
  "zip_session = [Message (zip_frame True OpCode.Binary 5 [1, 7]) [] [7], Control (masked_frame True OpCode.Ping 6 [8]),
     Message (zip_frame False OpCode.Text 7 [1]) [masked_frame True OpCode.Ping 2 [], masked_frame True OpCode.Continue 3 [7]] [7],
     Message (masked_frame True OpCode.Text 7 [7]) [] [7]]"

lemma zip_session_ok:
  "list_all (frame_ok deflate_codec) (concat (map item_frames zip_session))" "list_all (item_ok store_flate MAX_MESSAGE_SIZE) zip_session"
proof -
  show "list_all (frame_ok deflate_codec) (concat (map item_frames zip_session))" by (simp add: zip_session_def zip_frame_ok)
  have "inflate store_flate ([1, 7] @ end_marker) = (Inr (), [7])" using store_inflate [of "[7]"] by simp
  then show "list_all (item_ok store_flate MAX_MESSAGE_SIZE) zip_session"
    by (simp add: zip_session_def message_frames_def message_data_def middle_frame_def MAX_MESSAGE_SIZE_def from_utf8_ascii)
qed


section \<open>The client\<close>

text \<open>What a server sends that accepts the handshake of \<open>example_socket\<close>, with the extensions \<open>es\<close>.\<close>

definition accepting :: "Deflate list \<Rightarrow> bytes \<Rightarrow> Mem" where
  "accepting es rest = example_socket (server_response deflate example_accept None es @ rest)"

lemma accepting_accepted: "accepted mem_libs mem_in store_flate es (accepting es rest) rest"
proof -
  have "fst (random_16 mem_libs (accepting es rest)) = replicate 12 0x5A @ to_be_bytes 4 (1 :: u32)"
    by (simp add: mem_libs_def accepting_def example_socket_def)
  moreover have "mem_in (accepting es rest) = server_response deflate example_accept None es @ rest"
    by (simp add: accepting_def example_socket_def)
  ultimately show ?thesis by (simp only: accepted_def example_base64)
qed

lemma example_closing: "closing example_close" "frame_ok deflate_codec example_close"
  using example_frames(3,4) by (simp_all add: closing_def example_close_def zip_frame_ok)

lemma zip_session_session: "session_ok store_flate deflate_codec zip_session example_close"
  using zip_session_ok example_closing by (simp add: session_ok_def session_frames_def)

definition plain_items :: "item list" where
  "plain_items = [Message (masked_frame True OpCode.Text 5 [0x48, 0x69]) [] [0x48, 0x69], Control (masked_frame True OpCode.Ping 6 [7]),
     Message (masked_frame False OpCode.Binary 7 [1]) [masked_frame True OpCode.Ping 2 [], masked_frame True OpCode.Continue 3 [2]] [1, 2]]"

lemma plain_items_session: "session_ok store_flate default_codec plain_items example_close"
  using example_frames(1) example_closing(1)
  by (simp add: session_ok_def session_frames_def plain_items_def frame_ok_default masked_frame_ok message_frames_def message_data_def
      middle_frame_def MAX_MESSAGE_SIZE_def from_utf8_ascii)


section \<open>The server behind an HTTP server\<close>

text \<open>An HTTP server that keeps the contract, for one request on each connection.\<close>

definition header_map :: "http_Header list \<Rightarrow> HeaderMap" where
  "header_map hs =
     \<lparr>hm_get = (\<lambda>n. map_option hdr_value (find (\<lambda>h. eq_ignore_ascii_case (hdr_name h) n) hs)),
      hm_get_all = (\<lambda>n. map hdr_value (filter (\<lambda>h. eq_ignore_ascii_case (hdr_name h) n) hs)),
      hm_iter = map (\<lambda>h. (hdr_name h, hdr_value h)) hs\<rparr>"

definition mem_request :: "Mem \<Rightarrow> (HeaderMap \<times> bytes) option" where
  "mem_request w = (case parse_request mem_libs MAX_NUM_HEADERS (mem_in w) of
       Inr (Complete rq n) \<Rightarrow> Some (header_map (rq_headers rq), drop n (mem_in w))
     | _ \<Rightarrow> None)"

definition mem_render :: "full_Response \<Rightarrow> bytes" where
  "mem_render r = head (lit ''HTTP/1.1 '' @ decimal (unat (fr_status r))) (map (\<lambda>(n, v). \<lparr>hdr_name = n, hdr_value = v\<rparr>) (fr_headers r)) @ fr_body r"

definition mem_serve :: "Mem http_server" where
  "mem_serve service w =
     (case mem_request w of
        None \<Rightarrow> (Inl ''bad request'', w, [])
      | Some (hm, rest) \<Rightarrow>
          (case service hm of
             None \<Rightarrow> (Inl ''panicked'', w, [])
           | Some (response, task) \<Rightarrow>
               let w = w\<lparr>mem_in := rest, mem_out := mem_out w @ mem_render response\<rparr> in
               (Inr (), w, case task of None \<Rightarrow> [] | Some server \<Rightarrow> [(server, Inr w)])))"

lemma mem_http_server_ok: "http_server_ok mem_serve mem_request mem_render mem_in mem_out"
  by (auto simp: http_server_ok_def mem_serve_def Let_def)

lemma mem_request_head:
  assumes "list_all header_ok hs" "length hs \<le> MAX_NUM_HEADERS"
  shows "mem_request (example_socket (head (request_line (lit ''GET'') (lit ''/chat'')) hs @ rest)) = Some (header_map hs, rest)"
proof -
  have "list_all name_byte (lit ''GET'')" "list_all path_byte (lit ''/chat'')" by (simp_all add: lit_def path_byte_def name_byte_def in_range_def)
  then show ?thesis
    using simple_parse_request_ok [unfolded parse_request_ok_def, rule_format, of "lit ''GET''" "lit ''/chat''" hs MAX_NUM_HEADERS rest] assms
    by (simp add: mem_request_def example_socket_def mem_libs_def)
qed

lemma example_upgrade:
  assumes "client_ok deflate (example_client [] es)"
  shows "mem_request (example_socket (example_request es @ rest)) = Some (header_map (client_headers deflate (example_client [] es) example_nonce), rest)"
proof -
  have "list_all graphic example_nonce" using libs_okD(4) [OF mem_libs_ok] example_base64(1) by metis
  from mem_request_head [OF client_headers_ok [OF assms this]] show ?thesis by (simp add: example_request_def)
qed

lemma example_headers: "client_headers deflate (example_client [] es) example_nonce =
    [hdr ''Host'' (lit ''localhost''), hdr ''Upgrade'' (lit ''websocket''), hdr ''Connection'' (lit ''Upgrade''), hdr ''Sec-WebSocket-Key'' example_nonce] @
    extension_headers deflate es @ [hdr ''Sec-WebSocket-Version'' (lit ''13'')]"
  by (simp add: client_headers_def protocol_headers_def example_client_def client_new_def)

lemma name_lengths: "length a \<noteq> length b \<Longrightarrow> \<not> eq_ignore_ascii_case (lit a) (lit b)"
  using eq_ignore_ascii_case_length [of "lit a" "lit b"] by auto

lemma names_equal: "eq_ignore_ascii_case (lit a) (lit a)" "eq_ignore_ascii_case (lit ''Upgrade'') (lit ''upgrade'')"
  "eq_ignore_ascii_case (lit ''Connection'') (lit ''connection'')"
  by (simp_all add: eq_ignore_ascii_case_def) (simp_all add: lit_def to_ascii_lowercase_def in_range_def)

lemma example_upgrade_with:
  assumes "es \<noteq> [] \<Longrightarrow> list_all printable (append_extension_header_value deflate es [])"
  shows "upgrade_with (header_map (client_headers deflate (example_client [] es) example_nonce)) example_nonce
    (if es = [] then [] else [append_extension_header_value deflate es []])"
proof -
  let ?hm = "header_map (client_headers deflate (example_client [] es) example_nonce)"
  have v: "hm_get_all ?hm (lit ''connection'') = [lit ''Upgrade'']" "hm_get_all ?hm (lit ''upgrade'') = [lit ''websocket'']"
    unfolding example_headers by (simp_all add: header_map_def extension_headers_def name_lengths names_equal)
  have "is_upgrade_request ?hm"
    by (simp add: is_upgrade_request_def header_contains_value_def v)
       (simp add: http_trim_eq is_ascii_whitespace_def eq_ignore_ascii_case_def lit_def to_ascii_lowercase_def in_range_def)
  moreover have "hm_get ?hm (lit ''Sec-WebSocket-Key'') = Some example_nonce" "hm_get ?hm (lit ''Sec-WebSocket-Version'') = Some (lit ''13'')"
    unfolding example_headers by (simp_all add: header_map_def extension_headers_def name_lengths names_equal)
  moreover have "extension_config (hm_iter ?hm) = Inr (if es = [] then [] else [append_extension_header_value deflate es []])"
    unfolding example_headers using assms
    by (simp add: header_map_def extension_headers_def SEC_WEBSOCKET_EXTENSIONS_def from_utf8_printable name_lengths names_equal
        del: append_extension_header_value.simps)
  ultimately show ?thesis by (simp add: upgrade_with_def del: append_extension_header_value.simps)
qed


end
