(* ===== verification/Status_Table.thy ===== *)
theory Status_Table
  imports Handshake_Server
begin

text \<open>
  The table of status codes of \<^verbatim>\<open>src/handshake/server.rs\<close> is sorted, so that the binary search of the reason
  phrase is a lookup. The search is correct for every sorted table (locale \<open>sorted_table\<close>).
\<close>

section \<open>Searching a sorted table\<close>

locale sorted_table =
  fixes tbl :: "('k :: linorder \<times> 'v) list"
  assumes strictly_sorted: "sorted_wrt (<) (map fst tbl)"
begin

lemma key_less: "i < j \<Longrightarrow> j < length tbl \<Longrightarrow> map fst tbl ! i < map fst tbl ! j"
  using strictly_sorted by (simp add: sorted_wrt_iff_nth_less)

lemma keys_distinct: "distinct (map fst tbl)"
  using strictly_sorted by (simp add: strict_sorted_iff)

text \<open>Every index outside the range that is left has another key.\<close>

lemma search_from_Some_iff:
  assumes "0 < n" "base + n \<le> length tbl" "\<And>j. j < length tbl \<Longrightarrow> map fst tbl ! j = k \<Longrightarrow> base \<le> j \<and> j < base + n"
  shows "search_from (map fst tbl) k base n = Some i \<longleftrightarrow> i < length tbl \<and> map fst tbl ! i = k"
  using assms
proof (induction "map fst tbl" k base n rule: search_from.induct)
  case (1 k base n)
  show ?case
  proof (cases "1 < n")
    case True
    let ?mid = "base + n div 2"
    have mid: "?mid < length tbl" using 1(3) True "1.prems"(1) by linarith
    have "(if k < map fst tbl ! ?mid then base else ?mid) \<le> j \<and> j < (if k < map fst tbl ! ?mid then base else ?mid) + (n - n div 2)"
      if j: "j < length tbl" "map fst tbl ! j = k" for j
    proof (cases "k < map fst tbl ! ?mid")
      case True
      then have "j < ?mid" using key_less [of ?mid j] j by (metis less_asym not_less_iff_gr_or_eq)
      then show ?thesis using True "1.prems"(3) [OF j] by auto
    next
      case False
      then have "?mid \<le> j" using key_less [of j ?mid] j mid by (metis not_le)
      then show ?thesis using False "1.prems"(3) [OF j] by auto
    qed
    then have "search_from (map fst tbl) k (if k < map fst tbl ! ?mid then base else ?mid) (n - n div 2) = Some i \<longleftrightarrow>
        i < length tbl \<and> map fst tbl ! i = k"
      using True "1.prems"(2) by (intro "1.hyps" [OF True refl refl]) auto
    then show ?thesis using True by (subst search_from.simps) (simp add: Let_def)
  next
    case False
    then have "n = 1" using "1.prems"(1) by simp
    then have "base = j" if "j < length tbl" "map fst tbl ! j = k" for j using "1.prems"(3) [OF that] by simp
    then show ?thesis using \<open>n = 1\<close> "1.prems"(2) by (subst search_from.simps) auto
  qed
qed

lemma binary_search_Some_iff:
  "binary_search_by_key tbl k = Some i \<longleftrightarrow> i < length tbl \<and> fst (tbl ! i) = k"
  using search_from_Some_iff [of "length tbl" 0 k i] by (auto simp: binary_search_by_key_def)

lemma binary_search_map_of:
  "map_option (\<lambda>i. snd (tbl ! i)) (binary_search_by_key tbl k) = map_of tbl k"
proof (cases "binary_search_by_key tbl k")
  case None
  then have "k \<notin> fst ` set tbl"
    using binary_search_Some_iff [of k] by (auto simp: in_set_conv_nth) (metis fst_conv)
  then show ?thesis using None map_of_eq_None_iff [of tbl k] by simp
next
  case (Some i)
  then have "i < length tbl" "tbl ! i = (k, snd (tbl ! i))"
    using binary_search_Some_iff [of k i] by (auto simp: prod_eq_iff)
  then have "(k, snd (tbl ! i)) \<in> set tbl" by (metis nth_mem)
  then show ?thesis using Some keys_distinct by (simp add: map_of_is_SomeI)
qed

end

interpretation status: sorted_table STATUSCODES
  by unfold_locales (simp add: STATUSCODES_def sorted_wrt2 sorted_wrt1 del: sorted_wrt.simps(2))

text \<open>
  C33. Equivalence: the reason phrase of a rejection, found by binary search, is the entry of the table of status codes,
  and that of an internal error for a code the table does not have.
\<close>

theorem reason_phrase_lookup:
  "reason_phrase status_code =
     (case map_of STATUSCODES status_code of Some reason \<Rightarrow> reason | None \<Rightarrow> lit ''500 Internal Server Error'')"
  using status.binary_search_map_of [of status_code]
  by (auto simp: reason_phrase_def split: option.splits)

end
