(* ===== verification/Duplex_Props.thy ===== *)
theory Duplex_Props
  imports Compressed_Props
begin

text \<open>
  The two halves of one endpoint running at once over the shared writer and the shared extensions, for extensions that
  keep the contract \<open>extension_laws\<close>.
\<close>

section \<open>Both halves at once\<close>

text \<open>
  The two halves run concurrently and share the writer behind a lock that \<open>write\<close> holds for a whole frame. A step is an
  operation of the sender, or a pass of the receiver's loop, or the return of \<open>receive\<close> and its next call.
  The state is the sender, the length the message buffer had when \<open>receive\<close> was called, and the
  state of its loop, which includes what is shared.
\<close>

type_synonym ('w, 'e) duplex = "Sender \<times> nat \<times> ('w, 'e) Loop"

text \<open>
  The payload an operation hands to \<open>write\<close>: what the extensions make of the data. Like every buffer in memory it is
  shorter than \<open>2 ^ 64\<close>; control payloads are of type \<^verbatim>\<open>ByteSlice125\<close>.
\<close>

definition op_payload :: "'e Extension \<Rightarrow> Sender \<Rightarrow> ('w, 'e) Shared \<Rightarrow> send_op \<Rightarrow> bytes" where
  "op_payload x s sh op =
     (if s_has_extensions s \<and> \<not> is_control (fst (op_answer op)) then
        case encode_with_extensions x (sh_extensions sh) (header_new (fst (op_answer op))) (op_storage op) of
          Some (Inr u, es, h, d) \<Rightarrow> as_ref d
        | _ \<Rightarrow> []
      else snd (op_answer op))"

definition op_fits :: "'e Extension \<Rightarrow> Sender \<Rightarrow> ('w, 'e) Shared \<Rightarrow> send_op \<Rightarrow> bool" where
  "op_fits x s sh op \<longleftrightarrow> length (op_payload x s sh op) < (if is_control (fst (op_answer op)) then 126 else 2 ^ 64)"

inductive duplex_step :: "'w Env \<Rightarrow> 'e Extension \<Rightarrow> ('w, 'e) duplex \<Rightarrow> ('w, 'e) duplex \<Rightarrow> bool" for env x where
  send: "perform env x s (l_shared st) op = Some (r, s', sh') \<Longrightarrow> op_fits x s (l_shared st) op \<Longrightarrow>
    duplex_step env x (s, mlen, st) (s', mlen, st\<lparr>l_shared := sh'\<rparr>)"
| again: "receive_body env x mlen st = Some (Again st') \<Longrightarrow> duplex_step env x (s, mlen, st) (s, mlen, st')"
| return: "receive_body env x mlen st = Some (Return (r, self, sh, m)) \<Longrightarrow>
    duplex_step env x (s, mlen, st) (s, length m', \<lparr>l_first_fragment_opcode = None, l_length = 0, l_self = self,
      l_shared = sh, l_message = m'\<rparr>)"

inductive duplex_reach :: "'w Env \<Rightarrow> 'e Extension \<Rightarrow> ('w, 'e) duplex \<Rightarrow> ('w, 'e) duplex \<Rightarrow> bool" for env x where
  start: "duplex_reach env x y y"
| step: "duplex_reach env x y z \<Longrightarrow> duplex_step env x z z' \<Longrightarrow> duplex_reach env x y z'"

text \<open>
  The frames RFC 6455 allows an endpoint to send: masked by a client and never by a server, control frames short and
  whole, reserved bits only those of negotiated extensions, on data frames.
\<close>

definition rfc_frame :: "Mode \<Rightarrow> bool \<times> bool \<times> bool \<Rightarrow> frame \<Rightarrow> bool" where
  "rfc_frame mode bits f \<longleftrightarrow> \<not> is_reserved (h_opcode (fst f)) \<and> h_fin (fst f) \<and>
     (h_rsv1 (fst f) \<longrightarrow> fst bits) \<and> (h_rsv2 (fst f) \<longrightarrow> fst (snd bits)) \<and> (h_rsv3 (fst f) \<longrightarrow> snd (snd bits)) \<and>
     (h_masked (fst f) \<longleftrightarrow> is_client mode) \<and> unat (h_payload_len (fst f)) = length (snd f) \<and>
     (is_control (h_opcode (fst f)) \<longrightarrow> length (snd f) \<le> 125 \<and> \<not> h_rsv1 (fst f) \<and> \<not> h_rsv2 (fst f) \<and> \<not> h_rsv3 (fst f))"

lemma sent_rfc_frame:
  assumes "keeps_frame bits (header_new oc) h" "\<not> is_reserved oc" "length p < 2 ^ 64"
    and "is_control oc \<Longrightarrow> length p \<le> 125 \<and> h = header_new oc"
  shows "rfc_frame mode bits (sent_header mode m h p, p)"
  using assms
  by (auto simp: rfc_frame_def keeps_frame_def sent_header_def header_new_def unat_of_nat take_bit_nat_eq_self)

text \<open>Reading, successfully or not, writes nothing.\<close>

definition quiet_reads :: "'w Env \<Rightarrow> ('w \<Rightarrow> bytes) \<Rightarrow> bool" where
  "quiet_reads env outp \<longleftrightarrow>
     (\<forall>w n r w'. sock_read env w n = (r, w') \<longrightarrow> outp w' = outp w) \<and>
     (\<forall>w n r w'. sock_read_exact env w n = (r, w') \<longrightarrow> outp w' = outp w) \<and>
     (\<forall>w n r w'. sock_discard env w n = (r, w') \<longrightarrow> outp w' = outp w)"

lemma quiet_readsD:
  assumes "quiet_reads env outp"
  shows "sock_read env w n = (r, w') \<Longrightarrow> outp w' = outp w" "sock_read_exact env w n = (r2, w') \<Longrightarrow> outp w' = outp w"
    "sock_discard env w k = (r3, w') \<Longrightarrow> outp w' = outp w"
  using assms unfolding quiet_reads_def by metis+

lemma receive_header_quiet:
  "quiet_reads env outp \<Longrightarrow> receive_header env codec buffer w = (r, buffer', w') \<Longrightarrow> outp w' = outp w \<and> (\<forall>h. r = Inr h \<longrightarrow> wf_header codec h)"
proof (induction env codec buffer w rule: receive_header.induct)
  case (1 env codec buffer w)
  show ?case
  proof (cases "decode_header codec buffer")
    case (Inl e)
    then show ?thesis using "1.prems" by (auto simp: receive_header.simps [of _ _ buffer])
  next
    case (Inr d)
    show ?thesis
    proof (cases d)
      case (Done hd offset)
      then show ?thesis using "1.prems" Inr codec.decoded [of codec buffer hd offset] by (auto simp: receive_header.simps [of _ _ buffer])
    next
      case (NeedMore n)
      obtain r1 w1 buffer1 where r: "read env w buffer n = (r1, w1, buffer1)" by (cases "read env w buffer n") auto
      have o: "outp w1 = outp w"
        using r quiet_readsD(1) [OF "1.prems"(1)] by (auto simp: read_def split: prod.splits sum.splits if_splits)
      show ?thesis
      proof (cases r1)
        case (Inl e)
        then show ?thesis using "1.prems" Inr NeedMore r o by (auto simp: receive_header.simps [of _ _ buffer])
      next
        case (Inr u)
        then show ?thesis using "1.prems" \<open>decode_header codec buffer = Inr d\<close> NeedMore r o
            "1.IH" [OF \<open>decode_header codec buffer = Inr d\<close> NeedMore r [symmetric] Inr refl "1.prems"(1)]
          by (simp add: receive_header.simps [of _ _ buffer])
      qed
    qed
  qed
qed

lemma read_buffer_quiet:
  "quiet_reads env outp \<Longrightarrow> read_buffer env buffer w h = (r, buffer', w') \<Longrightarrow> outp w' = outp w"
  by (auto simp: read_buffer_def Let_def split: if_splits prod.splits sum.splits dest: quiet_readsD(2))

lemma read_payload_quiet:
  "quiet_reads env outp \<Longrightarrow> read_payload env h msg buffer w = (r, msg', buffer', w') \<Longrightarrow> outp w' = outp w"
  by (auto simp: read_payload_def Let_def split: if_splits prod.splits sum.splits dest: quiet_readsD(2))

definition emits :: "Mode \<Rightarrow> bool \<times> bool \<times> bool \<Rightarrow> bytes \<Rightarrow> bytes \<Rightarrow> bool" where
  "emits mode bits out out' \<longleftrightarrow> (\<exists>fs. list_all (rfc_frame mode bits) fs \<and> out' = out @ concat (map frame_wire fs))"

lemma emits_refl [simp]: "emits mode bits out out"
  unfolding emits_def by (rule exI [of _ "[]"]) simp

lemma emits_one: "rfc_frame mode bits f \<Longrightarrow> emits mode bits out (out @ frame_wire f)"
  unfolding emits_def by (rule exI [of _ "[f]"]) simp

lemma emits_trans: "emits mode bits out out' \<Longrightarrow> emits mode bits out' out'' \<Longrightarrow> emits mode bits out out''"
  unfolding emits_def by (elim exE conjE, rule_tac x = "fs @ fsa" in exI) simp

definition receiver_ok :: "Mode \<Rightarrow> Receiver \<Rightarrow> bool" where
  "receiver_ok mode self \<longleftrightarrow> codec_ok (r_codec self) \<and> r_mode self = mode"

lemma write_answer_emits:
  assumes snk: "sink_ok env inp outp" and ok: "receiver_ok mode self" and p: "length (as_ref data) \<le> 125" "\<not> is_reserved oc"
  shows "\<exists>codec' w' h' data' mb'. write_frame env (r_mode self) (r_codec self) w (header_new oc) data mb =
      Some (Inr (), codec', w', h', data', mb') \<and> codec_ok codec' \<and> emits mode bits (outp w) (outp w')"
proof -
  have c: "codec_ok (r_codec self)" and m: "r_mode self = mode" using ok by (simp_all add: receiver_ok_def)
  from write_frame_ok [OF snk c, of "r_mode self" w "header_new oc" data mb] obtain k buf w' h' data' mb' where
    w: "write_frame env (r_mode self) (r_codec self) w (header_new oc) data mb =
      Some (Inr (), (r_codec self)\<lparr>c_header_buffer := buf\<rparr>, w', h', data', mb')" "length buf = MAX_HEADER_SIZE"
    "h' = sent_header (r_mode self) k (header_new oc) (as_ref data)"
    "outp w' = outp w @ header_bytes h' @ apply_mask h' (as_ref data)" by auto
  have "rfc_frame mode bits (h', as_ref data)" unfolding w(3) m using p by (intro sent_rfc_frame) auto
  from emits_one [OF this, of "outp w"] show ?thesis using w by (auto simp: codec_ok_def frame_wire_def)
qed

lemma flush_quiet: "sink_ok env inp outp \<Longrightarrow> receiver_flush env self w = (r, w') \<Longrightarrow> outp w' = outp w"
  unfolding sink_ok_def receiver_flush_def by (auto split: if_splits prod.splits sum.splits) (metis prod.inject)+

lemma close_quiet: "sink_ok env inp outp \<Longrightarrow> sock_close env w = (r, w') \<Longrightarrow> outp w' = outp w"
  unfolding sink_ok_def by (metis prod.inject)

lemma on_control_emits:
  assumes snk: "sink_ok env inp outp" and ok: "receiver_ok mode self" and len: "length (r_ctrl_buffer self) \<le> 125"
    and oc: "on_control env self w h = Some (r, self', w')"
  shows "receiver_ok mode self' \<and> emits mode bits (outp w) (outp w')"
proof -
  have m: "r_mode self = mode" using ok by (simp add: receiver_ok_def)
  have ping: "receiver_ok mode self' \<and> emits mode bits (outp w) (outp w')" if "on_ping env self w = Some (r, self', w')"
  proof -
    obtain codec' w1 h' data' mb' where wf: "write_frame env (r_mode self) (r_codec self) w (header_new OpCode.Pong)
        (Unique (r_ctrl_buffer self)) [] = Some (Inr (), codec', w1, h', data', mb')" "codec_ok codec'" "emits mode bits (outp w) (outp w1)"
      using write_answer_emits [OF snk ok, where data = "Unique (r_ctrl_buffer self)" and oc = OpCode.Pong and w = w and mb = "[]" and bits = bits] len by auto
    then show ?thesis using that m
      by (auto simp: on_ping_def Let_def receiver_ok_def split: prod.splits sum.splits dest: flush_quiet [OF snk])
  qed
  have close: "receiver_ok mode self' \<and> emits mode bits (outp w) (outp w')" if "on_close env self w = Some (r, self', w')"
  proof (cases "close_answer (r_ctrl_buffer self)")
    case (Inl e)
    then show ?thesis using that ok by (simp add: on_close_def)
  next
    case (Inr a)
    then obtain reason where a: "a = (header_new OpCode.Close, reason)" using close_answer_header by (cases a) fastforce
    let ?data = "case reason of Some cr \<Rightarrow> to_be_bytes 2 (cr_code cr) | None \<Rightarrow> []"
    obtain codec' w1 h' data' mb' where wf: "write_frame env (r_mode self) (r_codec self) w (header_new OpCode.Close)
        (Unique ?data) [] = Some (Inr (), codec', w1, h', data', mb')" "codec_ok codec'" "emits mode bits (outp w) (outp w1)"
      using write_answer_emits [OF snk ok, where data = "Unique ?data" and oc = OpCode.Close and w = w and mb = "[]" and bits = bits]
      by (cases reason) auto
    then show ?thesis using that m Inr a
      by (auto simp: on_close_def Let_def receiver_ok_def split: prod.splits sum.splits dest!: flush_quiet [OF snk] close_quiet [OF snk])
  qed
  show ?thesis using oc ping close ok by (cases "opcode h") (auto simp: on_control_def)
qed

fun flow_ends :: "(('w, 'e) Loop, ('w, 'e) received) flow \<Rightarrow> Receiver \<times> 'w" where
  "flow_ends (Again st) = (l_self st, sh_world (l_shared st))"
| "flow_ends (Return (r, self, sh, m)) = (self, sh_world sh)"

lemma dispatch_ends:
  "dispatch x mlen st h = Some f \<Longrightarrow> flow_ends f = (l_self st, sh_world (l_shared st))"
proof -
  have step: "l_self (snd (decode_step x st h)) = l_self st" "sh_world (l_shared (snd (decode_step x st h))) = sh_world (l_shared st)" for st h
    by (auto simp: decode_step_def split: prod.splits)
  have del: "deliver mlen st oc = Some f \<Longrightarrow> flow_ends f = (l_self st, sh_world (l_shared st))" for st oc
    by (auto simp: deliver_def Let_def split: if_splits)
  have step': "decode_step x st h = (r, st') \<Longrightarrow> l_self st' = l_self st \<and> sh_world (l_shared st') = sh_world (l_shared st)" for st h r st'
    using step [of st h] by auto
  show "dispatch x mlen st h = Some f \<Longrightarrow> flow_ends f = (l_self st, sh_world (l_shared st))"
    by (auto simp: dispatch_def Let_def split: if_splits option.splits prod.splits sum.splits dest!: step' dest: del)
qed

lemma receive_control_emits:
  assumes snk: "sink_ok env inp outp" and quiet: "quiet_reads env outp" and ok: "receiver_ok mode (l_self st)"
    and len: "unat (payload_len h) \<le> 125" and f: "receive_control env st h = Some f"
  shows "receiver_ok mode (fst (flow_ends f)) \<and> emits mode bits (outp (sh_world (l_shared st))) (outp (snd (flow_ends f)))"
proof -
  obtain r buffer w where rb: "read_buffer env (r_buffer (l_self st)) (sh_world (l_shared st)) h = (r, buffer, w)" by (metis prod.collapse)
  have o: "outp w = outp (sh_world (l_shared st))" by (rule read_buffer_quiet [OF quiet rb])
  let ?n = "unat (payload_len h)"
  let ?self = "(l_self st)\<lparr>r_ctrl_buffer := apply_mask h (take ?n buffer), r_buffer := drop ?n buffer\<rparr>"
  have ok': "receiver_ok mode ?self" using ok by (simp add: receiver_ok_def)
  have emit: "receiver_ok mode self' \<and> emits mode bits (outp w) (outp w')" if "on_control env ?self w h = Some (r', self', w')" for r' self' w'
    by (rule on_control_emits [OF snk ok' _ that]) (use len in simp)
  show ?thesis
  proof (cases r)
    case (Inl e)
    then show ?thesis using f rb o ok by (auto simp: receive_control_def receiver_ok_def)
  next
    case (Inr u)
    then show ?thesis using f rb o ok emit
      by (auto simp: receive_control_def Let_def receiver_ok_def split: if_splits bind_splits sum.splits option.splits)
  qed
qed

lemma receive_data_frame_emits:
  assumes quiet: "quiet_reads env outp" and ok: "receiver_ok mode (l_self st)"
    and f: "receive_data_frame env x mlen st h = Some f"
  shows "receiver_ok mode (fst (flow_ends f)) \<and> outp (snd (flow_ends f)) = outp (sh_world (l_shared st))"
proof -
  obtain r w where d: "discard_bytes env (ucast (saturating_add (l_length st) (payload_len h))) (sh_world (l_shared st)) = (r, w)" by force
  obtain r2 msg buffer w2 where rp: "read_payload env h (l_message st) (r_buffer (l_self st)) (sh_world (l_shared st)) = (r2, msg, buffer, w2)"
    by (metis prod.collapse)
  have "outp w = outp (sh_world (l_shared st))" "outp w2 = outp (sh_world (l_shared st))"
    using quiet_readsD(3) [OF quiet] d read_payload_quiet [OF quiet rp] by (auto simp: discard_bytes_def)
  then show ?thesis using f d rp ok
    by (cases r2) (auto simp: receive_data_frame_def Let_def receiver_ok_def split: if_splits dest!: dispatch_ends)
qed

lemma receive_body_emits:
  assumes snk: "sink_ok env inp outp" and quiet: "quiet_reads env outp" and ok: "receiver_ok mode (l_self st)"
    and body: "receive_body env x mlen st = Some f"
  shows "receiver_ok mode (fst (flow_ends f)) \<and> emits mode bits (outp (sh_world (l_shared st))) (outp (snd (flow_ends f)))"
proof (cases "r_is_closed (l_self st)")
  case True
  then show ?thesis using body ok by (auto simp: receive_body_def)
next
  case False
  obtain r buffer w where rh: "receive_header env (r_codec (l_self st)) (r_buffer (l_self st)) (sh_world (l_shared st)) = (r, buffer, w)"
    by (metis prod.collapse)
  let ?st = "st\<lparr>l_self := (l_self st)\<lparr>r_ctrl_buffer := [], r_buffer := buffer\<rparr>, l_shared := (l_shared st)\<lparr>sh_world := w\<rparr>\<rparr>"
  have o: "outp w = outp (sh_world (l_shared st))" and wf: "\<And>h. r = Inr h \<Longrightarrow> wf_header (r_codec (l_self st)) h"
    using receive_header_quiet [OF quiet rh] by auto
  have ok': "receiver_ok mode (l_self ?st)" using ok by (simp add: receiver_ok_def)
  show ?thesis
  proof (cases r)
    case (Inl e)
    then show ?thesis using body False rh o ok' by (auto simp: receive_body_def Let_def)
  next
    case (Inr h)
    have "receiver_ok mode (fst (flow_ends f)) \<and> emits mode bits (outp w) (outp (snd (flow_ends f)))"
    proof (cases "is_control (opcode h)")
      case True
      then have "receive_control env ?st h = Some f" using body False rh Inr by (simp add: receive_body_def Let_def)
      moreover have "unat (payload_len h) \<le> 125" using wf [OF Inr] True by (simp add: wf_header_def model_defs word_le_nat_alt)
      ultimately show ?thesis using receive_control_emits [OF snk quiet ok', of h f] by auto
    next
      case data: False
      then have "receive_data_frame env x mlen ?st h = Some f" using body False rh Inr by (simp add: receive_body_def Let_def)
      then show ?thesis using receive_data_frame_emits [OF quiet ok'] by auto
    qed
    then show ?thesis using o by simp
  qed
qed

section \<open>The extensions of both halves\<close>

text \<open>The extensions are as the contract wants them, with the reserved bits \<open>bs\<close>.\<close>

definition exts_ok :: "'e Extension \<Rightarrow> ('e \<Rightarrow> bool) \<Rightarrow> (bool \<times> bool \<times> bool) list \<Rightarrow> 'e list \<Rightarrow> bool" where
  "exts_ok x valid bs es \<longleftrightarrow> list_all valid es \<and> map (ext_reserved_bits x) es = bs"

fun flow_exts :: "(('w, 'e) Loop, ('w, 'e) received) flow \<Rightarrow> 'e list" where
  "flow_exts (Again st) = sh_extensions (l_shared st)"
| "flow_exts (Return (r, self, sh, m)) = sh_extensions sh"

lemma deliver_exts: "deliver mlen st oc = Some f \<Longrightarrow> flow_exts f = sh_extensions (l_shared st)"
  by (auto simp: deliver_def Let_def split: if_splits)

lemma receive_control_exts: "receive_control env st h = Some f \<Longrightarrow> flow_exts f = sh_extensions (l_shared st)"
  by (auto simp: receive_control_def Let_def split: if_splits bind_splits sum.splits option.splits prod.splits)

definition sending_ok :: "Mode \<Rightarrow> Sender \<Rightarrow> bool" where
  "sending_ok mode s \<longleftrightarrow> codec_ok (s_codec s) \<and> s_mode s = mode"

lemma sender_write_emits:
  assumes snk: "sink_ok env inp outp" and s: "sending_ok mode s"
    and h: "keeps_frame bits (header_new oc) h" "\<not> is_reserved oc" "length (as_ref data) < 2 ^ 64"
      "is_control oc \<Longrightarrow> length (as_ref data) \<le> 125 \<and> h = header_new oc"
  shows "\<exists>s' w'. sender_write env s w h data = Some (Inr (), s', w') \<and> sending_ok mode s' \<and> emits mode bits (outp w) (outp w')"
proof -
  from s have c: "codec_ok (s_codec s)" and m: "s_mode s = mode" by (simp_all add: sending_ok_def)
  from write_frame_ok [OF snk c, of "s_mode s" w h data "s_mask_buffer s"] obtain k buf w' h' data' mb' where
    w: "write_frame env (s_mode s) (s_codec s) w h data (s_mask_buffer s) =
      Some (Inr (), (s_codec s)\<lparr>c_header_buffer := buf\<rparr>, w', h', data', mb')" "length buf = MAX_HEADER_SIZE"
    "h' = sent_header (s_mode s) k h (as_ref data)" "outp w' = outp w @ header_bytes h' @ apply_mask h' (as_ref data)" by auto
  have "rfc_frame mode bits (h', as_ref data)" unfolding w(3) m by (rule sent_rfc_frame [OF h])
  from emits_one [OF this, of "outp w"] show ?thesis
    using w m by (auto simp: sender_write_def sending_ok_def codec_ok_def frame_wire_def)
qed

text \<open>Control operations pass the extensions by.\<close>

lemma perform_control:
  fixes sh :: "('w, 'e) Shared"
  assumes "is_control (fst (op_answer op))"
  shows "\<exists>g. perform env x s sh op = Option.bind (sender_write env s (sh_world sh) (header_new (fst (op_answer op))) (op_storage op))
      (\<lambda>(r, s, w). Some (fst (g r w), s, sh\<lparr>sh_world := snd (g r w)\<rparr>)) \<and>
    (\<forall>inp outp r w. sink_ok env inp outp \<longrightarrow> outp (snd (g r w)) = outp w)"
proof -
  let ?id = "\<lambda>r w. (r, w)"
  have id: "map_option (\<lambda>(r, self, w). (r, self, sh\<lparr>sh_world := w\<rparr>)) o' =
      Option.bind o' (\<lambda>(r, s, w). Some (fst (?id r w), s, sh\<lparr>sh_world := snd (?id r w)\<rparr>))" for o' :: "((conn_Error + unit) \<times> Sender \<times> 'w) option"
    by (cases o') auto
  show ?thesis
  proof (cases op)
    case CloseOp
    let ?g = "\<lambda>r w. case r of Inl e \<Rightarrow> (Inl e, w) | Inr _ \<Rightarrow>
      (case sender_flush env w of (Inl e, w) \<Rightarrow> (Inl e, w)
       | (Inr _, w) \<Rightarrow> (case sock_close env w of (Inl _, w) \<Rightarrow> (Inl conn_Error.Closed, w) | (Inr _, w) \<Rightarrow> (Inr (), w)))"
    have "outp (snd (?g r w)) = outp w" if k: "sink_ok env inp outp" for inp outp r w
    proof -
      obtain w1 where "sock_flush env w = (Inr (), w1)" "outp w1 = outp w" using k unfolding sink_ok_def by blast
      moreover obtain r2 w2 where "sock_close env w1 = (r2, w2)" "outp w2 = outp w1" using k unfolding sink_ok_def by blast
      ultimately show ?thesis by (auto simp: sender_flush_def split: sum.splits)
    qed
    moreover have "perform env x s sh op = Option.bind (sender_write env s (sh_world sh) (header_new (fst (op_answer op))) (op_storage op))
      (\<lambda>(r, s, w). Some (fst (?g r w), s, sh\<lparr>sh_world := snd (?g r w)\<rparr>))"
      using CloseOp by (cases "sender_write env s (sh_world sh) (header_new OpCode.Close) (Shared (to_be_bytes 2 (1000 :: u16)))")
        (auto simp: sender_close_def Let_def split: prod.splits sum.splits)
    ultimately show ?thesis by (intro exI [of _ ?g]) blast
  qed (use assms id in \<open>auto simp: send_ping_def send_pong_def intro!: exI [of _ ?id]\<close>)
qed

context extension_laws
begin

lemma encode_all:
  "exts_ok x valid bs es \<Longrightarrow> encode_with_extensions x es h d = Some (r, es', h', d') \<Longrightarrow>
    exts_ok x valid bs es' \<and> keeps_frame (any_bits bs) h h'"
proof (induction es arbitrary: bs h d r es' h' d')
  case Nil
  then show ?case by (auto simp: exts_ok_def)
next
  case (Cons e es)
  let ?b = "ext_reserved_bits x e" and ?bs = "map (ext_reserved_bits x) es"
  have i: "valid e" "exts_ok x valid ?bs es" "bs = ?b # ?bs" using Cons.prems(1) by (auto simp: exts_ok_def)
  obtain r1 e1 h1 d1 where e: "ext_encode x e h d = Some (r1, e1, h1, d1)"
    using Cons.prems(2) by (cases "ext_encode x e h d") auto
  note l = encoded [OF i(1) e]
  show ?case
  proof (cases r1)
    case (Inl er)
    then show ?thesis using Cons.prems e l i(3) keeps_frame_Cons(2) [of ?b h h1 ?bs] by (auto simp: exts_ok_def)
  next
    case (Inr u)
    then obtain es2 where r: "encode_with_extensions x es h1 d1 = Some (r, es2, h', d')" "es' = e1 # es2"
      using Cons.prems(2) e by auto
    from Cons.IH [OF i(2) r(1)] show ?thesis using r(2) l i(1,3) keeps_frame_Cons(1) [of ?b h h1 ?bs h'] by (simp add: exts_ok_def)
  qed
qed

lemma decode_all:
  "exts_ok x valid bs es \<Longrightarrow> decode_extensions x es h m = (r, es', h', m') \<Longrightarrow> exts_ok x valid bs es'"
proof (induction es arbitrary: bs h m r es' h' m')
  case (Cons e es)
  obtain r1 e1 h1 m1 where e: "ext_decode x e h m = (r1, e1, h1, m1)" by (metis prod.collapse)
  obtain r2 es2 h2 m2 where r: "decode_extensions x es h1 m1 = (r2, es2, h2, m2)" by (metis prod.collapse)
  have i: "valid e" "exts_ok x valid (map (ext_reserved_bits x) es) es" using Cons.prems(1) by (auto simp: exts_ok_def)
  show ?case using Cons.prems e r decoded [OF i(1) e] Cons.IH [OF i(2) r] by (cases r1) (auto simp: exts_ok_def)
qed simp

lemma decode_step_exts:
  "exts_ok x valid bs (sh_extensions (l_shared st)) \<Longrightarrow> decode_step x st h = (r, st') \<Longrightarrow> exts_ok x valid bs (sh_extensions (l_shared st'))"
  by (auto simp: decode_step_def decode_with_extensions_def split: prod.splits if_splits dest: decode_all)

lemma dispatch_exts:
  assumes "exts_ok x valid bs (sh_extensions (l_shared st))" "dispatch x mlen st h = Some f"
  shows "exts_ok x valid bs (flow_exts f)"
proof -
  have step: "exts_ok x valid bs (sh_extensions (l_shared st'))" if "decode_step x (st\<lparr>l_first_fragment_opcode := oc\<rparr>) h1 = (r, st')" for oc h1 r st'
    using decode_step_exts [OF _ that] assms(1) by simp
  have step': "exts_ok x valid bs (sh_extensions (l_shared st'))" if "decode_step x st h1 = (r, st')" for h1 r st'
    using decode_step_exts [OF assms(1) that] .
  show ?thesis using assms
    by (auto simp: dispatch_def Let_def split: if_splits option.splits prod.splits sum.splits dest!: step step' dest: deliver_exts)
qed

lemma receive_data_frame_exts:
  assumes "exts_ok x valid bs (sh_extensions (l_shared st))" "receive_data_frame env x mlen st h = Some f"
  shows "exts_ok x valid bs (flow_exts f)"
  using assms
  by (auto simp: receive_data_frame_def Let_def split: if_splits prod.splits sum.splits intro: dispatch_exts [rotated])

lemma receive_body_exts:
  assumes e: "exts_ok x valid bs (sh_extensions (l_shared st))" and b: "receive_body env x mlen st = Some f"
  shows "exts_ok x valid bs (flow_exts f)"
proof (cases "r_is_closed (l_self st)")
  case True
  then show ?thesis using b e by (auto simp: receive_body_def)
next
  case False
  obtain r buffer w where rh: "receive_header env (r_codec (l_self st)) (r_buffer (l_self st)) (sh_world (l_shared st)) = (r, buffer, w)"
    by (metis prod.collapse)
  let ?st = "st\<lparr>l_self := (l_self st)\<lparr>r_ctrl_buffer := [], r_buffer := buffer\<rparr>, l_shared := (l_shared st)\<lparr>sh_world := w\<rparr>\<rparr>"
  have e': "exts_ok x valid bs (sh_extensions (l_shared ?st))" using e by simp
  show ?thesis
    using b False rh e' receive_control_exts [of env ?st _ f] receive_data_frame_exts [OF e', of env mlen _ f]
    by (cases r) (auto simp: receive_body_def Let_def split: if_splits)
qed

lemma send_frame_emits:
  assumes snk: "sink_ok env inp outp" and s: "sending_ok mode s" and e: "exts_ok x valid bs (sh_extensions sh)"
    and op: "\<not> is_control (fst (op_answer op))" "op_fits x s sh op"
    and sf: "send_frame env x s sh (header_new (fst (op_answer op))) (op_storage op) = Some (r, s', sh')"
  shows "sending_ok mode s' \<and> exts_ok x valid bs (sh_extensions sh') \<and> emits mode (any_bits bs) (outp (sh_world sh)) (outp (sh_world sh'))"
proof (cases "s_has_extensions s")
  case False
  have "length (as_ref (op_storage op)) < 2 ^ 64" using op False by (simp add: op_fits_def op_payload_def as_ref_op_storage)
  from sender_write_emits [OF snk s keeps_frame_refl op_not_reserved [of op] this, where bits = "any_bits bs" and w = "sh_world sh"] op(1) sf False e
  show ?thesis by (auto simp: send_frame_def)
next
  case True
  obtain r1 es1 h1 d1 where enc: "encode_with_extensions x (sh_extensions sh) (header_new (fst (op_answer op))) (op_storage op) = Some (r1, es1, h1, d1)"
    using sf True by (auto simp: send_frame_def split: bind_splits)
  note l = encode_all [OF e enc]
  show ?thesis
  proof (cases r1)
    case (Inl er)
    then show ?thesis using sf True enc l s by (auto simp: send_frame_def)
  next
    case (Inr u)
    then have "length (as_ref d1) < 2 ^ 64" using op True enc by (simp add: op_fits_def op_payload_def)
    from sender_write_emits [OF snk s conjunct2 [OF l] op_not_reserved [of op] this, where w = "sh_world sh"] op(1) sf True Inr enc l
    show ?thesis by (auto simp: send_frame_def)
  qed
qed

lemma perform_emits:
  assumes snk: "sink_ok env inp outp" and s: "sending_ok mode s" and e: "exts_ok x valid bs (sh_extensions sh)"
    and op: "op_fits x s sh op" and p: "perform env x s sh op = Some (r, s', sh')"
  shows "sending_ok mode s' \<and> exts_ok x valid bs (sh_extensions sh') \<and> emits mode (any_bits bs) (outp (sh_world sh)) (outp (sh_world sh'))"
proof (cases "is_control (fst (op_answer op))")
  case False
  then show ?thesis using send_frame_emits [OF snk s e _ op] p by (simp add: perform_data_op)
next
  case True
  then have "length (as_ref (op_storage op)) \<le> 125" using op by (simp add: op_fits_def op_payload_def as_ref_op_storage)
  then obtain s1 w1 where w: "sender_write env s (sh_world sh) (header_new (fst (op_answer op))) (op_storage op) = Some (Inr (), s1, w1)"
    "sending_ok mode s1" "emits mode (any_bits bs) (outp (sh_world sh)) (outp w1)"
    using sender_write_emits [OF snk s keeps_frame_refl op_not_reserved [of op], where data = "op_storage op" and bits = "any_bits bs" and w = "sh_world sh"] by auto
  from perform_control [OF True, of env x s sh] obtain g where g: "perform env x s sh op = Option.bind (sender_write env s (sh_world sh) (header_new (fst (op_answer op))) (op_storage op))
      (\<lambda>(r, s, w). Some (fst (g r w), s, sh\<lparr>sh_world := snd (g r w)\<rparr>))"
    "\<forall>inp outp r w. sink_ok env inp outp \<longrightarrow> outp (snd (g r w)) = outp w" by (elim exE conjE) (rule that)
  have "outp (snd (g (Inr ()) w1)) = outp w1" using g(2) snk by blast
  then show ?thesis using g(1) w p e by auto
qed

lemma duplex_step_emits:
  assumes snk: "sink_ok env inp outp" and quiet: "quiet_reads env outp"
    and valid: "sending_ok mode s" "receiver_ok mode (l_self st)" "exts_ok x valid bs (sh_extensions (l_shared st))"
    and stp: "duplex_step env x (s, mlen, st) (s', mlen', st')"
  shows "sending_ok mode s' \<and> receiver_ok mode (l_self st') \<and> exts_ok x valid bs (sh_extensions (l_shared st')) \<and>
    emits mode (any_bits bs) (outp (sh_world (l_shared st))) (outp (sh_world (l_shared st')))"
  using stp
proof cases
  case (send op r sh')
  then show ?thesis using perform_emits [OF snk valid(1,3)] valid(2) by auto
next
  case again
  then show ?thesis using receive_body_emits [OF snk quiet valid(2), of x mlen "Again st'"] receive_body_exts [OF valid(3)] valid(1) by fastforce
next
  case (return r self sh m m')
  then show ?thesis
    using receive_body_emits [OF snk quiet valid(2), of x mlen "Return (r, self, sh, m)"] receive_body_exts [OF valid(3)] valid(1) by fastforce
qed

lemma duplex_reach_emits:
  assumes snk: "sink_ok env inp outp" and quiet: "quiet_reads env outp"
    and reach: "duplex_reach env x (s, mlen, st) (s', mlen', st')"
    and valid: "sending_ok mode s" "receiver_ok mode (l_self st)" "exts_ok x valid bs (sh_extensions (l_shared st))"
  shows "sending_ok mode s' \<and> receiver_ok mode (l_self st') \<and> exts_ok x valid bs (sh_extensions (l_shared st')) \<and>
    emits mode (any_bits bs) (outp (sh_world (l_shared st))) (outp (sh_world (l_shared st')))"
  using reach valid
proof (induction "(s, mlen, st)" "(s', mlen', st')" arbitrary: s' mlen' st' rule: duplex_reach.induct)
  case start
  then show ?case by simp
next
  case (step z)
  obtain s1 mlen1 st1 where z: "z = (s1, mlen1, st1)" by (cases z) auto
  have i: "sending_ok mode s1" "receiver_ok mode (l_self st1)" "exts_ok x valid bs (sh_extensions (l_shared st1))"
    "emits mode (any_bits bs) (outp (sh_world (l_shared st))) (outp (sh_world (l_shared st1)))"
    using step z by auto
  show ?case using duplex_step_emits [OF snk quiet i(1-3)] step.hyps(3) z emits_trans [OF i(4)] by blast
qed

end

section \<open>Whole frames\<close>

text \<open>
  C17. Interleaving: however the operations of the sender are interleaved with the passes of the receiver, and
  whatever the peer sends, the bytes an endpoint has written are a sequence of whole frames, each
  one RFC 6455 allows it to send: never a frame of one half inside a frame of the other, masked exactly by a
  client, with control frames of at most 125 bytes; and the reserved bit of the deflate extension is the only one
  set, on data frames only, if the connection has that extension.
\<close>

theorem duplex_whole_frames:
  assumes "sink_ok env inp outp" "quiet_reads env outp" "duplex_reach env (deflate_extension f) (s, mlen, st) (s', mlen', st')"
    and "sending_ok mode s" "receiver_ok mode (l_self st)" "list_all deflate_ok (sh_extensions (l_shared st))"
  shows "\<exists>fs. list_all (rfc_frame mode (sh_extensions (l_shared st) \<noteq> [], False, False)) fs \<and>
    outp (sh_world (l_shared st')) = outp (sh_world (l_shared st)) @ concat (map frame_wire fs)"
proof -
  let ?x = "deflate_extension f" and ?es = "sh_extensions (l_shared st)"
  have bits: "any_bits (map (ext_reserved_bits ?x) es) = (es \<noteq> [], False, False)" for es
    by (induction es) (auto simp: any_bits_def deflate_extension_def deflate_reserved_bits_def)
  have "exts_ok ?x deflate_ok (map (ext_reserved_bits ?x) ?es) ?es" using assms(6) by (simp add: exts_ok_def)
  from deflated.duplex_reach_emits [OF assms(1-5) this] show ?thesis by (simp add: emits_def bits)
qed

definition deflate_loop :: "(Mem, Deflate) Loop" where
  "deflate_loop = \<lparr>l_first_fragment_opcode = None, l_length = 0, l_self = deflate_receiver\<lparr>r_mode := Client\<rparr>,
     l_shared = deflate_shared Client [], l_message = []\<rparr>"

lemma deflate_sends:
  "\<exists>s' sh'. perform (mem_env 1) (deflate_extension store_flate) deflate_sender (deflate_shared Client []) (SendText [7]) = Some (Inr (), s', sh') \<and>
    op_fits (deflate_extension store_flate) deflate_sender (deflate_shared Client []) (SendText [7])"
proof -
  let ?x = "deflate_extension store_flate"
  obtain d' payload where p: "length payload \<le> out_bound store_view (length [7 :: u8])"
    "deflate_encode store_flate (deflate_new Client) (header_new OpCode.Text) (Shared [7]) =
      Some (Inr (), d', set_payload_len (set_rsv1 (header_new OpCode.Text) True) (of_nat (length payload)), Owned payload)"
    by (rule deflate_encode_message [OF store_flate_ok deflate_new_ok, of "header_new OpCode.Text" "Shared [7]" Client])
      (simp_all add: header_new_def model_defs)
  have "encode_with_extensions ?x [deflate_new Client] (header_new OpCode.Text) (Shared [7]) =
      Some (Inr (), [d'], set_payload_len (set_rsv1 (header_new OpCode.Text) True) (of_nat (length payload)), Owned payload)"
    using p(2) by (simp add: deflate_extension_def)
  then have "op_payload ?x deflate_sender (deflate_shared Client []) (SendText [7]) = payload"
    by (simp add: op_payload_def deflate_sender_def deflate_shared_def)
  then have "op_fits ?x deflate_sender (deflate_shared Client []) (SendText [7])" using p(1) by (simp add: op_fits_def)
  moreover have "\<exists>s' sh'. send_frame (mem_env 1) ?x deflate_sender (deflate_shared Client []) (header_new OpCode.Text) (Shared [7]) = Some (Inr (), s', sh')"
    using send_compressed [OF env_okD(3) [OF mem_env_ok [of 1]] _ refl _ _ p(2), of deflate_sender "deflate_shared Client []"]
    by (auto simp: deflate_sender_def example_sender_def deflate_shared_def)
  ultimately show ?thesis by (simp add: send_text_def)
qed

theorem duplex_whole_frames_witness:
  "\<exists>s' st'. duplex_reach (mem_env 1) (deflate_extension store_flate) (deflate_sender, 0, deflate_loop) (s', 0, st') \<and>
     (\<exists>fs. list_all (rfc_frame Client (True, False, False)) fs \<and> mem_out (sh_world (l_shared st')) = concat (map frame_wire fs))"
proof -
  let ?x = "deflate_extension store_flate"
  obtain s' sh' where "perform (mem_env 1) ?x deflate_sender (l_shared deflate_loop) (SendText [7]) = Some (Inr (), s', sh')"
    and fits: "op_fits ?x deflate_sender (l_shared deflate_loop) (SendText [7])"
    using deflate_sends by (auto simp: deflate_loop_def)
  then have "duplex_step (mem_env 1) ?x (deflate_sender, 0, deflate_loop) (s', 0, deflate_loop\<lparr>l_shared := sh'\<rparr>)"
    by (rule duplex_step.send)
  with duplex_reach.start have r: "duplex_reach (mem_env 1) ?x (deflate_sender, 0, deflate_loop) (s', 0, deflate_loop\<lparr>l_shared := sh'\<rparr>)"
    by (rule duplex_reach.step)
  have "quiet_reads (mem_env 1) mem_out" by (auto simp: quiet_reads_def mem_env_def Let_def split: if_splits)
  from duplex_whole_frames [OF env_okD(3) [OF mem_env_ok] this r, of Client]
  have "\<exists>fs. list_all (rfc_frame Client (True, False, False)) fs \<and>
      mem_out (sh_world (l_shared (deflate_loop\<lparr>l_shared := sh'\<rparr>))) = concat (map frame_wire fs)"
    by (simp add: deflate_loop_def deflate_receiver_def deflate_shared_def deflate_sender_def example_sender_def example_receiver_def
        sending_ok_def receiver_ok_def codec_ok_def codec_new_def add_reserved_bits_def)
  with r show ?thesis by blast
qed

end
