(* ===== verification/Writer_Lock.thy ===== *)
theory Writer_Lock
  imports Duplex_Props
begin

text \<open>
  The lock of the writer. \<open>Duplex_Props\<close> takes writing a frame as one step. Here \<^verbatim>\<open>write\<close> of \<^verbatim>\<open>connection.rs\<close> is cut at
  its awaits: taking the lock, and every single write of the socket, which may accept a part of the bytes. The two
  halves of a connection run it in any interleaving. The frames still go out whole, one after the other, in the order in which the
  lock was taken; and no call waits forever. Only a call that is dropped in the middle, which the crate
  documents as forbidden, tears its frame.
\<close>

section \<open>The two writers\<close>

datatype half = SendHalf | ReceiveHalf

text \<open>
  Where a call of \<^verbatim>\<open>write\<close> stands: waiting for the lock with the encoded header, writing what is left of the header, or
  of the payload. The guard of the lock lives until the call returns.
\<close>

datatype write_call =
    Idle
  | Locking Header Storage bytes
  | WriteHeader Header Storage bytes
  | WritePayload bytes

record 'w writers =
  lock :: "half option"
  calls :: "half \<Rightarrow> write_call"
  codecs :: "half \<Rightarrow> Codec"
  world :: 'w

text \<open>The part of \<^verbatim>\<open>write\<close> before the lock, and the bytes of the payload as they are written.\<close>

definition write_begin :: "'w Env \<Rightarrow> Mode \<Rightarrow> Codec \<Rightarrow> 'w \<Rightarrow> Header \<Rightarrow> Storage \<Rightarrow> (Codec \<times> Header \<times> bytes \<times> 'w) option" where
  "write_begin env mode codec w header data =
     (let (header, w) =
        (if is_client mode then
           case random_u32 env w of (m, w) \<Rightarrow> (set_mask (set_masked header True) m, w)
         else (header, w));
        header = set_payload_len header (of_nat (length (as_ref data)))
      in map_option (\<lambda>(codec, hb). (codec, header, hb, w)) (encode_header codec header))"

definition payload_bytes :: "Header \<Rightarrow> Storage \<Rightarrow> bytes" where
  "payload_bytes header data = (if \<not> is_masked header then as_ref data else apply_mask header (as_ref data))"

text \<open>Run without interruption, these parts are \<open>write_frame\<close>.\<close>

lemma write_frame_parts:
  "write_frame env mode codec w header data mb =
     map_option (\<lambda>(codec, header, hb, w).
         case write_all env w hb of
           (Inl e, w) \<Rightarrow> (Inl e, codec, w, header, data, mb)
         | (Inr _, w) \<Rightarrow> (case write_payload env w header data mb of (r, w, data, mb) \<Rightarrow> (r, codec, w, header, data, mb)))
       (write_begin env mode codec w header data)"
  "case write_payload env w header data mb of (r, w', data', mb') \<Rightarrow> (r, w') = write_all env w (payload_bytes header data)"
  by (auto simp: write_frame_def write_begin_def Let_def map_option_case write_payload_def payload_bytes_def
      split: prod.splits sum.splits option.splits bind_splits Storage.splits)

text \<open>
  The events. \<open>poll\<close> is \<^verbatim>\<open>poll_write\<close> of the socket: the number of bytes it has taken, or an error. The loop of
  \<^verbatim>\<open>write_all\<close> calls it until no bytes are left, and fails when it takes none. \<open>Cancel\<close> drops the future of a call.
\<close>

datatype event = Begin half Header Storage | Acquire half frame | Poll half | Finish half | Fail half | Cancel half | Other

abbreviation call_state :: "'w writers \<Rightarrow> half \<Rightarrow> write_call \<Rightarrow> 'w writers" where
  "call_state s t c \<equiv> s\<lparr>calls := (calls s)(t := c)\<rparr>"

definition unlocked :: "half \<Rightarrow> 'w writers \<Rightarrow> 'w writers" where
  "unlocked t s = (call_state s t Idle)\<lparr>lock := if lock s = Some t then None else lock s\<rparr>"

inductive write_step :: "'w Env \<Rightarrow> ('w \<Rightarrow> bytes \<Rightarrow> (io_Error + nat) \<times> 'w) \<Rightarrow> Mode \<Rightarrow> event \<Rightarrow> 'w writers \<Rightarrow> 'w writers \<Rightarrow> bool"
  for env poll mode where
  enter: "calls s t = Idle \<Longrightarrow> write_begin env mode (codecs s t) (world s) header data = Some (codec, h, hb, w) \<Longrightarrow>
    write_step env poll mode (Begin t header data) s
      (call_state s t (Locking h data hb)\<lparr>codecs := (codecs s)(t := codec), world := w\<rparr>)"
| acquire: "calls s t = Locking h data hb \<Longrightarrow> lock s = None \<Longrightarrow>
    write_step env poll mode (Acquire t (h, as_ref data)) s (call_state s t (WriteHeader h data hb)\<lparr>lock := Some t\<rparr>)"
| head: "calls s t = WriteHeader h data hb \<Longrightarrow> hb \<noteq> [] \<Longrightarrow> poll (world s) hb = (Inr n, w) \<Longrightarrow> 0 < n \<Longrightarrow>
    write_step env poll mode (Poll t) s (call_state s t (WriteHeader h data (drop n hb))\<lparr>world := w\<rparr>)"
| head_end: "calls s t = WriteHeader h data [] \<Longrightarrow>
    write_step env poll mode (Poll t) s (call_state s t (WritePayload (payload_bytes h data)))"
| payload: "calls s t = WritePayload bs \<Longrightarrow> bs \<noteq> [] \<Longrightarrow> poll (world s) bs = (Inr n, w) \<Longrightarrow> 0 < n \<Longrightarrow>
    write_step env poll mode (Poll t) s (call_state s t (WritePayload (drop n bs))\<lparr>world := w\<rparr>)"
| finish: "calls s t = WritePayload [] \<Longrightarrow> write_step env poll mode (Finish t) s (unlocked t s)"
| fail: "calls s t \<in> {WriteHeader h data bs, WritePayload bs} \<Longrightarrow> bs \<noteq> [] \<Longrightarrow> poll (world s) bs = (r, w) \<Longrightarrow>
    r = Inr 0 \<or> r = Inl e \<Longrightarrow> write_step env poll mode (Fail t) s (unlocked t s\<lparr>world := w\<rparr>)"
| cancel: "calls s t \<noteq> Idle \<Longrightarrow> write_step env poll mode (Cancel t) s (unlocked t s)"
| flush: "calls s t = Idle \<Longrightarrow> lock s = None \<Longrightarrow> sock_flush env (world s) = (r, w) \<Longrightarrow>
    write_step env poll mode Other s (s\<lparr>world := w\<rparr>)"
| close: "calls s t = Idle \<Longrightarrow> lock s = None \<Longrightarrow> sock_close env (world s) = (r, w) \<Longrightarrow>
    write_step env poll mode Other s (s\<lparr>world := w\<rparr>)"
| read: "calls s ReceiveHalf = Idle \<Longrightarrow> sock_read env (world s) n = (rd, w) \<Longrightarrow>
    write_step env poll mode Other s (s\<lparr>world := w\<rparr>)"

inductive write_run :: "'w Env \<Rightarrow> ('w \<Rightarrow> bytes \<Rightarrow> (io_Error + nat) \<times> 'w) \<Rightarrow> Mode \<Rightarrow> 'w writers \<Rightarrow> event list \<Rightarrow> 'w writers \<Rightarrow> bool"
  for env poll mode where
  start: "write_run env poll mode s [] s"
| step: "write_run env poll mode s es s' \<Longrightarrow> write_step env poll mode e s' s'' \<Longrightarrow> write_run env poll mode s (es @ [e]) s''"

section \<open>What the events say\<close>

fun undisturbed :: "event \<Rightarrow> bool" where
  "undisturbed (Fail t) = False"
| "undisturbed (Cancel t) = False"
| "undisturbed e = True"

fun begun :: "half \<Rightarrow> event \<Rightarrow> (Header \<times> Storage) list" where
  "begun t (Begin t' h d) = (if t' = t then [(h, d)] else [])"
| "begun t e = []"

fun acquired_by :: "half \<Rightarrow> event \<Rightarrow> frame list" where
  "acquired_by t (Acquire t' f) = (if t' = t then [f] else [])"
| "acquired_by t e = []"

fun acquired :: "event \<Rightarrow> frame list" where
  "acquired (Acquire t f) = [f]"
| "acquired e = []"

text \<open>The frame a call of \<^verbatim>\<open>write\<close> has to write.\<close>

definition written_as :: "Mode \<Rightarrow> Header \<times> Storage \<Rightarrow> frame \<Rightarrow> bool" where
  "written_as mode = (\<lambda>(h, d) f. \<exists>m. f = (sent_header mode m h (as_ref d), as_ref d))"

text \<open>What the socket promises: it takes a prefix of the bytes it is offered.\<close>

definition poll_ok :: "('w \<Rightarrow> bytes \<Rightarrow> (io_Error + nat) \<times> 'w) \<Rightarrow> ('w \<Rightarrow> bytes) \<Rightarrow> bool" where
  "poll_ok poll outp \<longleftrightarrow> (\<forall>w bs n w'. poll w bs = (Inr n, w') \<longrightarrow> n \<le> length bs \<and> outp w' = outp w @ take n bs)"

section \<open>The invariant\<close>

fun in_section :: "write_call \<Rightarrow> bool" where
  "in_section (WriteHeader h d bs) = True"
| "in_section (WritePayload bs) = True"
| "in_section c = False"

fun left_to_write :: "write_call \<Rightarrow> bytes" where
  "left_to_write (WriteHeader h d bs) = bs @ payload_bytes h d"
| "left_to_write (WritePayload bs) = bs"
| "left_to_write c = []"

fun waiting :: "write_call \<Rightarrow> frame list" where
  "waiting (Locking h d bs) = [(h, as_ref d)]"
| "waiting c = []"

fun call_ok :: "write_call \<Rightarrow> bool" where
  "call_ok (Locking h d bs) = (bs = header_bytes h)"
| "call_ok c = True"

definition pending :: "'w writers \<Rightarrow> bytes" where
  "pending s = (case lock s of None \<Rightarrow> [] | Some t \<Rightarrow> left_to_write (calls s t))"

definition writers_ok :: "'w writers \<Rightarrow> bool" where
  "writers_ok s \<longleftrightarrow> (\<forall>t. (lock s = Some t \<longleftrightarrow> in_section (calls s t)) \<and> call_ok (calls s t) \<and> codec_ok (codecs s t))"

lemma pending_world [simp]: "pending (s\<lparr>world := w\<rparr>) = pending s"
  by (cases "lock s") (simp_all add: pending_def)

lemma payload_bytes_eq: "payload_bytes h d = apply_mask h (as_ref d)"
  by (simp add: payload_bytes_def apply_mask_def model_defs)

lemma write_begin_ok:
  assumes "sink_ok env inp outp" "codec_ok codec" "write_begin env mode codec w header data = Some (codec', h, hb, w')"
  shows "hb = header_bytes h \<and> codec_ok codec' \<and> outp w' = outp w \<and> written_as mode (header, data) (h, as_ref data)"
proof -
  obtain m w1 where m: "random_u32 env w = (m, w1)" by force
  have w1: "outp w1 = outp w" using assms(1) m unfolding sink_ok_def by auto
  let ?h = "sent_header mode m header (as_ref data)"
  obtain buf where "length buf = MAX_HEADER_SIZE" "encode_header codec ?h = Some (codec\<lparr>c_header_buffer := buf\<rparr>, header_bytes ?h)"
    using encode_header_bytes [OF assms(2)] by blast
  moreover from this(2) have "write_begin env mode codec w header data =
      Some (codec\<lparr>c_header_buffer := buf\<rparr>, ?h, header_bytes ?h, if is_client mode then w1 else w)"
    by (cases "is_client mode") (simp_all add: write_begin_def sent_header_def m Let_def model_defs)
  ultimately show ?thesis using assms(3) w1 by (auto simp: codec_ok_def written_as_def)
qed


text \<open>One step keeps the invariant, and what it adds to the output is what it takes from the pending bytes.\<close>

lemma quiet_others:
  assumes "sink_ok env inp outp" "quiet_reads env outp"
  shows "sock_flush env w = (r, w') \<Longrightarrow> outp w' = outp w" "sock_close env w = (r, w') \<Longrightarrow> outp w' = outp w"
    "sock_read env w n = (rd, w') \<Longrightarrow> outp w' = outp w"
  using assms close_quiet [OF assms(1)] quiet_readsD(1) [OF assms(2)] unfolding sink_ok_def by (metis prod.inject)+

lemma write_step_ok:
  assumes "write_step env poll mode e s s'" "undisturbed e" "sink_ok env inp outp" "quiet_reads env outp" "poll_ok poll outp" "writers_ok s"
  shows "writers_ok s' \<and> outp (world s') @ pending s' = outp (world s) @ pending s @ concat (map frame_wire (acquired e)) \<and>
    (\<forall>t. list_all2 (written_as mode) (begun t e) (drop (length (waiting (calls s t))) (acquired_by t e @ waiting (calls s' t))) \<and>
         take (length (waiting (calls s t))) (acquired_by t e @ waiting (calls s' t)) = waiting (calls s t))"
  using assms
proof (induction rule: write_step.induct)
  case (enter s t header data codec h hb w)
  have c: "codec_ok (codecs s t)" using enter.prems by (simp add: writers_ok_def)
  have "lock s \<noteq> Some t" using enter by (auto simp: writers_ok_def)
  then have "pending (call_state s t (Locking h data hb)\<lparr>codecs := (codecs s)(t := codec), world := w\<rparr>) = pending s"
    by (cases "lock s") (auto simp: pending_def)
  then show ?case using enter write_begin_ok [OF enter.prems(2) c enter.hyps(2)]
    by (auto simp: writers_ok_def)
next
  case (acquire s t h data hb)
  then have "hb = header_bytes h" unfolding writers_ok_def by (metis call_ok.simps(1))
  then show ?case using acquire by (auto simp: writers_ok_def pending_def frame_wire_def payload_bytes_eq)
next
  case (head s t h data hb n w)
  then have "lock s = Some t" "n \<le> length hb" "outp w = outp (world s) @ take n hb" by (auto simp: writers_ok_def poll_ok_def)
  then show ?case using head by (auto simp: writers_ok_def pending_def)
next
  case (head_end s t h data)
  then have "lock s = Some t" by (simp add: writers_ok_def)
  then show ?case using head_end by (auto simp: writers_ok_def pending_def)
next
  case (payload s t bs n w)
  then have "lock s = Some t" "n \<le> length bs" "outp w = outp (world s) @ take n bs" by (auto simp: writers_ok_def poll_ok_def)
  then show ?case using payload by (auto simp: writers_ok_def pending_def)
next
  case (finish s t)
  then have "lock s = Some t" by (simp add: writers_ok_def)
  then show ?case using finish by (auto simp: writers_ok_def pending_def unlocked_def)
next
  case (fail s t h data bs r w e) then show ?case by simp
next
  case (cancel s t) then show ?case by simp
next
  case (flush s t r w) then show ?case by (simp add: quiet_others(1) [OF flush.prems(2,3) flush.hyps(3)] writers_ok_def)
next
  case (close s t r w) then show ?case by (simp add: quiet_others(2) [OF close.prems(2,3) close.hyps(3)] writers_ok_def)
next
  case (read s n rd w) then show ?case by (simp add: quiet_others(3) [OF read.prems(2,3) read.hyps(2)] writers_ok_def)
qed


abbreviation all_events :: "('e \<Rightarrow> 'a list) \<Rightarrow> 'e list \<Rightarrow> 'a list" where
  "all_events f es \<equiv> concat (map f es)"

definition idle :: "'w writers \<Rightarrow> bool" where
  "idle s \<longleftrightarrow> lock s = None \<and> (\<forall>t. calls s t = Idle \<and> codec_ok (codecs s t))"

lemma write_run_ok:
  assumes "write_run env poll mode s es s'" "list_all undisturbed es" "sink_ok env inp outp" "quiet_reads env outp" "poll_ok poll outp" "idle s"
  shows "writers_ok s' \<and> outp (world s') @ pending s' = outp (world s) @ concat (map frame_wire (all_events acquired es)) \<and>
    (\<forall>t. list_all2 (written_as mode) (all_events (begun t) es) (all_events (acquired_by t) es @ waiting (calls s' t)))"
  using assms
proof (induction rule: write_run.induct)
  case (start s)
  then show ?case by (simp add: idle_def writers_ok_def pending_def)
next
  case (step s es s' e s'')
  then have IH: "writers_ok s'" "outp (world s') @ pending s' = outp (world s) @ concat (map frame_wire (all_events acquired es))"
    "\<forall>t. list_all2 (written_as mode) (all_events (begun t) es) (all_events (acquired_by t) es @ waiting (calls s' t))" by simp_all
  have "undisturbed e" using step.prems(1) by simp
  note s = write_step_ok [OF step.hyps(2) this step.prems(2-4) IH(1)]
  have "list_all2 (written_as mode) (all_events (begun t) (es @ [e])) (all_events (acquired_by t) (es @ [e]) @ waiting (calls s'' t))" for t
    using list_all2_appendI [OF IH(3) [rule_format, of t] s [THEN conjunct2, THEN conjunct2, rule_format, of t, THEN conjunct1]]
      s append_take_drop_id [of "length (waiting (calls s' t))" "acquired_by t e @ waiting (calls s'' t)"] by simp
  moreover have "outp (world s'') @ pending s'' = outp (world s) @ concat (map frame_wire (all_events acquired (es @ [e])))"
    using s IH(2) by (simp flip: append_assoc)
  ultimately show ?case using s by simp
qed

section \<open>Every call completes\<close>

text \<open>A socket that takes at least a byte when it is offered some.\<close>

definition poll_takes :: "('w \<Rightarrow> bytes \<Rightarrow> (io_Error + nat) \<times> 'w) \<Rightarrow> bool" where
  "poll_takes poll \<longleftrightarrow> (\<forall>w bs. bs \<noteq> [] \<longrightarrow> (\<exists>n w'. poll w bs = (Inr n, w') \<and> 0 < n))"

fun continuing :: "event \<Rightarrow> bool" where
  "continuing (Begin t h d) = False"
| "continuing Other = False"
| "continuing e = undisturbed e"

lemma write_run_trans:
  "write_run env poll mode s2 es' s3 \<Longrightarrow> write_run env poll mode s1 es s2 \<Longrightarrow> write_run env poll mode s1 (es @ es') s3"
  by (induction rule: write_run.induct) (auto simp: append_assoc [symmetric] simp del: append_assoc intro: write_run.intros)

definition reaches :: "'w Env \<Rightarrow> ('w \<Rightarrow> bytes \<Rightarrow> (io_Error + nat) \<times> 'w) \<Rightarrow> Mode \<Rightarrow> 'w writers \<Rightarrow> ('w writers \<Rightarrow> bool) \<Rightarrow> bool" where
  "reaches env poll mode s P \<longleftrightarrow> (\<exists>es s'. write_run env poll mode s es s' \<and> list_all continuing es \<and> P s')"

lemma reaches_here: "P s \<Longrightarrow> reaches env poll mode s P"
  unfolding reaches_def by (intro exI [of _ "[]"] exI [of _ s]) (simp add: write_run.start)

lemma reaches_step:
  assumes "write_step env poll mode e s s1" "continuing e" "reaches env poll mode s1 P"
  shows "reaches env poll mode s P"
proof -
  obtain es s' where r: "write_run env poll mode s1 es s'" "list_all continuing es" "P s'" using assms(3) by (auto simp: reaches_def)
  from write_run_trans [OF r(1) write_run.step [OF write_run.start assms(1)]] r(2,3) assms(2) show ?thesis
    unfolding reaches_def by (intro exI [of _ "[e] @ es"] exI [of _ s']) simp
qed

lemma reaches_trans:
  assumes "reaches env poll mode s P" "\<And>s'. P s' \<Longrightarrow> reaches env poll mode s' Q"
  shows "reaches env poll mode s Q"
  using assms write_run_trans unfolding reaches_def by (metis list_all_append)

definition done_but :: "half \<Rightarrow> 'w writers \<Rightarrow> 'w writers \<Rightarrow> bool" where
  "done_but t s s' \<longleftrightarrow> lock s' = None \<and> calls s' = (calls s)(t := Idle)"

lemma payload_completes:
  assumes "poll_takes poll" "calls s t = WritePayload bs" "lock s = Some t"
  shows "reaches env poll mode s (done_but t s)"
  using assms(2-)
proof (induction "length bs" arbitrary: s bs rule: less_induct)
  case less
  show ?case
  proof (cases "bs = []")
    case True
    then have "write_step env poll mode (Finish t) s (unlocked t s)" using less.prems(1) by (intro write_step.finish) simp
    then show ?thesis
      by (rule reaches_step) (auto intro!: reaches_here simp: done_but_def unlocked_def less.prems)
  next
    case False
    then obtain n w where n: "poll (world s) bs = (Inr n, w)" "0 < n" using assms(1) unfolding poll_takes_def by blast
    let ?s = "call_state s t (WritePayload (drop n bs))\<lparr>world := w\<rparr>"
    have "reaches env poll mode ?s (done_but t ?s)" by (rule less.hyps [of "drop n bs"]) (use False n(2) less.prems in auto)
    moreover have "done_but t ?s = done_but t s" by (simp add: done_but_def fun_eq_iff)
    ultimately show ?thesis using reaches_step [OF write_step.payload [where mode = mode and env = env and poll = poll, OF less.prems(1) False n]] by simp
  qed
qed

lemma header_completes:
  assumes "poll_takes poll" "calls s t = WriteHeader h d bs" "lock s = Some t"
  shows "reaches env poll mode s (done_but t s)"
  using assms(2-)
proof (induction "length bs" arbitrary: s bs rule: less_induct)
  case less
  show ?case
  proof (cases "bs = []")
    case True
    let ?s = "call_state s t (WritePayload (payload_bytes h d))"
    have "reaches env poll mode ?s (done_but t ?s)" by (rule payload_completes [OF assms(1)]) (simp_all add: less.prems)
    moreover have "done_but t ?s = done_but t s" by (simp add: done_but_def fun_eq_iff)
    ultimately show ?thesis
      using reaches_step [OF write_step.head_end [where mode = mode and env = env and poll = poll, OF less.prems(1) [unfolded True]]] by simp
  next
    case False
    then obtain n w where n: "poll (world s) bs = (Inr n, w)" "0 < n" using assms(1) unfolding poll_takes_def by blast
    let ?s = "call_state s t (WriteHeader h d (drop n bs))\<lparr>world := w\<rparr>"
    have "reaches env poll mode ?s (done_but t ?s)" by (rule less.hyps [of "drop n bs"]) (use False n(2) less.prems in auto)
    moreover have "done_but t ?s = done_but t s" by (simp add: done_but_def fun_eq_iff)
    ultimately show ?thesis using reaches_step [OF write_step.head [where mode = mode and env = env and poll = poll, OF less.prems(1) False n]] by simp
  qed
qed

lemma call_completes:
  assumes "poll_takes poll" "if in_section (calls s t) then lock s = Some t else lock s = None"
  shows "reaches env poll mode s (done_but t s)"
proof (cases "calls s t")
  case Idle
  then show ?thesis using assms(2) by (auto intro!: reaches_here simp: done_but_def fun_eq_iff)
next
  case (Locking h d bs)
  let ?s = "call_state s t (WriteHeader h d bs)\<lparr>lock := Some t\<rparr>"
  have "reaches env poll mode ?s (done_but t ?s)" by (rule header_completes [OF assms(1)]) simp_all
  moreover have "done_but t ?s = done_but t s" by (simp add: done_but_def fun_eq_iff)
  moreover have "lock s = None" using Locking assms(2) by simp
  ultimately show ?thesis using reaches_step [OF write_step.acquire [where mode = mode and env = env and poll = poll, OF Locking]] by simp
next
  case (WriteHeader h d bs)
  then show ?thesis using header_completes [OF assms(1) WriteHeader] assms(2) by simp
next
  case (WritePayload bs)
  then show ?thesis using payload_completes [OF assms(1) WritePayload] assms(2) by simp
qed

lemma both_complete:
  assumes "poll_takes poll" "writers_ok s"
  shows "reaches env poll mode s (\<lambda>s'. lock s' = None \<and> (\<forall>t. calls s' t = Idle))"
proof -
  define t where "t = (case lock s of Some t \<Rightarrow> t | None \<Rightarrow> SendHalf)"
  define u where "u = (case t of SendHalf \<Rightarrow> ReceiveHalf | ReceiveHalf \<Rightarrow> SendHalf)"
  have u: "u \<noteq> t" "\<And>v. v = t \<or> v = u" by (auto simp: u_def split: half.splits intro: half.exhaust)
  then have v: "\<forall>v. v = t \<or> v = u" by blast
  have l: "lock s = Some v \<longleftrightarrow> in_section (calls s v)" for v using assms(2) by (simp add: writers_ok_def)
  have "t = v" if "lock s = Some v" for v using that by (simp add: t_def)
  then have "\<not> in_section (calls s u)" "if in_section (calls s t) then lock s = Some t else lock s = None"
    using u(1) l [of u] l [of t] not_None_eq [of "lock s"] by metis+
  then have first: "reaches env poll mode s (done_but t s)" and "\<not> in_section (calls s u)" using call_completes [OF assms(1)] by auto
  have "reaches env poll mode s' (\<lambda>s'. lock s' = None \<and> (\<forall>t. calls s' t = Idle))" if "done_but t s s'" for s'
  proof -
    have "reaches env poll mode s' (done_but u s')"
      by (rule call_completes [OF assms(1)]) (use that u(1) \<open>\<not> in_section (calls s u)\<close> in \<open>simp add: done_but_def\<close>)
    then show ?thesis
      by (rule reaches_trans) (use that u(1) v in \<open>auto intro!: reaches_here simp: done_but_def fun_eq_iff\<close>)
  qed
  then show ?thesis using reaches_trans [OF first] by blast
qed


lemma calls_complete:
  assumes "sink_ok env inp outp" "quiet_reads env outp" "poll_ok poll outp" "poll_takes poll" "idle s"
    and "write_run env poll mode s es s'" "list_all undisturbed es"
  shows "\<exists>es' s''. write_run env poll mode s' es' s'' \<and> list_all continuing es' \<and> lock s'' = None \<and> (\<forall>t. calls s'' t = Idle) \<and>
    outp (world s'') = outp (world s) @ concat (map frame_wire (all_events acquired (es @ es'))) \<and>
    (\<forall>t. list_all2 (written_as mode) (all_events (begun t) es) (all_events (acquired_by t) (es @ es')))"
proof -
  have "writers_ok s'" using write_run_ok [OF assms(6,7,1-3,5)] by simp
  from both_complete [OF assms(4) this] obtain es' s'' where
    r: "write_run env poll mode s' es' s''" "list_all continuing es'" "lock s'' = None" "\<forall>t. calls s'' t = Idle"
    unfolding reaches_def by blast
  have c: "continuing e \<Longrightarrow> undisturbed e \<and> begun t e = []" for e t by (cases e) simp_all
  then have u: "list_all undisturbed (es @ es')" "\<And>t. all_events (begun t) es' = []"
    using r(2) assms(7) by (auto simp: list_all_iff)
  from write_run_ok [OF write_run_trans [OF r(1) assms(6)] u(1) assms(1-3,5)] show ?thesis
    using r u(2) by (intro exI [of _ es'] exI [of _ s'']) (simp add: pending_def)
qed

lemma acquired_one:
  "all_events (acquired_by SendHalf) es = [] \<Longrightarrow> all_events acquired es = all_events (acquired_by ReceiveHalf) es"
proof (induction es)
  case (Cons e es)
  then show ?case by (cases "(SendHalf, e)" rule: acquired_by.cases) (auto split: if_splits intro: half.exhaust)
qed simp

section \<open>Properties\<close>

text \<open>
  C18. The lock of the writer: however the two halves interleave their calls, and however
  few bytes each write of the socket takes, the output is the frames of both, each whole, in the order in which the
  lock was taken, up to a rest of the frame that is being written. Each half's frames are those of its calls, in order.
\<close>

theorem writers_serialise:
  assumes "sink_ok env inp outp" "quiet_reads env outp" "poll_ok poll outp" "idle s"
    and "write_run env poll mode s es s'" "list_all undisturbed es"
  shows "\<exists>rest. outp (world s') @ rest = outp (world s) @ concat (map frame_wire (all_events acquired es)) \<and>
    (lock s' = None \<longrightarrow> rest = []) \<and>
    (\<forall>t. \<exists>late. list_all2 (written_as mode) (all_events (begun t) es) (all_events (acquired_by t) es @ late) \<and>
       length late \<le> 1 \<and> (calls s' t = Idle \<longrightarrow> late = []))"
proof -
  have "length (waiting c) \<le> 1" for c by (cases c) simp_all
  then show ?thesis using write_run_ok [OF assms(5,6,1-4)]
    by (intro exI [of _ "pending s'"] conjI allI) (auto simp: pending_def)
qed

text \<open>
  C19. No call waits forever: at every moment, the calls that have begun can run to their ends, without a new call and
  without a failure, if the socket takes at least a byte at a time. Then the output is whole frames, and every call has written its own.
\<close>

theorem writers_complete:
  assumes "sink_ok env inp outp" "quiet_reads env outp" "poll_ok poll outp" "poll_takes poll" "idle s"
    and "write_run env poll mode s es s'" "list_all undisturbed es"
  shows "\<exists>es' s''. write_run env poll mode s' es' s'' \<and> list_all continuing es' \<and> lock s'' = None \<and> (\<forall>t. calls s'' t = Idle) \<and>
    outp (world s'') = outp (world s) @ concat (map frame_wire (all_events acquired (es @ es'))) \<and>
    (\<forall>t. list_all2 (written_as mode) (all_events (begun t) es) (all_events (acquired_by t) (es @ es')))"
  by (rule calls_complete [OF assms])

text \<open>A socket in memory that takes one byte at a time.\<close>

definition mem_poll :: "Mem \<Rightarrow> bytes \<Rightarrow> (io_Error + nat) \<times> Mem" where
  "mem_poll w bs = (Inr (min 1 (length bs)), w\<lparr>mem_out := mem_out w @ take 1 bs\<rparr>)"

lemma mem_poll_ok: "poll_ok mem_poll mem_out" "poll_takes mem_poll" "quiet_reads (mem_env n) mem_out"
  by (auto simp: poll_ok_def poll_takes_def mem_poll_def quiet_reads_def mem_env_def Let_def min_def split: if_splits)

definition mem_writers :: "Mem writers" where
  "mem_writers = \<lparr>lock = None, calls = (\<lambda>t. Idle), codecs = (\<lambda>t. codec_new), world = \<lparr>mem_in = [], mem_out = [], mem_key = 1\<rparr>\<rparr>"

lemma mem_writers_idle: "idle mem_writers"
  by (simp add: idle_def mem_writers_def codec_new_ok)


lemma write_run_Cons:
  "write_step env poll mode e s s1 \<Longrightarrow> write_run env poll mode s1 es s' \<Longrightarrow> write_run env poll mode s (e # es) s'"
  using write_run_trans [OF _ write_run.step [OF write_run.start]] by fastforce

text \<open>A text frame of the sender and a pong of the receiver, on the side of a server.\<close>

definition text_bytes :: bytes where "text_bytes = [0x81, 1, 0x48]"

definition pong_bytes :: bytes where "pong_bytes = [0x8A, 1, 7]"

lemma mem_begin:
  assumes "codec_ok codec"
  shows "\<exists>codec'. write_begin (mem_env 1) Server codec w (header_new oc) (Shared [b]) =
     Some (codec', (header_new oc)\<lparr>h_payload_len := 1\<rparr>, header_bytes ((header_new oc)\<lparr>h_payload_len := 1\<rparr>), w)"
  using encode_header_bytes [OF assms, of "(header_new oc)\<lparr>h_payload_len := 1\<rparr>"]
  by (auto simp: write_begin_def Let_def model_defs)

lemma mem_headers:
  "header_bytes ((header_new OpCode.Text)\<lparr>h_payload_len := 1\<rparr>) = [0x81, 1]"
  "header_bytes ((header_new OpCode.Pong)\<lparr>h_payload_len := 1\<rparr>) = [0x8A, 1]"
  by (simp_all add: header_bytes_def rfc_first_byte header_new_def first_byte_def len_code_def ext_len_def model_defs)


lemma mem_frames:
  "frame_wire ((header_new OpCode.Text)\<lparr>h_payload_len := 1\<rparr>, [0x48]) = text_bytes"
  "frame_wire ((header_new OpCode.Pong)\<lparr>h_payload_len := 1\<rparr>, [7]) = pong_bytes"
proof -
  have "apply_mask ((header_new oc)\<lparr>h_payload_len := n\<rparr>) p = p" for oc n p by (simp add: apply_mask_def header_new_def model_defs)
  then show "frame_wire ((header_new OpCode.Text)\<lparr>h_payload_len := 1\<rparr>, [0x48]) = text_bytes"
    "frame_wire ((header_new OpCode.Pong)\<lparr>h_payload_len := 1\<rparr>, [7]) = pong_bytes"
    by (simp_all add: frame_wire_def mem_headers text_bytes_def pong_bytes_def)
qed

lemma mem_run:
  "\<exists>s'. write_run (mem_env 1) mem_poll Server mem_writers
      [Begin SendHalf (header_new OpCode.Text) (Shared [0x48]), Begin ReceiveHalf (header_new OpCode.Pong) (Shared [7]),
       Acquire SendHalf ((header_new OpCode.Text)\<lparr>h_payload_len := 1\<rparr>, as_ref (Shared [0x48])), Poll SendHalf] s' \<and>
     mem_out (world s') = [0x81] \<and> lock s' = Some SendHalf"
proof -
  let ?t = "(header_new OpCode.Text)\<lparr>h_payload_len := 1\<rparr>" and ?p = "(header_new OpCode.Pong)\<lparr>h_payload_len := 1\<rparr>"
  obtain c1 where c1: "write_begin (mem_env 1) Server codec_new (world mem_writers) (header_new OpCode.Text) (Shared [0x48]) =
      Some (c1, ?t, [0x81, 1], world mem_writers)" using mem_begin [OF codec_new_ok, of _ OpCode.Text] mem_headers by auto
  obtain c2 where c2: "write_begin (mem_env 1) Server codec_new (world mem_writers) (header_new OpCode.Pong) (Shared [7]) =
      Some (c2, ?p, [0x8A, 1], world mem_writers)" using mem_begin [OF codec_new_ok, of _ OpCode.Pong] mem_headers by auto
  show ?thesis
    apply (rule exI, rule conjI)
     apply (rule write_run_Cons, rule write_step.enter [where codec = c1 and h = ?t and hb = "[0x81, 1]" and w = "world mem_writers"])
       apply (simp add: mem_writers_def)
      apply (use c1 in \<open>simp add: mem_writers_def\<close>)
     apply (rule write_run_Cons, rule write_step.enter [where codec = c2 and h = ?p and hb = "[0x8A, 1]" and w = "world mem_writers"])
       apply (simp add: mem_writers_def)
      apply (use c2 in \<open>simp add: mem_writers_def\<close>)
     apply (rule write_run_Cons, rule write_step.acquire [where h = ?t and hb = "[0x81, 1]"])
       apply simp
      apply (simp add: mem_writers_def)
     apply (rule write_run_Cons, rule write_step.head [where h = ?t and hb = "[0x81, 1]" and data = "Shared [0x48]" and n = 1])
         apply simp
        apply simp
       apply (simp add: mem_poll_def)
      apply simp
     apply (rule write_run.start)
    apply (simp add: mem_writers_def)
    done
qed


theorem writers_serialise_witness:
  "\<exists>s' rest es. write_run (mem_env 1) mem_poll Server mem_writers es s' \<and> lock s' = Some SendHalf \<and>
     mem_out (world s') = [0x81] \<and> mem_out (world s') @ rest = text_bytes"
proof -
  let ?f = "((header_new OpCode.Text)\<lparr>h_payload_len := 1\<rparr>, as_ref (Shared [0x48]))"
  let ?es = "[Begin SendHalf (header_new OpCode.Text) (Shared [0x48]), Begin ReceiveHalf (header_new OpCode.Pong) (Shared [7]),
       Acquire SendHalf ?f, Poll SendHalf]"
  obtain s' where r: "write_run (mem_env 1) mem_poll Server mem_writers ?es s'" "mem_out (world s') = [0x81]" "lock s' = Some SendHalf"
    using mem_run by blast
  have "frame_wire ?f = text_bytes" by (simp add: mem_frames)
  moreover have "mem_out (world mem_writers) = []" by (simp add: mem_writers_def)
  ultimately have "\<exists>rest. mem_out (world s') @ rest = text_bytes"
    using writers_serialise [OF env_okD(3) [OF mem_env_ok] mem_poll_ok(3,1) mem_writers_idle r(1)] by auto
  then show ?thesis using r by blast
qed

theorem writers_complete_witness:
  "\<exists>es' s' s''. write_run (mem_env 1) mem_poll Server s' es' s'' \<and> lock s' = Some SendHalf \<and> mem_out (world s') = [0x81] \<and>
     list_all continuing es' \<and> lock s'' = None \<and> calls s'' SendHalf = Idle \<and> calls s'' ReceiveHalf = Idle \<and>
     mem_out (world s'') = concat (map frame_wire (((header_new OpCode.Text)\<lparr>h_payload_len := 1\<rparr>, [0x48]) # all_events acquired es'))"
proof -
  let ?es = "[Begin SendHalf (header_new OpCode.Text) (Shared [0x48]), Begin ReceiveHalf (header_new OpCode.Pong) (Shared [7]),
       Acquire SendHalf ((header_new OpCode.Text)\<lparr>h_payload_len := 1\<rparr>, as_ref (Shared [0x48])), Poll SendHalf]"
  obtain s' where r: "write_run (mem_env 1) mem_poll Server mem_writers ?es s'" "mem_out (world s') = [0x81]" "lock s' = Some SendHalf"
    using mem_run by blast
  have "mem_out (world mem_writers) = []" by (simp add: mem_writers_def)
  then show ?thesis
    using writers_complete [OF env_okD(3) [OF mem_env_ok] mem_poll_ok(3,1,2) mem_writers_idle r(1)] r by auto
qed

text \<open>No frame of a server has the mask bit.\<close>

lemma unmasked_second_byte:
  assumes "emits Server bits [] (b1 # b2 # bs)"
  shows "b2 < 128"
proof -
  obtain fs where fs: "list_all (rfc_frame Server bits) fs" "b1 # b2 # bs = concat (map frame_wire fs)" using assms by (auto simp: emits_def)
  then obtain f fs' where "fs = f # fs'" by (cases fs) auto
  then have "b2 = len_code (h_payload_len (fst f))" using fs by (auto simp: rfc_frame_def frame_wire_def header_bytes_def)
  then show ?thesis by (simp add: len_code_less)
qed

text \<open>
  Why calls must not be dropped: when the call of the sender is dropped after the first byte of its frame, its lock is
  released, and the frame of the other half follows that byte. No peer reads this output as frames of a server.
\<close>

theorem cancelled_write_tears:
  "\<exists>es s' f. write_run (mem_env 1) mem_poll Server mem_writers
      ([Begin SendHalf (header_new OpCode.Text) (Shared [0x48]), Acquire SendHalf f, Poll SendHalf, Cancel SendHalf,
        Begin ReceiveHalf (header_new OpCode.Pong) (Shared [7])] @ es) s' \<and> list_all continuing es \<and> (\<forall>t. calls s' t = Idle) \<and>
    mem_out (world s') = take 1 text_bytes @ pong_bytes \<and> (\<forall>bits. \<not> emits Server bits [] (mem_out (world s')))"
proof -
  let ?t = "(header_new OpCode.Text)\<lparr>h_payload_len := 1\<rparr>" and ?p = "(header_new OpCode.Pong)\<lparr>h_payload_len := 1\<rparr>"
  let ?w = "\<lparr>mem_in = [], mem_out = [0x81], mem_key = 1\<rparr>"
  obtain c1 where c1: "write_begin (mem_env 1) Server codec_new (world mem_writers) (header_new OpCode.Text) (Shared [0x48]) =
      Some (c1, ?t, [0x81, 1], world mem_writers)" using mem_begin [OF codec_new_ok, of _ OpCode.Text] mem_headers by auto
  have c1_ok: "codec_ok c1" using write_begin_ok [OF env_okD(3) [OF mem_env_ok] codec_new_ok c1] by simp
  define s1 :: "Mem writers" where "s1 = \<lparr>lock = None, calls = (\<lambda>t. Idle), codecs = (\<lambda>t. codec_new)(SendHalf := c1), world = ?w\<rparr>"
  have r1: "write_run (mem_env 1) mem_poll Server mem_writers [Begin SendHalf (header_new OpCode.Text) (Shared [0x48]),
      Acquire SendHalf (?t, as_ref (Shared [0x48])), Poll SendHalf, Cancel SendHalf] s1"
    apply (rule write_run_Cons, rule write_step.enter [where codec = c1 and h = ?t and hb = "[0x81, 1]" and w = "world mem_writers"])
      apply (simp add: mem_writers_def)
     apply (use c1 in \<open>simp add: mem_writers_def\<close>)
    apply (rule write_run_Cons, rule write_step.acquire [where h = ?t and hb = "[0x81, 1]"])
      apply simp
     apply (simp add: mem_writers_def)
    apply (rule write_run_Cons, rule write_step.head [where h = ?t and hb = "[0x81, 1]" and data = "Shared [0x48]" and n = 1 and w = ?w])
        apply simp
       apply simp
      apply (simp add: mem_poll_def mem_writers_def)
     apply simp
    apply (rule write_run_Cons, rule write_step.cancel)
     apply simp
    apply (simp add: unlocked_def mem_writers_def s1_def fun_upd_def if_distrib cong: if_cong)
    apply (rule write_run.start)
    done
  have i: "idle s1" using c1_ok by (simp add: idle_def s1_def)
  obtain c2 where c2: "write_begin (mem_env 1) Server (codecs s1 ReceiveHalf) (world s1) (header_new OpCode.Pong) (Shared [7]) =
      Some (c2, ?p, [0x8A, 1], world s1)" using mem_begin [OF codec_new_ok, of _ OpCode.Pong] mem_headers by (auto simp: s1_def)
  define s2 where "s2 = call_state s1 ReceiveHalf (Locking ?p (Shared [7]) [0x8A, 1])\<lparr>codecs := (codecs s1)(ReceiveHalf := c2), world := world s1\<rparr>"
  have r2: "write_run (mem_env 1) mem_poll Server s1 [Begin ReceiveHalf (header_new OpCode.Pong) (Shared [7])] s2"
    unfolding s2_def by (rule write_run_Cons [OF write_step.enter write_run.start]) (use c2 in \<open>simp_all add: s1_def\<close>)
  from calls_complete [OF env_okD(3) [OF mem_env_ok] mem_poll_ok(3,1,2) i r2] obtain es s3 where
    r3: "write_run (mem_env 1) mem_poll Server s2 es s3" "list_all continuing es" "\<forall>t. calls s3 t = Idle"
      "mem_out (world s3) = [0x81] @ concat (map frame_wire (all_events acquired es))"
      "\<forall>t. list_all2 (written_as Server) (if ReceiveHalf = t then [(header_new OpCode.Pong, Shared [7])] else []) (all_events (acquired_by t) es)"
    by (auto simp: s1_def)
  have "all_events acquired es = [(?p, [7])]"
    using r3(5) [rule_format, of ReceiveHalf] r3(5) [rule_format, of SendHalf] acquired_one [of es]
    by (auto simp: list_all2_Cons1 written_as_def sent_header_def simp del: concat_eq_Nil_conv)
  then have out: "mem_out (world s3) = take 1 text_bytes @ pong_bytes"
    using r3(4) by (simp add: mem_frames text_bytes_def)
  moreover have "\<not> emits Server bits [] (mem_out (world s3))" for bits
    using unmasked_second_byte [of bits "0x81" "0x8A"] out by (auto simp: text_bytes_def pong_bytes_def)
  moreover have "write_run (mem_env 1) mem_poll Server mem_writers ([Begin SendHalf (header_new OpCode.Text) (Shared [0x48]),
      Acquire SendHalf (?t, as_ref (Shared [0x48])), Poll SendHalf, Cancel SendHalf, Begin ReceiveHalf (header_new OpCode.Pong) (Shared [7])] @ es) s3"
    using write_run_trans [OF r3(1) write_run_trans [OF r2 r1]] by simp
  ultimately show ?thesis using r3(2,3) by blast
qed

end
