(* ===== verification/Error_Display.thy ===== *)
theory Error_Display
  imports Connection Handshake "HOL-Library.Sublist"
begin

text \<open>
  How values and errors are shown (\<^verbatim>\<open>impl Display\<close>) and what causes an error names (\<^verbatim>\<open>Error::source\<close>), for the log lines
  and the error chains of the programs. The text of an \<^verbatim>\<open>io::Error\<close> comes from the operating system and is a parameter;
  a \<open>BoxedError\<close> is represented by its text.
\<close>

section \<open>Numbers\<close>

text \<open>\<^verbatim>\<open>{:x}\<close> of an unsigned integer.\<close>

definition hex_digit :: "nat \<Rightarrow> u8" where
  "hex_digit k = (if k < 10 then 0x30 + of_nat k else 0x57 + of_nat k)"

fun hexadecimal :: "nat \<Rightarrow> str" where
  "hexadecimal n = (if n < 16 then [hex_digit n] else hexadecimal (n div 16) @ [hex_digit (n mod 16)])"

declare hexadecimal.simps [simp del]

text \<open>\<^verbatim>\<open>{:08x}\<close>: filled up with zeros on the left.\<close>

definition zero_padded :: "nat \<Rightarrow> str \<Rightarrow> str" where
  "zero_padded width s = replicate (width - length s) 0x30 @ s"

definition bool_as_u8 :: "bool \<Rightarrow> str" where
  "bool_as_u8 b = decimal (if b then 1 else 0)"

section \<open>Values\<close>

definition unknown_opcode_display :: "UnknownOpCode_error \<Rightarrow> str" where
  "unknown_opcode_display e = lit ''unknown opcode''"

definition header_display :: "Header \<Rightarrow> str" where
  "header_display h =
     lit ''('' @ lit (opcode_display (h_opcode h)) @ lit '' (fin '' @ bool_as_u8 (h_fin h) @ lit '') (rsv '' @
     bool_as_u8 (h_rsv1 h) @ bool_as_u8 (h_rsv2 h) @ bool_as_u8 (h_rsv3 h) @ lit '') (mask ('' @
     bool_as_u8 (h_masked h) @ lit '' '' @ hexadecimal (unat (h_mask h)) @ lit '')) (len '' @
     decimal (unat (h_payload_len h)) @ lit ''))''"

definition id_display :: "u32 \<Rightarrow> str" where
  "id_display i = zero_padded 8 (hexadecimal (unat i))"

definition slice_too_large_display :: "SliceTooLarge \<Rightarrow> str" where
  "slice_too_large_display e = lit ''Slice larger than 125 bytes''"

section \<open>Errors\<close>

fun utf8_error_display :: "Utf8Error \<Rightarrow> str" where
  "utf8_error_display (Utf8Error i (Some n)) =
     lit ''invalid utf-8 sequence of '' @ decimal n @ lit '' bytes from index '' @ decimal i"
| "utf8_error_display (Utf8Error i None) = lit ''incomplete utf-8 byte sequence from index '' @ decimal i"

fun base_error_display :: "(io_Error \<Rightarrow> str) \<Rightarrow> base_Error \<Rightarrow> str" where
  "base_error_display io (base_Error.Io e) = lit ''i/o error: '' @ io e"
| "base_error_display io UnknownOpCode = lit ''unknown opcode''"
| "base_error_display io ReservedOpCode = lit ''reserved opcode''"
| "base_error_display io FragmentedControl = lit ''fragmented control frame''"
| "base_error_display io InvalidControlFrameLen = lit ''invalid control frame length''"
| "base_error_display io (InvalidReservedBit n) = lit ''invalid reserved bit: '' @ decimal (unat n)"
| "base_error_display io (PayloadTooLarge actual maximum) =
     lit ''payload too large: len = '' @ decimal (unat actual) @ lit '', maximum = '' @ decimal (unat maximum)"

fun conn_error_display :: "(io_Error \<Rightarrow> str) \<Rightarrow> conn_Error \<Rightarrow> str" where
  "conn_error_display io (conn_Error.Io e) = lit ''i/o error: '' @ io e"
| "conn_error_display io (Codec e) = lit ''codec error: '' @ base_error_display io e"
| "conn_error_display io (conn_Error.Extension e) = lit ''extension error: '' @ lit e"
| "conn_error_display io (UnexpectedOpCode c) = lit ''unexpected opcode: '' @ lit (opcode_display c)"
| "conn_error_display io (conn_Error.Utf8 e) = lit ''utf-8 error: '' @ utf8_error_display e"
| "conn_error_display io (MessageTooLarge current maximum) =
     lit ''message too large: len >= '' @ decimal (unat current) @ lit '', maximum = '' @ decimal (unat maximum)"
| "conn_error_display io conn_Error.Closed = lit ''connection closed''"

fun hs_error_display :: "(io_Error \<Rightarrow> str) \<Rightarrow> hs_Error \<Rightarrow> str" where
  "hs_error_display io (hs_Error.Io e) = lit ''i/o error: '' @ io e"
| "hs_error_display io UnsupportedHttpVersion = lit ''http version was not 1.1''"
| "hs_error_display io IncompleteHttpRequest = lit ''http request was incomplete''"
| "hs_error_display io (SecWebSocketKeyInvalidLength len) =
     lit ''Sec-WebSocket-Key header was '' @ decimal len @ lit '' bytes long, expected 24''"
| "hs_error_display io InvalidRequestMethod = lit ''handshake was not a GET request''"
| "hs_error_display io (HeaderNotFound name) = lit ''header '' @ name @ lit '' not found''"
| "hs_error_display io (UnexpectedHeader name) = lit ''header '' @ name @ lit '' had an unexpected value''"
| "hs_error_display io InvalidSecWebSocketAccept = lit ''websocket key mismatch''"
| "hs_error_display io UnsolicitedExtension = lit ''unsolicited extension returned''"
| "hs_error_display io UnsolicitedProtocol = lit ''unsolicited protocol returned''"
| "hs_error_display io (hs_Error.Extension e) = lit ''extension error: '' @ lit e"
| "hs_error_display io (hs_Error.Http e) = lit ''http parser error: '' @ lit e"
| "hs_error_display io (hs_Error.Utf8 e) = lit ''utf-8 decoding error: '' @ utf8_error_display e"

section \<open>Causes\<close>

datatype cause = IoCause io_Error | CodecCause base_Error | BoxedCause BoxedError | Utf8Cause Utf8Error

fun cause_display :: "(io_Error \<Rightarrow> str) \<Rightarrow> cause \<Rightarrow> str" where
  "cause_display io (IoCause e) = io e"
| "cause_display io (CodecCause e) = base_error_display io e"
| "cause_display io (BoxedCause e) = lit e"
| "cause_display io (Utf8Cause e) = utf8_error_display e"

definition base_source :: "base_Error \<Rightarrow> cause option" where
  "base_source e = (case e of base_Error.Io e \<Rightarrow> Some (IoCause e) | _ \<Rightarrow> None)"

definition conn_source :: "conn_Error \<Rightarrow> cause option" where
  "conn_source e =
     (case e of
        conn_Error.Io e \<Rightarrow> Some (IoCause e)
      | Codec e \<Rightarrow> Some (CodecCause e)
      | conn_Error.Extension e \<Rightarrow> Some (BoxedCause e)
      | conn_Error.Utf8 e \<Rightarrow> Some (Utf8Cause e)
      | UnexpectedOpCode _ \<Rightarrow> None
      | MessageTooLarge _ _ \<Rightarrow> None
      | conn_Error.Closed \<Rightarrow> None)"

definition hs_source :: "hs_Error \<Rightarrow> cause option" where
  "hs_source e =
     (case e of
        hs_Error.Io e \<Rightarrow> Some (IoCause e)
      | hs_Error.Extension e \<Rightarrow> Some (BoxedCause e)
      | hs_Error.Http e \<Rightarrow> Some (BoxedCause e)
      | hs_Error.Utf8 e \<Rightarrow> Some (Utf8Cause e)
      | _ \<Rightarrow> None)"

section \<open>Numbers are shown differently\<close>

lemma decimal_inj:
  assumes "decimal m = decimal n"
  shows "m = n"
proof -
  have "parse_digits (m + n) 0 (decimal m) = Some m" "parse_digits (m + n) 0 (decimal n) = Some n"
    by (rule parse_digits_decimal, simp)+
  then show ?thesis unfolding assms by (metis option.inject)
qed

lemma decimal_digits: "\<forall>b \<in> set (decimal n). in_range 0x30 0x39 b"
proof (induction n rule: decimal.induct)
  case (1 n)
  then show ?case using digit_value [of n] digit_value [of "n mod 10"] by (subst decimal.simps) auto
qed

lemma hex_digit_cases:
  assumes "k < 16"
  shows "hex_digit k \<in> set (lit ''0123456789abcdef'')" "k' < 16 \<Longrightarrow> hex_digit k = hex_digit k' \<Longrightarrow> k = k'"
proof -
  have m: "k \<in> set [0 ..< 16]" if "k < 16" for k :: nat using that by simp
  have "list_all (\<lambda>k. hex_digit k \<in> set (lit ''0123456789abcdef'')) [0 ..< 16]" by (simp add: upt_rec hex_digit_def lit_def)
  then show "hex_digit k \<in> set (lit ''0123456789abcdef'')" using m [OF assms] by (simp add: list_all_iff)
  have "distinct (map hex_digit [0 ..< 16])" by (simp add: upt_rec hex_digit_def)
  then show "k = k'" if "k' < 16" "hex_digit k = hex_digit k'"
    using m [OF assms] m [OF that(1)] that(2) by (simp add: distinct_map inj_on_def)
qed

lemma hexadecimal_digits: "set (hexadecimal n) \<subseteq> set (lit ''0123456789abcdef'')"
proof (induction n rule: hexadecimal.induct)
  case (1 n)
  then show ?case using hex_digit_cases(1) [of n] hex_digit_cases(1) [of "n mod 16"] by (subst hexadecimal.simps) auto
qed

lemma hexadecimal_inj: "hexadecimal m = hexadecimal n \<Longrightarrow> m = n"
proof (induction m arbitrary: n rule: hexadecimal.induct)
  case (1 m)
  have ne: "hexadecimal k \<noteq> []" for k by (subst hexadecimal.simps) simp
  consider "m < 16" "n < 16" | "\<not> m < 16" "\<not> n < 16" | "(m < 16) \<noteq> (n < 16)" by blast
  then show ?case
  proof cases
    case 2
    then have "hexadecimal (m div 16) = hexadecimal (n div 16)" "hex_digit (m mod 16) = hex_digit (n mod 16)"
      using "1.prems" by (simp_all add: hexadecimal.simps [of m] hexadecimal.simps [of n])
    then have "m div 16 = n div 16" "m mod 16 = n mod 16" using "1.IH" 2 hex_digit_cases(2) [of "m mod 16" "n mod 16"] by simp_all
    then show ?thesis by (metis div_mult_mod_eq)
  qed (use "1.prems" ne hex_digit_cases(2) [of m n] in \<open>auto simp: hexadecimal.simps [of m] hexadecimal.simps [of n] Cons_eq_append_conv append_eq_Cons_conv\<close>)
qed

section \<open>Headers are shown differently\<close>

lemma shown_before: "a @ c # x = b @ c # y \<Longrightarrow> c \<notin> set a \<Longrightarrow> c \<notin> set b \<Longrightarrow> a = b \<and> x = y"
proof (induction a arbitrary: b)
  case Nil
  then show ?case by (cases b) auto
next
  case (Cons k a)
  then show ?case by (cases b) auto
qed

lemma bool_as_u8_simps [simp]: "bool_as_u8 b = [if b then 0x31 else 0x30]"
  by (simp add: bool_as_u8_def decimal.simps)

lemma lit_cons: "lit (c # s) = of_char c # lit s" "lit [] = []"
  by (simp_all add: lit_def)

lemma opcode_shown: "0x20 \<notin> set (lit (opcode_display oc))" "lit (opcode_display oc) = lit (opcode_display oc') \<Longrightarrow> oc = oc'"
proof -
  show "0x20 \<notin> set (lit (opcode_display oc))" by (cases oc) (simp_all add: lit_def)
  show "lit (opcode_display oc) = lit (opcode_display oc') \<Longrightarrow> oc = oc'" by (cases oc; cases oc'; simp add: lit_def)
qed

lemma numbers_shown: "0x29 \<notin> set (hexadecimal m)" "0x29 \<notin> set (decimal m)"
proof -
  have "(0x29 :: u8) \<notin> set (lit ''0123456789abcdef'')" by (simp add: lit_def)
  then show "0x29 \<notin> set (hexadecimal m)" using hexadecimal_digits by blast
  show "0x29 \<notin> set (decimal m)" using decimal_digits by (fastforce simp: in_range_def)
qed

text \<open>No two headers are shown alike.\<close>

lemma header_display_inj:
  fixes h h' :: Header
  assumes "header_display h = header_display h'"
  shows "h = h'"
proof -
  let ?o = "\<lambda>h. lit (opcode_display (h_opcode h))" and ?m = "\<lambda>h. hexadecimal (unat (h_mask h))" and ?l = "\<lambda>h. decimal (unat (h_payload_len h))"
  define r where "r h = lit ''(fin '' @ bool_as_u8 (h_fin h) @ lit '') (rsv '' @ bool_as_u8 (h_rsv1 h) @ bool_as_u8 (h_rsv2 h) @ bool_as_u8 (h_rsv3 h) @
     lit '') (mask ('' @ bool_as_u8 (h_masked h) @ lit '' '' @ ?m h @ lit '')) (len '' @ ?l h @ lit ''))''" for h :: Header
  have "header_display h = 0x28 # ?o h @ 0x20 # r h" for h by (simp add: header_display_def r_def lit_cons)
  then have o: "?o h = ?o h'" "r h = r h'"
    using assms shown_before [OF _ opcode_shown(1) opcode_shown(1)] by auto
  from o(2) have "h_fin h = h_fin h'" "h_rsv1 h = h_rsv1 h'" "h_rsv2 h = h_rsv2 h'" "h_rsv3 h = h_rsv3 h'" "h_masked h = h_masked h'"
    and m: "?m h @ 0x29 # lit '') (len '' @ ?l h @ lit ''))'' = ?m h' @ 0x29 # lit '') (len '' @ ?l h' @ lit ''))''"
    by (auto simp: r_def lit_cons split: if_splits)
  moreover have "?m h = ?m h'" and l: "?l h @ 0x29 # [0x29] = ?l h' @ 0x29 # [0x29]"
    using shown_before [OF m numbers_shown(1,1)] by (simp_all add: lit_cons)
  moreover have "?l h = ?l h'" using shown_before [OF l numbers_shown(2,2)] by simp
  ultimately show ?thesis
    using opcode_shown(2) [OF o(1)] hexadecimal_inj [of "unat (h_mask h)" "unat (h_mask h')"] decimal_inj [of "unat (h_payload_len h)" "unat (h_payload_len h')"]
    by (cases h; cases h') (simp add: word_unat_eq_iff)
qed

text \<open>An error with a cause shows it.\<close>

lemma cause_shown:
  "conn_source e = Some c \<Longrightarrow> suffix (cause_display io c) (conn_error_display io e)"
  "hs_source h = Some c \<Longrightarrow> suffix (cause_display io c) (hs_error_display io h)"
  "base_source b = Some c \<Longrightarrow> suffix (cause_display io c) (base_error_display io b)"
proof -
  show "conn_source e = Some c \<Longrightarrow> suffix (cause_display io c) (conn_error_display io e)" by (cases e) (auto simp: conn_source_def suffix_def)
  show "hs_source h = Some c \<Longrightarrow> suffix (cause_display io c) (hs_error_display io h)" by (cases h) (auto simp: hs_source_def suffix_def)
  show "base_source b = Some c \<Longrightarrow> suffix (cause_display io c) (base_error_display io b)" by (cases b) (auto simp: base_source_def suffix_def)
qed

end
