(* ===== verification/Unit_Tests.thy ===== *)
theory Unit_Tests
  imports Header_Lookup Memory_Socket Connection
begin

text \<open>
  The unit tests of the crate, as predicates on the model: that they hold of the model is a check that the model behaves
  as the code does on these inputs. The tests of \<^verbatim>\<open>base.rs\<close>, \<^verbatim>\<open>connection.rs\<close> and \<^verbatim>\<open>handshake.rs\<close>.
\<close>

section \<open>The codec\<close>

definition decode_partial_header :: bool where
  "decode_partial_header \<longleftrightarrow> decode_header codec_new [0x89] = Inr (NeedMore 1)"

definition decode_partial_len :: bool where
  "decode_partial_len \<longleftrightarrow> decode_header codec_new [0x89, 0xFE, 0x01] = Inr (NeedMore 1) \<and>
     decode_header codec_new [0x89, 0xFF, 0x01, 0x02, 0x03, 0x04] = Inr (NeedMore 4)"

definition decode_partial_mask :: bool where
  "decode_partial_mask \<longleftrightarrow> decode_header codec_new [0x82, 0xFE, 0x01, 0x02, 0x00, 0x00] = Inr (NeedMore 2)"

definition decode_partial_payload :: bool where
  "decode_partial_payload \<longleftrightarrow>
     (let buf = [0x82, 0x85, 0x01, 0x02, 0x03, 0x04, 0x00, 0x00] in
      case decode_header codec_new buf of
        Inr (Done value offset) \<Rightarrow> payload_len value - of_nat (length buf - offset) = 3
      | _ \<Rightarrow> False)"

definition decode_invalid_control_payload_len :: bool where
  "decode_invalid_control_payload_len \<longleftrightarrow>
     decode_header codec_new [0x89, 0xFE, 0x10, 0x00, 0x00, 0x00, 0x00, 0x00, 0x00] = Inl InvalidControlFrameLen"

definition decode_reserved :: bool where
  "decode_reserved \<longleftrightarrow>
     list_all (\<lambda>res. case decode_header codec_new [0 OR res, 0] of Inl (InvalidReservedBit n) \<Rightarrow> True | _ \<Rightarrow> False) [0x90, 0xA0, 0xC0]"

definition decode_fragmented_control :: bool where
  "decode_fragmented_control \<longleftrightarrow>
     list_all (\<lambda>sb. decode_header codec_new [0 OR sb, 0] = Inl FragmentedControl) [8, 9, 10]"

definition decode_reserved_opcodes :: bool where
  "decode_reserved_opcodes \<longleftrightarrow>
     list_all (\<lambda>res. decode_header codec_new [0 OR (0x80 OR res), 0] = Inl ReservedOpCode) [3, 4, 5, 6, 7, 11, 12, 13, 14, 15]"

definition decode_ping_no_data :: bool where
  "decode_ping_no_data \<longleftrightarrow>
     (case decode_header codec_new [0x89, 0x80, 0x00, 0x00, 0x00, 0x01] of
        Inr (Done header offset) \<Rightarrow> is_fin header \<and> \<not> is_rsv1 header \<and> \<not> is_rsv2 header \<and> \<not> is_rsv3 header \<and>
          opcode header = OpCode.Ping \<and> payload_len header = 0
      | _ \<Rightarrow> False)"

text \<open>The property the last test checks with random bits.\<close>

definition reserved_bits_property :: "bool \<times> bool \<times> bool \<Rightarrow> bool" where
  "reserved_bits_property bits \<longleftrightarrow>
     (let c = codec_new in reserved_bits c = (False, False, False) \<and> (let c = add_reserved_bits c bits in bits = reserved_bits c))"

section \<open>Discarding bytes\<close>

text \<open>The cursor is the socket in memory. An error is a failed test.\<close>

definition discard_bytes_works :: bool where
  "discard_bytes_works \<longleftrightarrow>
     (let cursor = \<lparr>mem_in = [0, 1, 2, 3, 4], mem_out = [], mem_key = 0\<rparr> in
      case discard_bytes (mem_env 5) 1 cursor of
        (Inl e, cursor) \<Rightarrow> False
      | (Inr n, cursor) \<Rightarrow> fst (sock_read_exact (mem_env 5) cursor 4) = Inr [1, 2, 3, 4])"

section \<open>Header values\<close>

definition header_match :: bool where
  "header_match \<longleftrightarrow>
     (let headers = [hdr ''foo'' (lit ''a,b,c,d''), hdr ''foo'' (lit ''x''), hdr ''foo'' (lit ''y, z, a''), hdr ''bar'' (lit ''xxx''),
            hdr ''bar'' (lit ''sdfsdf 423 42 424''), hdr ''baz'' (lit ''123'')];
          is_ok = (\<lambda>name ours. expect_ascii_header headers (lit name) (lit ours) = Inr ()) in
      is_ok ''foo'' ''a'' \<and> is_ok ''foo'' ''b'' \<and> is_ok ''foo'' ''c'' \<and> is_ok ''foo'' ''d'' \<and> is_ok ''foo'' ''x'' \<and>
      is_ok ''foo'' ''y'' \<and> is_ok ''foo'' ''z'' \<and> is_ok ''foo'' ''a'' \<and> is_ok ''bar'' ''xxx'' \<and>
      is_ok ''bar'' ''sdfsdf 423 42 424'' \<and> is_ok ''baz'' ''123'' \<and> \<not> is_ok ''baz'' ''???'' \<and> \<not> is_ok ''???'' ''x'')"

section \<open>The tests hold\<close>

text \<open>
  The unit tests of the crate hold of the model, and the property that one of them checks with random bits holds for
  all bits.
\<close>

theorem unit_tests_hold:
  "decode_partial_header \<and> decode_partial_len \<and> decode_partial_mask \<and> decode_partial_payload \<and> decode_invalid_control_payload_len \<and>
   decode_reserved \<and> decode_fragmented_control \<and> decode_reserved_opcodes \<and> decode_ping_no_data \<and> (\<forall>bits. reserved_bits_property bits) \<and>
   discard_bytes_works \<and> header_match"
proof (intro conjI allI)
  have "reserved_bits codec_new = (False, False, False)" by (simp add: codec_new_def reserved_bits_def)
  then show "reserved_bits_property bits" for bits
    by (cases bits) (simp add: reserved_bits_property_def reserved_bits_add_one)
  show header_match
    by code_simp
qed code_simp+

end
