(* ===== verification/Spec2Isabelle.thy ===== *)
theory Spec2Isabelle
  imports Echo_Runs Status_Table Writer_Lock Error_Display Unit_Tests
begin

text \<open>
  A verification of \<^verbatim>\<open>soketto\<close>, an implementation of the websocket protocol (RFC 6455) with the extension
  permessage-deflate (RFC 7692). Source paths are relative to \<^verbatim>\<open>src/\<close> of the crate.

  \<^bold>\<open>The program.\<close> A client or a server runs a handshake over a socket (\<^verbatim>\<open>handshake/client.rs\<close>,
  \<^verbatim>\<open>handshake/server.rs\<close>, or \<^verbatim>\<open>handshake/http.rs\<close> for requests that an HTTP library has parsed), which negotiates
  extensions (\<^verbatim>\<open>extension.rs\<close>, \<^verbatim>\<open>extension/deflate.rs\<close>). The handshake becomes a builder, which makes the sending
  and the receiving half of a connection (\<^verbatim>\<open>connection.rs\<close>). The halves share the socket and the extensions,
  and read and write frames with a codec (\<^verbatim>\<open>base.rs\<close>).

  \<^bold>\<open>The model.\<close>
  \<^item> \<open>Soketto_Prelude\<close>, \<open>Std_Str\<close>: machine integers, bytes, and what the crate uses of \<^verbatim>\<open>std::str\<close>.
  \<^item> \<open>Soketto_Lib\<close>: the crate root (\<^verbatim>\<open>Parsing\<close>, \<^verbatim>\<open>Storage\<close>, \<^verbatim>\<open>read\<close>) and the environment \<open>Env\<close>: socket and random
    numbers are a record of operations on a world, with the assumptions \<open>source_ok\<close>, \<open>source_reliable\<close> and \<open>sink_ok\<close>.
  \<^item> \<open>Base_Codec\<close>: opcodes, headers, \<^verbatim>\<open>decode_header\<close>, \<^verbatim>\<open>encode_header\<close>, masking. Arithmetic is on words of the width of
    the source; writing outside the scratch buffer is \<open>None\<close>.
  \<^item> \<open>Data_Types\<close>, \<open>Extension_Trait\<close>: received data, and the trait \<^verbatim>\<open>Extension\<close> as a record of methods.
  \<^item> \<open>Connection\<close>: builder, sender and receiver. The loop of \<^verbatim>\<open>Receiver::receive\<close> is \<open>receive_loop\<close>, a partial
    function; one iteration is \<open>receive_body\<close>. A panic and a loop that does not end are \<open>None\<close>.
  \<^item> \<open>Deflate_Ext\<close>: the deflate extension. The streams of \<^verbatim>\<open>flate2\<close> are the parameter \<open>Flate\<close>; the capacity of the output
    vector is modelled, since it decides how much a call of the compressor writes.
  \<^item> \<open>Handshake\<close>, \<open>Handshake_Client\<close>, \<open>Handshake_Server\<close>, \<open>Handshake_Http\<close>: the handshakes. Parsing of HTTP heads, SHA-1, base64
    and the random nonce are the parameter \<open>Libs\<close>, header maps of the \<^verbatim>\<open>http\<close> crate the record \<open>HeaderMap\<close>.
  \<^item> \<open>Error_Display\<close>: the texts of headers and errors, and the causes of errors.
  \<^item> \<open>Echo_Programs\<close>: the programs under \<^verbatim>\<open>examples/\<close> of the repository: the echo server and the echo client for the autobahn
    test suite, and the echo server behind an HTTP server, which is itself a parameter. A program returns,
    fails with an error, or panics at an assertion (\<open>outcome\<close>).
  \<^item> \<open>Writer_Lock\<close>: \<^verbatim>\<open>write\<close> cut at its awaits, as a step relation of the two halves of a connection.
  \<^item> \<open>Unit_Tests\<close>: the unit tests of the crate, which hold of the model.

  \<^bold>\<open>What is shown.\<close>
  \<^item> \<open>Base_Codec\<close>: round trip of headers, their layout (\<open>header_bytes\<close>, written from the RFC), soundness and prefix stability of decoding, its errors. The codec is an
    instance of the locale \<open>frame_codec\<close> of incremental prefix codes, opcodes of \<open>byte_enum\<close>.
  \<^item> \<open>Connection_Receive\<close>, \<open>Receiver_Props\<close>: an abstract specification of the message layer on lists of frames, which \<open>receive\<close>
    refines, whatever pieces the socket delivers; and its consequences for fragments, control frames, close, limits
    and errors. \<open>Connection_Safety\<close>: \<open>receive\<close> returns on every finite input, also with failing reads and writes, and
    keeps the size limit.
  \<^item> \<open>Sender_Props\<close>: what is sent is received; pings are answered. \<open>Builder_Props\<close>: a built connection starts in the
    states these theorems assume.
  \<^item> \<open>Deflate_Props\<close>: window sizes stay within 9 to 15, negotiation agrees, and encoding returns, for a compressor that keeps the
    contract \<open>flate_ok\<close>; \<open>store_flate\<close> is one. A payload that encoding returns decompresses to the message (\<open>inflates\<close>), or is
    the compressor's output cut at the bytes 00 00 FF FF inside of it (\<open>cut_short\<close>): nothing in the format excludes this, and
    the loop that flushes the compressor takes these bytes for the end. The theorems on compressed messages say which of
    the two holds, and assume nothing about where these bytes occur. \<open>Compressed_Props\<close>: a message sent with compression is
    received decompressed, unless it was cut.
  \<^item> \<open>Extended_Receive\<close>: the specification of the message layer with extensions, as calls of the extensions on the frames that
    begin and end a message; \<open>receive\<close> refines it for any extensions. \<open>Compressed_Receive\<close>: its consequences for compressed
    messages in one frame and in fragments. \<open>Session_Items\<close>: sessions as lists of messages, plain or compressed, in one
    frame or in fragments, and control frames. \<open>Compressed_Session\<close>: whole runs of the echo server with compression.
  \<^item> \<open>Duplex_Props\<close>: with both halves at work, in any interleaving of their operations (\<open>duplex_step\<close>), the output is a
    sequence of whole frames. Extensions take part by the contract \<open>extension_laws\<close> of \<open>Extension_Trait\<close>, which
    \<open>Deflate_Props\<close> discharges for the deflate extension, plain and boxed. There a frame is written in one step;
    \<open>Writer_Lock\<close> shows that the lock of the writer has the same effect when the halves interleave at every await and
    the socket takes any part of the bytes, that no call waits forever, and what a dropped call does to the stream.
  \<^item> \<open>Status_Table\<close>, \<open>Header_Lookup\<close>, \<open>Request_Head\<close>, \<open>Http_Props\<close>: the binary search is a lookup (locale \<open>sorted_table\<close>), header
    lookups and extension headers, the incremental search for the end of a request, upgrade requests.
  \<^item> \<open>Http_Head\<close>: the promises of the libraries (\<open>libs_ok\<close>), with a parser that keeps them. \<open>Handshake_Props\<close>: client and server
    agree, and accept nothing else. \<open>Handshake_Deflate\<close>: a handshake that negotiates compression ends with connections
    whose extensions match. \<open>Memory_Socket\<close>, \<open>Memory_Libs\<close>, \<open>Handshake_Runs\<close>: concrete runs that meet the assumptions.
  \<^item> \<open>Echo_Spec\<close>: an abstract specification of echoing on lists of frames, which the loops of the programs refine, and their
    progress. \<open>Echo_Props\<close>: whole runs of the server, from the request to the answer of the close frame, and a panic that
    a peer can cause. \<open>Client_Session\<close>: the client runs all cases, plain and compressed. \<open>Hyper_Session\<close>: the server behind an
    HTTP server serves every connection. \<open>Programs_Return\<close>: handshakes and programs return, whatever their peers do.
    \<open>Echo_Runs\<close>: concrete runs.

  \<^bold>\<open>Bounds.\<close> There is no fuel. Loops that may run forever are partial functions into \<open>option\<close>, and theorems say that they
  return. The model fixes a 64-bit target. Lengths of buffers in memory are natural numbers; where a length is cast to a
  word the theorems assume that it fits or prove it.

  \<^bold>\<open>Not modelled.\<close> Logging; listening, connecting and the HTTP server of the example programs, which are arguments of the
  model. Asynchronous operations run to completion, as the crate demands of its users; only \<open>Writer_Lock\<close> looks at a
  future that is dropped. The lock of the extensions is held for a loop without awaits, which is one step. That the programs
  return on any input is shown for sessions in which no compression is negotiated: with compression a peer can make \<open>receive\<close>
  panic when the buffer is not empty (\<open>Compressed_Receive\<close>), which the model does not tell from a loop that does not end.
\<close>

end
